(* ===== verification/Prelude.thy ===== *)
theory Prelude
  imports Main "HOL-Library.Word" "HOL-Library.State_Monad"
begin

unbundle bit_operations_syntax

text \<open>
  Shared vocabulary of the development: the machine integer types of the Rust code, big-endian
  byte reads, the sum type used for fallible operations, and the collections of rewrite rules
  the component theories fill and use.
\<close>

section \<open>Machine integers\<close>

type_synonym u8 = "8 word"
type_synonym u16 = "16 word"
type_synonym u32 = "32 word"
type_synonym u64 = "64 word"
type_synonym u128 = "128 word"

text \<open>A raw packet is the byte slice the Rust code reads, \<open>&[u8]\<close>.\<close>

type_synonym packet_bytes = "u8 list"

text \<open>
  \<open>usize\<close> values are natural numbers below \<open>2 ^ 64\<close> (the targets of the Makefile are 64-bit);
  where the code wraps, the wrap-around is written out.
\<close>

definition wrapping_add_usize :: "nat \<Rightarrow> nat \<Rightarrow> nat" where
  "wrapping_add_usize a b = (a + b) mod 2 ^ 64"

lemma wrapping_add_usize_small: "a + b < 2 ^ 64 \<Longrightarrow> wrapping_add_usize a b = a + b"
  by (simp add: wrapping_add_usize_def)

lemma unat_below: "unat (w :: 'a::len word) < 2 ^ LENGTH('a)"
  by (rule unsigned_less)

lemma unat_u32_less [simp]: "unat (w :: u32) < 4294967296"
  using unat_below [of w] by simp

lemma unat_u8_less [simp]: "unat (w :: u8) < 256"
  using unat_below [of w] by simp

lemma unat_u16_less [simp]: "unat (w :: u16) < 65536"
  using unat_below [of w] by simp

lemma unat_u8_less_u32 [simp]: "unat (w :: u8) < 4294967296"
  using unat_u8_less [of w] by linarith

section \<open>Big-endian bytes\<close>

definition u16_from_be_bytes :: "u8 \<Rightarrow> u8 \<Rightarrow> u16" where
  "u16_from_be_bytes b0 b1 = push_bit 8 (ucast b0) OR ucast b1"

definition u32_from_be_bytes :: "u8 \<Rightarrow> u8 \<Rightarrow> u8 \<Rightarrow> u8 \<Rightarrow> u32" where
  "u32_from_be_bytes b0 b1 b2 b3 =
     push_bit 24 (ucast b0) OR push_bit 16 (ucast b1) OR push_bit 8 (ucast b2) OR ucast b3"

section \<open>Results\<close>

text \<open>
  Rust's \<open>Result<T, E>\<close> is the sum \<open>E + T\<close>; \<open>and_then\<close> is the \<open>?\<close> operator, \<open>ok_or\<close> and
  \<open>map_err\<close> are the methods of the same names.
\<close>

fun and_then :: "'e + 'a \<Rightarrow> ('a \<Rightarrow> 'e + 'b) \<Rightarrow> 'e + 'b" where
  "and_then (Inl e) f = Inl e"
| "and_then (Inr v) f = f v"

fun ok_or :: "'a option \<Rightarrow> 'e \<Rightarrow> 'e + 'a" where
  "ok_or None e = Inl e"
| "ok_or (Some v) e = Inr v"

fun map_err :: "('e \<Rightarrow> 'f) \<Rightarrow> 'e + 'a \<Rightarrow> 'f + 'a" where
  "map_err f (Inl e) = Inl (f e)"
| "map_err f (Inr v) = Inr v"

lemma and_then_cong [fundef_cong]:
  "r = r' \<Longrightarrow> (\<And>v. r' = Inr v \<Longrightarrow> f v = g v) \<Longrightarrow> and_then r f = and_then r' g"
  by (cases r') auto

lemma and_then_Inr_right [simp]: "and_then r Inr = r"
  by (cases r) auto

lemma and_then_Inr_iff: "and_then r f = Inr b \<longleftrightarrow> (\<exists>v. r = Inr v \<and> f v = Inr b)"
  by (cases r) auto

lemma and_then_Inl_iff: "and_then r f = Inl e \<longleftrightarrow> r = Inl e \<or> (\<exists>v. r = Inr v \<and> f v = Inl e)"
  by (cases r) auto

lemma ok_or_Inr_iff [simp]: "ok_or x e = Inr v \<longleftrightarrow> x = Some v"
  by (cases x) auto

lemma ok_or_Inl_iff [simp]: "ok_or x e = Inl e' \<longleftrightarrow> x = None \<and> e' = e"
  by (cases x) auto

lemma map_err_Inr_iff [simp]: "map_err f r = Inr v \<longleftrightarrow> r = Inr v"
  by (cases r) auto

lemma map_err_Inl_iff [simp]: "map_err f r = Inl e' \<longleftrightarrow> (\<exists>e. r = Inl e \<and> e' = f e)"
  by (cases r) auto

section \<open>Collections of rewrite rules\<close>

named_theorems bpf_defs \<open>constants and constructors of the instruction set\<close>
named_theorems asm_simps \<open>effect of the assembler operations on the assembler state\<close>
named_theorems block_simps \<open>evaluation of label-free code blocks\<close>

section \<open>Lists\<close>

lemma nth_append_length_Cons [simp]: "(pre @ x # post) ! length pre = x"
  by (simp add: nth_append)

lemma list_update_append_length [simp]:
  "(pre @ x # post)[length pre := y] = pre @ y # post"
  by (simp add: list_update_append)

lemma drop_append_length [simp]: "drop (length pre) (pre @ post) = post"
  by simp

end
