(* ===== verification/Std_Net.thy ===== *)
theory Std_Net
  imports Prelude
begin

text \<open>
  The address types of Rust's \<open>std::net\<close> as far as the crates use them: \<open>Ipv4Addr\<close> and
  \<open>Ipv6Addr\<close> with their conversions from and to integers and their \<open>octets()\<close>.
\<close>

datatype Ipv4Addr = Ipv4Addr (u32_from_ipv4: u32)
datatype Ipv6Addr = Ipv6Addr (u128_from_ipv6: u128)
datatype IpAddr = IpV4 Ipv4Addr | IpV6 Ipv6Addr

definition ipv4_octets :: "Ipv4Addr \<Rightarrow> u8 list" where
  "ipv4_octets addr =
     map (\<lambda>i. ucast (drop_bit (8 * (3 - i)) (u32_from_ipv4 addr))) [0, 1, 2, 3]"

definition ipv6_octets :: "Ipv6Addr \<Rightarrow> u8 list" where
  "ipv6_octets addr =
     map (\<lambda>i. ucast (drop_bit (8 * (15 - i)) (u128_from_ipv6 addr)))
       [0, 1, 2, 3, 4, 5, 6, 7, 8, 9, 10, 11, 12, 13, 14, 15]"

text \<open>\<open>Ipv4Addr::new\<close> and \<open>Ipv6Addr::new\<close>.\<close>

definition Ipv4Addr_new :: "u8 \<Rightarrow> u8 \<Rightarrow> u8 \<Rightarrow> u8 \<Rightarrow> Ipv4Addr" where
  "Ipv4Addr_new a b c d = Ipv4Addr (of_nat (foldl (\<lambda>n g. n * 256 + unat g) 0 [a, b, c, d]))"

definition Ipv6Addr_new :: "u16 list \<Rightarrow> Ipv6Addr" where
  "Ipv6Addr_new groups = Ipv6Addr (of_nat (foldl (\<lambda>n g. n * 65536 + unat g) 0 groups))"

lemma length_ipv4_octets [simp]: "length (ipv4_octets a) = 4"
  by (simp add: ipv4_octets_def)

lemma length_ipv6_octets [simp]: "length (ipv6_octets a) = 16"
  by (simp add: ipv6_octets_def)

section \<open>Order\<close>

text \<open>Addresses are ordered as \<open>Ord\<close> orders them, by their octets from the first, that is, as numbers.\<close>

instantiation Ipv4Addr :: linorder
begin

definition less_eq_Ipv4Addr :: "Ipv4Addr \<Rightarrow> Ipv4Addr \<Rightarrow> bool" where
  "a \<le> b \<longleftrightarrow> u32_from_ipv4 a \<le> u32_from_ipv4 b"

definition less_Ipv4Addr :: "Ipv4Addr \<Rightarrow> Ipv4Addr \<Rightarrow> bool" where
  "a < b \<longleftrightarrow> u32_from_ipv4 a < u32_from_ipv4 b"

instance
  by standard (auto simp: less_eq_Ipv4Addr_def less_Ipv4Addr_def Ipv4Addr.expand)

end

instantiation Ipv6Addr :: linorder
begin

definition less_eq_Ipv6Addr :: "Ipv6Addr \<Rightarrow> Ipv6Addr \<Rightarrow> bool" where
  "a \<le> b \<longleftrightarrow> u128_from_ipv6 a \<le> u128_from_ipv6 b"

definition less_Ipv6Addr :: "Ipv6Addr \<Rightarrow> Ipv6Addr \<Rightarrow> bool" where
  "a < b \<longleftrightarrow> u128_from_ipv6 a < u128_from_ipv6 b"

instance
  by standard (auto simp: less_eq_Ipv6Addr_def less_Ipv6Addr_def Ipv6Addr.expand)

end

text \<open>A network and its range of addresses: agreement of the leading bits is membership in an interval.\<close>

lemma drop_bit_mono: "(v :: 'a::len word) \<le> w \<Longrightarrow> drop_bit n v \<le> drop_bit n w"
  unfolding word_le_nat_alt unat_drop_bit_eq by (simp add: drop_bit_eq_div div_le_mono)

lemma leading_bits_interval:
  fixes w a :: "'a::len word"
  shows "drop_bit n w = drop_bit n a \<longleftrightarrow> a AND NOT (mask n) \<le> w \<and> w \<le> a OR mask n"
proof -
  have low: "drop_bit n (a AND NOT (mask n)) = drop_bit n a"
    by (rule bit_word_eqI) (auto simp: bit_simps dest: bit_imp_le_length)
  have high: "drop_bit n (a OR mask n) = drop_bit n a"
    by (rule bit_word_eqI) (auto simp: bit_simps)
  show ?thesis
  proof
    assume e: "drop_bit n w = drop_bit n a"
    then have b: "bit w k = bit a k" if "n \<le> k" for k
      using that by (metis bit_drop_bit_eq comp_apply le_add_diff_inverse)
    have "a AND NOT (mask n) = w AND NOT (mask n)" "a OR mask n = w OR mask n"
      by (rule bit_word_eqI; use b in \<open>auto simp: bit_simps not_less\<close>)+
    then show "a AND NOT (mask n) \<le> w \<and> w \<le> a OR mask n"
      by (simp add: word_and_le2 le_word_or2)
  next
    assume "a AND NOT (mask n) \<le> w \<and> w \<le> a OR mask n"
    then have "drop_bit n a \<le> drop_bit n w \<and> drop_bit n w \<le> drop_bit n a"
      using drop_bit_mono [of "a AND NOT (mask n)" w n] drop_bit_mono [of w "a OR mask n" n] low high by simp
    then show "drop_bit n w = drop_bit n a" by (blast intro: order.antisym)
  qed
qed

end
