(* ===== verification/Filter_Ast.thy ===== *)
theory Filter_Ast
  imports Std_Net
begin

text \<open>
  The filter expression tree of \<^verbatim>\<open>crates/netdump-filter/src/lib.rs\<close>.
\<close>

datatype Protocol = Ip | Ip6 | Tcp | Udp | Icmp | Icmp6 | Arp | Rarp

datatype RelOp = Eq | Ne | Gt | Ge | Lt | Le

datatype Direction = Any | Src | Dst

datatype HostAddr = HostV4 Ipv4Addr | HostV6 Ipv6Addr

datatype NetAddr = NetV4 Ipv4Addr Ipv4Addr | NetV6 Ipv6Addr Ipv6Addr

datatype FilterAst =
    Proto Protocol
  | Host HostAddr Direction
  | Port u16 Direction
  | PortRange u16 u16 Direction
  | EtherHost "u8 list" Direction
  | Net NetAddr Direction
  | Len RelOp u32
  | And FilterAst FilterAst
  | Or FilterAst FilterAst
  | Not' FilterAst

fun HostAddr_from :: "IpAddr \<Rightarrow> HostAddr" where
  "HostAddr_from (IpV4 a) = HostV4 a"
| "HostAddr_from (IpV6 a) = HostV6 a"

text \<open>
  \<open>EtherHost\<close> carries a Rust array \<open>[u8; 6]\<close>; the list that stands for it has six bytes in every
  tree the Rust type can hold.
\<close>

fun wf_ast :: "FilterAst \<Rightarrow> bool" where
  "wf_ast (EtherHost addr dir) \<longleftrightarrow> length addr = 6"
| "wf_ast (And l r) \<longleftrightarrow> wf_ast l \<and> wf_ast r"
| "wf_ast (Or l r) \<longleftrightarrow> wf_ast l \<and> wf_ast r"
| "wf_ast (Not' e) \<longleftrightarrow> wf_ast e"
| "wf_ast _ \<longleftrightarrow> True"

end
