(* ===== verification/Std_Text.thy ===== *)
theory Std_Text
  imports Std_Net
begin

text \<open>
  Text handling of Rust's standard library, as far as the crates use it: digits, decimal and
  hexadecimal formatting, \<open>from_str_radix\<close> and \<open>FromStr\<close> of the unsigned integers with their error
  values, \<open>FromStr\<close> and \<open>Display\<close> of \<open>Ipv4Addr\<close>, \<open>FromStr\<close> of \<open>Ipv6Addr\<close>, and the ASCII string
  methods. A \<open>&str\<close> is the list of its characters; everything here is ASCII.
\<close>

section \<open>Digits\<close>

definition to_digit :: "nat \<Rightarrow> char \<Rightarrow> nat option" where
  "to_digit radix c =
     (let n = of_char c :: nat;
          d = (if 48 \<le> n \<and> n \<le> 57 then n - 48
               else if 97 \<le> n \<and> n \<le> 122 then n - 87
               else if 65 \<le> n \<and> n \<le> 90 then n - 55
               else radix) in
      if d < radix then Some d else None)"

definition digit_char :: "nat \<Rightarrow> char" where
  "digit_char d = char_of (if d < 10 then 48 + d else 87 + d)"

lemma to_digit_char [simp]: "d < b \<Longrightarrow> b \<le> 36 \<Longrightarrow> to_digit b (digit_char d) = Some d"
  by (simp add: to_digit_def digit_char_def Let_def)

lemma to_digit_less: "to_digit b c = Some d \<Longrightarrow> d < b"
  by (auto simp: to_digit_def Let_def split: if_splits)

section \<open>Formatting integers\<close>

text \<open>\<open>{}\<close> for radix 10 and \<open>{:x}\<close> for radix 16.\<close>

fun show_radix :: "nat \<Rightarrow> nat \<Rightarrow> string" where
  "show_radix b n =
     (if b < 2 \<or> n < b then [digit_char n] else show_radix b (n div b) @ [digit_char (n mod b)])"

declare show_radix.simps [simp del]

definition pad_left :: "nat \<Rightarrow> char \<Rightarrow> string \<Rightarrow> string" where
  "pad_left w c s = replicate (w - length s) c @ s"

definition show_dec :: "nat \<Rightarrow> string" where
  "show_dec n = show_radix 10 n"

definition hex2 :: "u8 \<Rightarrow> string" where
  "hex2 b = pad_left 2 (CHR ''0'') (show_radix 16 (unat b))"

text \<open>The digits a formatted number consists of, most significant first.\<close>

fun digits_of :: "nat \<Rightarrow> nat \<Rightarrow> nat list" where
  "digits_of b n = (if b < 2 \<or> n < b then [n] else digits_of b (n div b) @ [n mod b])"

declare digits_of.simps [simp del]

lemma show_radix_digits: "show_radix b n = map digit_char (digits_of b n)"
  by (induction b n rule: digits_of.induct)
    (subst digits_of.simps, subst show_radix.simps, simp)

lemma digits_of_nonempty [simp]: "digits_of b n \<noteq> []"
  by (subst digits_of.simps) simp

lemma digits_of_less: "2 \<le> b \<Longrightarrow> \<forall>d \<in> set (digits_of b n). d < b"
proof (induction b n rule: digits_of.induct)
  case (1 b n)
  then show ?case by (subst digits_of.simps) auto
qed

definition value_of :: "nat \<Rightarrow> nat \<Rightarrow> nat list \<Rightarrow> nat" where
  "value_of b acc ds = foldl (\<lambda>a d. a * b + d) acc ds"

lemma value_of_simps [simp]:
  "value_of b acc [] = acc" "value_of b acc (d # ds) = value_of b (acc * b + d) ds"
  "value_of b acc (ds @ es) = value_of b (value_of b acc ds) es"
  by (simp_all add: value_of_def)

lemma value_of_digits: "2 \<le> b \<Longrightarrow> value_of b 0 (digits_of b n) = n"
proof (induction b n rule: digits_of.induct)
  case (1 b n)
  then show ?case by (subst digits_of.simps) auto
qed

lemma value_of_ge: "2 \<le> b \<Longrightarrow> acc \<le> value_of b acc ds"
proof (induction ds arbitrary: acc)
  case (Cons d ds)
  have "acc * 1 \<le> acc * b" using Cons.prems by (intro mult_le_mono) auto
  then have "acc \<le> acc * b + d" by linarith
  also have "\<dots> \<le> value_of b (acc * b + d) ds" using Cons by blast
  finally show ?case by simp
qed simp

lemma length_digits_of: "2 \<le> b \<Longrightarrow> 0 < k \<Longrightarrow> n < b ^ k \<Longrightarrow> length (digits_of b n) \<le> k"
proof (induction b n arbitrary: k rule: digits_of.induct)
  case (1 b n)
  show ?case
  proof (cases "n < b")
    case True
    then show ?thesis using 1 by (subst digits_of.simps) auto
  next
    case False
    with 1 obtain k' where k: "k = Suc k'" "0 < k'" by (cases k; cases "k - 1") auto
    have "n div b < b ^ k'" using 1 k by (simp add: less_mult_imp_div_less mult.commute)
    then show ?thesis using 1 False k by (subst digits_of.simps) auto
  qed
qed

lemma hd_digits_of: "2 \<le> b \<Longrightarrow> hd (digits_of b n) = 0 \<Longrightarrow> n = 0"
proof (induction b n rule: digits_of.induct)
  case (1 b n)
  then show ?case
    by (subst (asm) (2) digits_of.simps) (auto split: if_splits simp: hd_append div_eq_0_iff)
qed

section \<open>Parsing integers\<close>

datatype ParseIntError = Empty | InvalidDigit | PosOverflow

fun ParseIntError_fmt :: "ParseIntError \<Rightarrow> string" where
  "ParseIntError_fmt Empty = ''cannot parse integer from empty string''"
| "ParseIntError_fmt InvalidDigit = ''invalid digit found in string''"
| "ParseIntError_fmt PosOverflow = ''number too large to fit in target type''"

text \<open>One round per character: the product is checked, then the digit, then the sum.\<close>

fun from_digits :: "nat \<Rightarrow> nat \<Rightarrow> nat \<Rightarrow> string \<Rightarrow> ParseIntError + nat" where
  "from_digits mx radix acc [] = Inr acc"
| "from_digits mx radix acc (c # cs) =
     (case to_digit radix c of
        None \<Rightarrow> Inl InvalidDigit
      | Some d \<Rightarrow> if acc * radix > mx \<or> acc * radix + d > mx then Inl PosOverflow
                  else from_digits mx radix (acc * radix + d) cs)"

text \<open>
  An unsigned type: an empty string and a lone sign are errors, a leading plus is skipped, a minus
  is an invalid digit.
\<close>

definition from_str_radix :: "nat \<Rightarrow> nat \<Rightarrow> string \<Rightarrow> ParseIntError + nat" where
  "from_str_radix mx radix s =
     (if s = [] then Inl Empty
      else if s = ''+'' \<or> s = ''-'' then Inl InvalidDigit
      else from_digits mx radix 0 (if hd s = CHR ''+'' then tl s else s))"

definition parse_u8 :: "string \<Rightarrow> ParseIntError + u8" where
  "parse_u8 s = and_then (from_str_radix 255 10 s) (\<lambda>n. Inr (of_nat n))"

definition parse_u16 :: "string \<Rightarrow> ParseIntError + u16" where
  "parse_u16 s = and_then (from_str_radix 65535 10 s) (\<lambda>n. Inr (of_nat n))"

definition parse_u32 :: "string \<Rightarrow> ParseIntError + u32" where
  "parse_u32 s = and_then (from_str_radix 4294967295 10 s) (\<lambda>n. Inr (of_nat n))"

definition u8_from_hex :: "string \<Rightarrow> ParseIntError + u8" where
  "u8_from_hex s = and_then (from_str_radix 255 16 s) (\<lambda>n. Inr (of_nat n))"

lemma from_digits_map:
  "2 \<le> b \<Longrightarrow> b \<le> 36 \<Longrightarrow> \<forall>d \<in> set ds. d < b \<Longrightarrow> value_of b acc ds \<le> mx \<Longrightarrow>
   from_digits mx b acc (map digit_char ds) = Inr (value_of b acc ds)"
proof (induction ds arbitrary: acc)
  case (Cons d ds)
  have "acc * b + d \<le> mx"
    using value_of_ge [of b "acc * b + d" ds] Cons.prems by simp
  then show ?case using Cons by simp
qed simp

lemma signs_no_digit: "to_digit b (CHR ''+'') = None" "to_digit b (CHR ''-'') = None"
  by (simp_all add: to_digit_def Let_def)

lemma digit_char_no_sign: "d < 36 \<Longrightarrow> digit_char d \<noteq> CHR ''+'' \<and> digit_char d \<noteq> CHR ''-''"
  using to_digit_char [of d 36] signs_no_digit [of 36] by (metis option.distinct(1) order_refl)

lemma from_digits_overflow:
  "2 \<le> b \<Longrightarrow> b \<le> 36 \<Longrightarrow> \<forall>d \<in> set ds. d < b \<Longrightarrow> acc \<le> mx \<Longrightarrow> mx < value_of b acc ds \<Longrightarrow>
   from_digits mx b acc (map digit_char ds) = Inl PosOverflow"
  by (induction ds arbitrary: acc) auto

lemma from_str_radix_digits:
  assumes "2 \<le> b" "b \<le> 36"
  shows "from_str_radix mx b (show_radix b n) = from_digits mx b 0 (show_radix b n)"
proof -
  let ?s = "show_radix b n"
  have ne: "?s \<noteq> []" by (simp add: show_radix_digits)
  have "hd (digits_of b n) \<in> set (digits_of b n)" by simp
  then have "hd (digits_of b n) < 36" using digits_of_less [OF assms(1), of n] assms(2) by fastforce
  then have hd: "hd ?s \<noteq> CHR ''+''" "hd ?s \<noteq> CHR ''-''"
    using digit_char_no_sign by (auto simp: show_radix_digits hd_map)
  then show ?thesis using ne by (auto simp: from_str_radix_def)
qed

text \<open>
  Formatting and parsing are inverse, in every radix, for the values the type holds; the text of a larger
  number is an overflow.
\<close>

lemma from_str_radix_show:
  assumes "2 \<le> b" "b \<le> 36"
  shows "from_str_radix mx b (show_radix b n) = (if n \<le> mx then Inr n else Inl PosOverflow)"
  using assms from_digits_map [of b "digits_of b n" 0 mx] from_digits_overflow [of b "digits_of b n" 0 mx]
    digits_of_less [of b n]
  unfolding from_str_radix_digits [OF assms] by (simp add: show_radix_digits value_of_digits)

section \<open>ASCII strings\<close>

definition to_ascii_lowercase :: "string \<Rightarrow> string" where
  "to_ascii_lowercase s =
     map (\<lambda>c. let n = of_char c :: nat in if 65 \<le> n \<and> n \<le> 90 then char_of (n + 32) else c) s"

definition eq_ignore_ascii_case :: "string \<Rightarrow> string \<Rightarrow> bool" where
  "eq_ignore_ascii_case s t \<longleftrightarrow> to_ascii_lowercase s = to_ascii_lowercase t"

fun starts_with :: "string \<Rightarrow> string \<Rightarrow> bool" where
  "starts_with s [] \<longleftrightarrow> True"
| "starts_with [] (p # ps) \<longleftrightarrow> False"
| "starts_with (c # s) (p # ps) \<longleftrightarrow> c = p \<and> starts_with s ps"

text \<open>\<open>str::split\<close> on one character: at least one part, possibly empty.\<close>

fun split_char :: "char \<Rightarrow> string \<Rightarrow> string list" where
  "split_char sep [] = [[]]"
| "split_char sep (c # cs) =
     (if c = sep then [] # split_char sep cs
      else case split_char sep cs of p # ps \<Rightarrow> (c # p) # ps | [] \<Rightarrow> [[c]])"

fun join_char :: "char \<Rightarrow> string list \<Rightarrow> string" where
  "join_char sep [] = []"
| "join_char sep [p] = p"
| "join_char sep (p # q # ps) = p @ sep # join_char sep (q # ps)"

lemma split_char_nonempty [simp]: "split_char sep s \<noteq> []"
  by (induction s) (auto split: list.split)

lemma split_char_free: "sep \<notin> set p \<Longrightarrow> split_char sep p = [p]"
  by (induction p) auto

lemma split_char_append: "sep \<notin> set p \<Longrightarrow> split_char sep (p @ sep # s) = p # split_char sep s"
  by (induction p) auto

lemma split_join: "ps \<noteq> [] \<Longrightarrow> \<forall>p \<in> set ps. sep \<notin> set p \<Longrightarrow> split_char sep (join_char sep ps) = ps"
  by (induction sep ps rule: join_char.induct) (auto simp: split_char_free split_char_append)

section \<open>The address parser\<close>

text \<open>
  A parser reads from the front of the text; failing leaves the text as it was, so that its result
  is an optional value with the rest.
\<close>

type_synonym 'a reader = "string \<Rightarrow> ('a \<times> string) option"

fun read_given_char :: "char \<Rightarrow> unit reader" where
  "read_given_char c [] = None"
| "read_given_char c (d # s) = (if c = d then Some ((), s) else None)"

definition read_separator :: "char \<Rightarrow> nat \<Rightarrow> 'a reader \<Rightarrow> 'a reader" where
  "read_separator sep index inner s =
     (if index > 0 then
        (case read_given_char sep s of None \<Rightarrow> None | Some (_, s') \<Rightarrow> inner s')
      else inner s)"

fun read_digits :: "nat \<Rightarrow> nat \<Rightarrow> nat \<Rightarrow> nat \<Rightarrow> nat \<Rightarrow> (nat \<times> nat) reader" where
  "read_digits radix mx maxd count acc [] = Some ((acc, count), [])"
| "read_digits radix mx maxd count acc (c # cs) =
     (case to_digit radix c of
        None \<Rightarrow> Some ((acc, count), c # cs)
      | Some d \<Rightarrow>
          if acc * radix > mx \<or> acc * radix + d > mx then None
          else if count + 1 > maxd then None
          else read_digits radix mx maxd (count + 1) (acc * radix + d) cs)"

definition read_number :: "nat \<Rightarrow> nat \<Rightarrow> nat \<Rightarrow> bool \<Rightarrow> nat reader" where
  "read_number radix mx maxd allow_zero_prefix s =
     (case read_digits radix mx maxd 0 0 s of
        None \<Rightarrow> None
      | Some ((n, count), rest) \<Rightarrow>
          if count = 0 then None
          else if \<not> allow_zero_prefix \<and> hd s = CHR ''0'' \<and> count > 1 then None
          else Some (n, rest))"

lemma read_digits_map:
  "2 \<le> b \<Longrightarrow> b \<le> 36 \<Longrightarrow> \<forall>d \<in> set ds. d < b \<Longrightarrow> value_of b acc ds \<le> mx \<Longrightarrow>
   count + length ds \<le> maxd \<Longrightarrow> rest = [] \<or> to_digit b (hd rest) = None \<Longrightarrow>
   read_digits b mx maxd count acc (map digit_char ds @ rest) =
     Some ((value_of b acc ds, count + length ds), rest)"
proof (induction ds arbitrary: acc count)
  case Nil
  then show ?case by (cases rest) auto
next
  case (Cons d ds)
  have "acc * b + d \<le> mx"
    using value_of_ge [of b "acc * b + d" ds] Cons.prems by simp
  then show ?case using Cons by simp
qed

lemma digit_char_0: "d < 36 \<Longrightarrow> digit_char d = CHR ''0'' \<Longrightarrow> d = 0"
proof -
  assume d: "d < 36" and "digit_char d = CHR ''0''"
  then have "to_digit 36 (CHR ''0'') = Some d" using to_digit_char [of d 36] by simp
  then show "d = 0" by (simp add: to_digit_def Let_def)
qed

lemma read_number_show:
  assumes "2 \<le> b" "b \<le> 36" "n \<le> mx" "n < b ^ k" "0 < k" "rest = [] \<or> to_digit b (hd rest) = None"
  shows "read_number b mx k z (show_radix b n @ rest) = Some (n, rest)"
proof -
  let ?ds = "digits_of b n"
  have "hd ?ds \<in> set ?ds" by simp
  then have small: "hd ?ds < 36" using digits_of_less [OF assms(1), of n] assms(2) by fastforce
  have "\<not> (hd (show_radix b n @ rest) = CHR ''0'' \<and> length ?ds > 1)"
  proof
    assume *: "hd (show_radix b n @ rest) = CHR ''0'' \<and> length ?ds > 1"
    then have "hd ?ds = 0" using small digit_char_0 by (simp add: show_radix_digits hd_map hd_append)
    then have "n = 0" using hd_digits_of assms(1) by blast
    then show False using * assms(1) by (simp add: digits_of.simps [of b 0])
  qed
  moreover have "read_digits b mx k 0 0 (map digit_char ?ds @ rest) = Some ((n, length ?ds), rest)"
    using assms read_digits_map [of b ?ds 0 mx 0 k rest] digits_of_less [of b n]
      length_digits_of [of b k n] by (simp add: value_of_digits)
  ultimately show ?thesis by (auto simp: read_number_def show_radix_digits)
qed

section \<open>IPv4 addresses\<close>

text \<open>Four decimal groups of at most three digits and without leading zeros.\<close>

definition read_ipv4_group :: "nat \<Rightarrow> nat reader" where
  "read_ipv4_group i = read_separator (CHR ''.'') i (read_number 10 255 3 False)"

definition ipv4_of_groups :: "nat \<Rightarrow> nat \<Rightarrow> nat \<Rightarrow> nat \<Rightarrow> Ipv4Addr" where
  "ipv4_of_groups a b c d =
     Ipv4Addr (u32_from_be_bytes (of_nat a) (of_nat b) (of_nat c) (of_nat d))"

definition read_ipv4_addr :: "Ipv4Addr reader" where
  "read_ipv4_addr s =
     (case read_ipv4_group 0 s of None \<Rightarrow> None | Some (a, s1) \<Rightarrow>
      (case read_ipv4_group 1 s1 of None \<Rightarrow> None | Some (b, s2) \<Rightarrow>
      (case read_ipv4_group 2 s2 of None \<Rightarrow> None | Some (c, s3) \<Rightarrow>
      (case read_ipv4_group 3 s3 of None \<Rightarrow> None | Some (d, s4) \<Rightarrow>
         Some (ipv4_of_groups a b c d, s4)))))"

datatype AddrParseError = AddrIpv4 | AddrIpv6

fun AddrParseError_fmt :: "AddrParseError \<Rightarrow> string" where
  "AddrParseError_fmt AddrIpv4 = ''invalid IPv4 address syntax''"
| "AddrParseError_fmt AddrIpv6 = ''invalid IPv6 address syntax''"

text \<open>The whole text has to be consumed; a text of more than 15 bytes is not even tried.\<close>

definition parse_with :: "'a reader \<Rightarrow> AddrParseError \<Rightarrow> string \<Rightarrow> AddrParseError + 'a" where
  "parse_with rd e s = (case rd s of Some (v, []) \<Rightarrow> Inr v | _ \<Rightarrow> Inl e)"

definition parse_ipv4 :: "string \<Rightarrow> AddrParseError + Ipv4Addr" where
  "parse_ipv4 s = (if length s > 15 then Inl AddrIpv4 else parse_with read_ipv4_addr AddrIpv4 s)"

definition show_ipv4 :: "Ipv4Addr \<Rightarrow> string" where
  "show_ipv4 a = join_char (CHR ''.'') (map (\<lambda>b. show_dec (unat b)) (ipv4_octets a))"

lemma length_show_dec_u8: "length (show_dec (unat (b :: u8))) \<le> 3"
  using length_digits_of [of 10 3 "unat b"] unat_u8_less [of b]
  by (simp add: show_dec_def show_radix_digits)

lemma dot_no_digit: "to_digit 10 (CHR ''.'') = None"
  by (simp add: to_digit_def Let_def)

lemma u8_bounds: "unat (b :: u8) \<le> 255" "unat (b :: u8) < 10 ^ 3"
  using unat_u8_less [of b] by (simp_all del: unat_u8_less)

lemma read_ipv4_group_show:
  assumes "rest = [] \<or> hd rest = CHR ''.''"
  shows "read_ipv4_group 0 (show_dec (unat (b :: u8)) @ rest) = Some (unat b, rest)"
    "0 < i \<Longrightarrow> read_ipv4_group i (CHR ''.'' # show_dec (unat b) @ rest) = Some (unat b, rest)"
proof -
  have "read_number 10 255 3 False (show_radix 10 (unat b) @ rest) = Some (unat b, rest)"
    using u8_bounds [of b] assms dot_no_digit by (intro read_number_show) auto
  then show "read_ipv4_group 0 (show_dec (unat b) @ rest) = Some (unat b, rest)"
    "0 < i \<Longrightarrow> read_ipv4_group i (CHR ''.'' # show_dec (unat b) @ rest) = Some (unat b, rest)"
    by (simp_all add: read_ipv4_group_def read_separator_def show_dec_def)
qed

lemma u32_from_octets:
  "u32_from_be_bytes (ucast (drop_bit 24 v)) (ucast (drop_bit 16 v)) (ucast (drop_bit 8 v))
     (ucast v) = (v :: u32)"
proof (rule bit_word_eqI)
  fix k
  assume k: "k < LENGTH(32)"
  consider "k < 8" | "8 \<le> k" "k < 16" | "16 \<le> k" "k < 24" | "24 \<le> k" by linarith
  then show "bit (u32_from_be_bytes (ucast (drop_bit 24 v)) (ucast (drop_bit 16 v))
     (ucast (drop_bit 8 v)) (ucast v)) k \<longleftrightarrow> bit v k"
    using k by cases (auto simp: u32_from_be_bytes_def bit_simps)
qed

lemma read_ipv4_show:
  assumes "rest = [] \<or> hd rest \<noteq> CHR ''.'' \<and> to_digit 10 (hd rest) = None"
  shows "read_ipv4_addr (show_ipv4 a @ rest) = Some (a, rest)"
proof -
  have last: "read_ipv4_group 3 (CHR ''.'' # show_dec (unat (b :: u8)) @ rest) = Some (unat b, rest)" for b
  proof -
    have "read_number 10 255 3 False (show_radix 10 (unat b) @ rest) = Some (unat b, rest)"
      using u8_bounds [of b] assms by (intro read_number_show) auto
    then show ?thesis by (simp add: read_ipv4_group_def read_separator_def show_dec_def)
  qed
  show ?thesis
    by (cases a) (simp add: read_ipv4_addr_def show_ipv4_def ipv4_octets_def read_ipv4_group_show last
        ipv4_of_groups_def u32_from_octets)
qed

lemma length_show_ipv4: "length (show_ipv4 a) \<le> 15"
  using length_show_dec_u8 [of "ipv4_octets a ! 0"] length_show_dec_u8 [of "ipv4_octets a ! 1"]
    length_show_dec_u8 [of "ipv4_octets a ! 2"] length_show_dec_u8 [of "ipv4_octets a ! 3"]
  by (simp add: show_ipv4_def ipv4_octets_def)

lemma parse_show_ipv4: "parse_ipv4 (show_ipv4 a) = Inr a"
  using read_ipv4_show [of "[]" a] length_show_ipv4 [of a] by (simp add: parse_ipv4_def parse_with_def)

section \<open>IPv6 addresses\<close>

text \<open>
  \<open>read_groups limit\<close>: up to \<open>limit\<close> hexadecimal groups, the last two of which may be written as an
  IPv4 address; the result also says whether they were.
\<close>

function read_groups :: "nat \<Rightarrow> nat \<Rightarrow> u16 list \<Rightarrow> string \<Rightarrow> (u16 list \<times> bool) \<times> string" where
  "read_groups limit i gs s =
     (if limit \<le> i then ((gs, False), s)
      else
        case (if i < limit - 1 then read_separator (CHR '':'') i read_ipv4_addr s else None) of
          Some (v4, s') \<Rightarrow>
            (let o' = ipv4_octets v4 in
             ((gs @ [u16_from_be_bytes (o' ! 0) (o' ! 1), u16_from_be_bytes (o' ! 2) (o' ! 3)], True), s'))
        | None \<Rightarrow>
            (case read_separator (CHR '':'') i (read_number 16 65535 4 True) s of
               Some (g, s') \<Rightarrow> read_groups limit (i + 1) (gs @ [of_nat g]) s'
             | None \<Rightarrow> ((gs, False), s)))"
  by pat_completeness auto
termination by (relation "measure (\<lambda>(limit, i, _). limit - i)") auto

definition ipv6_of_groups :: "u16 list \<Rightarrow> Ipv6Addr" where
  "ipv6_of_groups gs = Ipv6Addr (foldl (\<lambda>v g. push_bit 16 v OR ucast g) 0 gs)"

text \<open>The part up to a \<open>::\<close> (or all eight groups), then at most seven groups less those after it.\<close>

definition read_ipv6_addr :: "Ipv6Addr reader" where
  "read_ipv6_addr s =
     (case read_groups 8 0 [] s of ((head, head_ipv4), s1) \<Rightarrow>
        if length head = 8 then Some (ipv6_of_groups head, s1)
        else if head_ipv4 then None
        else case read_given_char (CHR '':'') s1 of None \<Rightarrow> None | Some (_, s2) \<Rightarrow>
          (case read_given_char (CHR '':'') s2 of None \<Rightarrow> None | Some (_, s3) \<Rightarrow>
             (case read_groups (8 - (length head + 1)) 0 [] s3 of ((tail, _), s4) \<Rightarrow>
                Some (ipv6_of_groups (head @ replicate (8 - length head - length tail) 0 @ tail), s4))))"

definition parse_ipv6 :: "string \<Rightarrow> AddrParseError + Ipv6Addr" where
  "parse_ipv6 s = parse_with read_ipv6_addr AddrIpv6 s"

text \<open>A text without a dot is not an IPv4 address.\<close>

lemma read_digits_rest:
  "read_digits b mx k n acc s = Some (v, rest) \<Longrightarrow> set rest \<subseteq> set s"
  by (induction b mx k n acc s rule: read_digits.induct) (auto split: option.splits if_splits)

lemma read_number_rest: "read_number b mx k z s = Some (v, rest) \<Longrightarrow> set rest \<subseteq> set s"
  unfolding read_number_def by (auto dest!: read_digits_rest split: option.splits if_splits)

lemma read_ipv4_dot: "read_ipv4_addr s = Some (v, rest) \<Longrightarrow> CHR ''.'' \<in> set s"
proof -
  assume "read_ipv4_addr s = Some (v, rest)"
  then obtain a s1 b s2 where "read_ipv4_group 0 s = Some (a, s1)" "read_ipv4_group 1 s1 = Some (b, s2)"
    by (auto simp: read_ipv4_addr_def split: option.splits)
  then have "set s1 \<subseteq> set s" "CHR ''.'' \<in> set s1"
    by (auto simp: read_ipv4_group_def read_separator_def read_number_rest split: option.splits if_splits
        elim!: read_given_char.elims)
  then show ?thesis by blast
qed

lemma no_dot_no_ipv4: "CHR ''.'' \<notin> set s \<Longrightarrow> read_ipv4_addr s = None"
  using read_ipv4_dot by (metis not_None_eq surj_pair)

lemma no_dot_parse_ipv4: "CHR ''.'' \<notin> set s \<Longrightarrow> parse_ipv4 s = Inl AddrIpv4"
  by (simp add: parse_ipv4_def parse_with_def no_dot_no_ipv4)

text \<open>Eight hexadecimal groups with colons between them.\<close>

definition ipv6_groups :: "Ipv6Addr \<Rightarrow> u16 list" where
  "ipv6_groups a = map (\<lambda>i. ucast (drop_bit (16 * (7 - i)) (u128_from_ipv6 a))) [0, 1, 2, 3, 4, 5, 6, 7]"

definition show_group :: "u16 \<Rightarrow> string" where
  "show_group g = show_radix 16 (unat g)"

definition ipv6_full_str :: "Ipv6Addr \<Rightarrow> string" where
  "ipv6_full_str a = join_char (CHR '':'') (map show_group (ipv6_groups a))"

lemma show_radix_chars: "2 \<le> b \<Longrightarrow> b \<le> 36 \<Longrightarrow> c \<in> set (show_radix b n) \<Longrightarrow> to_digit b c \<noteq> None"
  using digits_of_less [of b n] by (auto simp: show_radix_digits)

lemma separators_no_digit:
  "to_digit b (CHR '':'') = None" "to_digit b (CHR ''.'') = None"
  by (simp_all add: to_digit_def Let_def)

lemma show_group_no_separator: "CHR ''.'' \<notin> set (show_group g)" "CHR '':'' \<notin> set (show_group g)"
proof -
  have "c \<in> set (show_group g) \<Longrightarrow> to_digit 16 c \<noteq> None" for c
    unfolding show_group_def by (rule show_radix_chars [of 16]) simp_all
  then show "CHR ''.'' \<notin> set (show_group g)" "CHR '':'' \<notin> set (show_group g)"
    using separators_no_digit [of 16] by blast+
qed

lemma join_colons:
  "join_char c (p # ps) = p @ concat (map (\<lambda>q. c # q) ps)"
  by (induction ps arbitrary: p) auto

lemma read_number_group:
  "rest = [] \<or> hd rest = CHR '':'' \<Longrightarrow>
   read_number 16 65535 4 True (show_group g @ rest) = Some (unat g, rest)"
  unfolding show_group_def using unat_u16_less [of g] separators_no_digit
  by (intro read_number_show) (auto simp del: unat_u16_less)

lemma read_groups_colons:
  assumes "0 < i" "i + length ws = limit"
  shows "read_groups limit i gs (concat (map (\<lambda>g. CHR '':'' # show_group g) ws)) = ((gs @ ws, False), [])"
  using assms
proof (induction ws arbitrary: i gs)
  case Nil
  then show ?case by simp
next
  case (Cons w ws)
  let ?rest = "concat (map (\<lambda>g. CHR '':'' # show_group g) ws)"
  have rest: "?rest = [] \<or> hd ?rest = CHR '':''" by (cases ws) auto
  have "CHR ''.'' \<notin> set (show_group w @ ?rest)" using show_group_no_separator by auto
  then have "read_separator (CHR '':'') i read_ipv4_addr (CHR '':'' # show_group w @ ?rest) = None"
    using Cons.prems by (simp add: read_separator_def no_dot_no_ipv4)
  moreover have "read_separator (CHR '':'') i (read_number 16 65535 4 True) (CHR '':'' # show_group w @ ?rest)
      = Some (unat w, ?rest)"
    using Cons.prems read_number_group [OF rest] by (simp add: read_separator_def)
  moreover have "read_groups limit (i + 1) (gs @ [w]) ?rest = ((gs @ [w] @ ws, False), [])"
    using Cons.IH [of "i + 1" "gs @ [w]"] Cons.prems by simp
  ultimately show ?case
    using Cons.prems by (subst read_groups.simps) simp
qed

lemma push_group:
  "push_bit 16 (drop_bit (k + 16) v) OR ucast (ucast (drop_bit k v) :: u16) = drop_bit k (v :: u128)"
proof (rule bit_word_eqI)
  fix n
  assume "n < LENGTH(128)"
  then show "bit (push_bit 16 (drop_bit (k + 16) v) OR ucast (ucast (drop_bit k v) :: u16)) n
      \<longleftrightarrow> bit (drop_bit k v) n"
    by (cases "n < 16") (auto simp: bit_simps)
qed

lemma top_group: "ucast (ucast (drop_bit 112 v) :: u16) = drop_bit 112 (v :: u128)"
  by (rule bit_word_eqI) (auto simp: bit_simps dest: bit_imp_le_length)

lemma ipv6_of_groups_groups: "ipv6_of_groups (ipv6_groups a) = a"
  using push_group [of 96] push_group [of 80] push_group [of 64] push_group [of 48]
    push_group [of 32] push_group [of 16] push_group [of 0]
  by (cases a) (simp add: ipv6_of_groups_def ipv6_groups_def top_group)

lemma parse_ipv6_full: "parse_ipv6 (ipv6_full_str a) = Inr a"
proof -
  obtain w ws where ws: "ipv6_groups a = w # ws" "length ws = 7" by (simp add: ipv6_groups_def)
  let ?rest = "concat (map (\<lambda>g. CHR '':'' # show_group g) ws)"
  have s: "ipv6_full_str a = show_group w @ ?rest"
    by (simp add: ipv6_full_str_def ws join_colons comp_def)
  have rest: "?rest = [] \<or> hd ?rest = CHR '':''" by (cases ws) auto
  have "CHR ''.'' \<notin> set (show_group w @ ?rest)" using show_group_no_separator by auto
  then have "read_groups 8 0 [] (show_group w @ ?rest) = ((w # ws, False), [])"
    using read_groups_colons [of 1 ws 8 "[w]"] ws(2) read_number_group [OF rest]
    by (subst read_groups.simps) (simp add: read_separator_def no_dot_no_ipv4)
  then show ?thesis
    using ws ipv6_of_groups_groups [of a] by (simp add: parse_ipv6_def parse_with_def read_ipv6_addr_def s)
qed

lemma ipv6_full_no_ipv4: "parse_ipv4 (ipv6_full_str a) = Inl AddrIpv4"
proof -
  have "CHR ''.'' \<notin> set (ipv6_full_str a)"
    using show_group_no_separator by (auto simp: ipv6_full_str_def ipv6_groups_def)
  then show ?thesis by (rule no_dot_parse_ipv4)
qed

section \<open>Displaying IPv6 addresses\<close>

text \<open>
  \<open>Display\<close> of \<open>Ipv6Addr\<close>: an IPv4-mapped address in dotted form, otherwise the groups, with the
  first longest run of at least two zero groups written \<open>::\<close>.
\<close>

fun longest_zero_span :: "nat \<Rightarrow> nat \<times> nat \<Rightarrow> nat \<times> nat \<Rightarrow> u16 list \<Rightarrow> nat \<times> nat" where
  "longest_zero_span i current longest [] = longest"
| "longest_zero_span i (cs, cl) longest (g # gs) =
     (if g = 0 then
        (let current = (if cl = 0 then i else cs, cl + 1) in
         longest_zero_span (i + 1) current (if snd current > snd longest then current else longest) gs)
      else longest_zero_span (i + 1) (0, 0) longest gs)"

definition show_groups :: "u16 list \<Rightarrow> string" where
  "show_groups gs = join_char (CHR '':'') (map show_group gs)"

definition show_ipv6 :: "Ipv6Addr \<Rightarrow> string" where
  "show_ipv6 a =
     (let gs = ipv6_groups a in
      if take 6 gs = [0, 0, 0, 0, 0, 0xffff] then
        ''::ffff:'' @ show_ipv4 (Ipv4Addr (ucast (u128_from_ipv6 a)))
      else case longest_zero_span 0 (0, 0) (0, 0) gs of (start, len) \<Rightarrow>
        if len > 1 then show_groups (take start gs) @ ''::'' @ show_groups (drop (start + len) gs)
        else show_groups gs)"

fun show_ip :: "IpAddr \<Rightarrow> string" where
  "show_ip (IpV4 a) = show_ipv4 a"
| "show_ip (IpV6 a) = show_ipv6 a"

end
