(* ===== verification/Filter_Parser.thy ===== *)
theory Filter_Parser
  imports Filter_Ast Std_Text
begin

text \<open>
  \<^verbatim>\<open>crates/netdump-filter/src/lib.rs\<close>: from the parse tree to the filter expression. The tree comes
  from the parser that \<open>pest\<close> generates from \<^verbatim>\<open>filter.pest\<close>; that parser is the parameter
  \<open>pest_parse\<close> of \<open>parse\<close>, and a tree is a \<open>pair\<close>. The two ways to fail are a \<open>ParseError\<close> and the
  panic of an arithmetic overflow, which depends on the build: \<open>oc\<close> says whether overflow checks
  are compiled in (debug builds) or not (release builds, where the operation wraps).
\<close>

section \<open>Parse trees\<close>

datatype Rule =
    R_EOI | R_filter | R_expr | R_or_expr | R_and_expr | R_not_expr | R_primary | R_predicate
  | R_direction | R_proto | R_host | R_port | R_portrange | R_net | R_netmask | R_len_expr
  | R_relop | R_ether_host | R_ip | R_ipv4 | R_ipv6 | R_mac | R_number | R_or_op | R_and_op
  | R_not_op | R_WHITESPACE

fun Rule_debug :: "Rule \<Rightarrow> string" where
  "Rule_debug R_EOI = ''EOI''"
| "Rule_debug R_filter = ''filter''"
| "Rule_debug R_expr = ''expr''"
| "Rule_debug R_or_expr = ''or_expr''"
| "Rule_debug R_and_expr = ''and_expr''"
| "Rule_debug R_not_expr = ''not_expr''"
| "Rule_debug R_primary = ''primary''"
| "Rule_debug R_predicate = ''predicate''"
| "Rule_debug R_direction = ''direction''"
| "Rule_debug R_proto = ''proto''"
| "Rule_debug R_host = ''host''"
| "Rule_debug R_port = ''port''"
| "Rule_debug R_portrange = ''portrange''"
| "Rule_debug R_net = ''net''"
| "Rule_debug R_netmask = ''netmask''"
| "Rule_debug R_len_expr = ''len_expr''"
| "Rule_debug R_relop = ''relop''"
| "Rule_debug R_ether_host = ''ether_host''"
| "Rule_debug R_ip = ''ip''"
| "Rule_debug R_ipv4 = ''ipv4''"
| "Rule_debug R_ipv6 = ''ipv6''"
| "Rule_debug R_mac = ''mac''"
| "Rule_debug R_number = ''number''"
| "Rule_debug R_or_op = ''or_op''"
| "Rule_debug R_and_op = ''and_op''"
| "Rule_debug R_not_op = ''not_op''"
| "Rule_debug R_WHITESPACE = ''WHITESPACE''"

datatype pair = Pair (as_rule: Rule) (as_str: string) (into_inner: "pair list")

datatype failure = ParseError string | OverflowPanic

type_synonym 'a outcome = "failure + 'a"

text \<open>The next item of an iterator, or the given error.\<close>

fun first_or :: "string \<Rightarrow> pair list \<Rightarrow> (pair \<times> pair list) outcome" where
  "first_or e [] = Inl (ParseError e)"
| "first_or e (p # ps) = Inr (p, ps)"

section \<open>Leaves\<close>

definition parse_direction :: "string \<Rightarrow> Direction outcome" where
  "parse_direction s =
     (if eq_ignore_ascii_case s ''src'' then Inr Src
      else if eq_ignore_ascii_case s ''dst'' then Inr Dst
      else Inl (ParseError (''invalid direction: '' @ s)))"

definition parse_proto :: "string \<Rightarrow> FilterAst outcome" where
  "parse_proto s =
     (if eq_ignore_ascii_case s ''ip'' then Inr (Proto Ip)
      else if eq_ignore_ascii_case s ''ip6'' then Inr (Proto Ip6)
      else if eq_ignore_ascii_case s ''tcp'' then Inr (Proto Tcp)
      else if eq_ignore_ascii_case s ''udp'' then Inr (Proto Udp)
      else if eq_ignore_ascii_case s ''icmp'' then Inr (Proto Icmp)
      else if eq_ignore_ascii_case s ''icmp6'' then Inr (Proto Icmp6)
      else if eq_ignore_ascii_case s ''arp'' then Inr (Proto Arp)
      else if eq_ignore_ascii_case s ''rarp'' then Inr (Proto Rarp)
      else Inl (ParseError (''invalid protocol: '' @ s)))"

definition parse_host_addr :: "string \<Rightarrow> HostAddr outcome" where
  "parse_host_addr s =
     (case parse_ipv4 s of
        Inr v4 \<Rightarrow> Inr (HostV4 v4)
      | Inl _ \<Rightarrow>
          (case parse_ipv6 s of
             Inr v6 \<Rightarrow> Inr (HostV6 v6)
           | Inl _ \<Rightarrow> Inl (ParseError (''invalid IP address: '' @ s))))"

definition parse_number :: "pair \<Rightarrow> u16 outcome" where
  "parse_number p =
     map_err (\<lambda>e. ParseError (''invalid number: '' @ ParseIntError_fmt e)) (parse_u16 (as_str p))"

definition parse_number_u32 :: "pair \<Rightarrow> u32 outcome" where
  "parse_number_u32 p =
     map_err (\<lambda>e. ParseError (''invalid number: '' @ ParseIntError_fmt e)) (parse_u32 (as_str p))"

definition parse_relop :: "string \<Rightarrow> RelOp outcome" where
  "parse_relop s =
     (if s = ''='' \<or> s = ''=='' then Inr Eq
      else if s = ''!='' then Inr Ne
      else if s = ''>'' then Inr Gt
      else if s = ''>='' then Inr Ge
      else if s = ''<'' then Inr Lt
      else if s = ''<='' then Inr Le
      else Inl (ParseError (''invalid relational operator: '' @ s)))"

fun parse_mac_loop :: "nat \<Rightarrow> string list \<Rightarrow> u8 list \<Rightarrow> (u8 list) outcome" where
  "parse_mac_loop i [] octets = Inr octets"
| "parse_mac_loop i (part # parts) octets =
     (if i \<ge> 6 then Inl (ParseError ''MAC address exceeds 6 bytes'')
      else and_then
        (map_err (\<lambda>e. ParseError (''invalid MAC: '' @ ParseIntError_fmt e)) (u8_from_hex part))
        (\<lambda>b. parse_mac_loop (i + 1) parts (octets[i := b])))"

definition parse_mac :: "string \<Rightarrow> (u8 list) outcome" where
  "parse_mac s = parse_mac_loop 0 (split_char (CHR '':'') s) (replicate 6 0)"

section \<open>Networks\<close>

datatype NetMask = Prefix u8 | MaskV4 Ipv4Addr | MaskV6 Ipv6Addr

fun default_netmask :: "HostAddr \<Rightarrow> NetMask" where
  "default_netmask (HostV4 addr) =
     (let first = ipv4_octets addr ! 0 in
      if first < 128 then Prefix 8
      else if first < 192 then Prefix 16
      else if first < 224 then Prefix 24
      else Prefix 32)"
| "default_netmask (HostV6 addr) = Prefix 128"

definition parse_netmask :: "pair \<Rightarrow> HostAddr \<Rightarrow> NetMask outcome" where
  "parse_netmask pair host =
     and_then (first_or ''netmask is empty'' (into_inner pair)) (\<lambda>(value, _).
       if as_rule value = R_ip then
         (case host of
            HostV4 _ \<Rightarrow> and_then
              (map_err (\<lambda>e. ParseError (''invalid IPv4 mask: '' @ AddrParseError_fmt e))
                 (parse_ipv4 (as_str value)))
              (\<lambda>mask. Inr (MaskV4 mask))
          | HostV6 _ \<Rightarrow> and_then
              (map_err (\<lambda>e. ParseError (''invalid IPv6 mask: '' @ AddrParseError_fmt e))
                 (parse_ipv6 (as_str value)))
              (\<lambda>mask. Inr (MaskV6 mask)))
       else if as_rule value = R_number then
         and_then
           (map_err (\<lambda>e. ParseError (''invalid prefix length: '' @ ParseIntError_fmt e))
              (parse_u8 (as_str value)))
           (\<lambda>prefix.
              case host of
                HostV4 _ \<Rightarrow>
                  if prefix > 32 then Inl (ParseError ''IPv4 prefix length must be <= 32'')
                  else Inr (Prefix prefix)
              | HostV6 _ \<Rightarrow>
                  if prefix > 128 then Inl (ParseError ''IPv6 prefix length must be <= 128'')
                  else Inr (Prefix prefix))
       else Inl (ParseError (''unexpected netmask rule: '' @ Rule_debug (as_rule value))))"

text \<open>
  \<open>-\<close> and \<open><<\<close>: with overflow checks a negative difference and a shift by the width or more panic;
  without them the difference wraps and the shift amount is taken modulo the width.
\<close>

definition sub_u8 :: "bool \<Rightarrow> u8 \<Rightarrow> u8 \<Rightarrow> u8 outcome" where
  "sub_u8 oc a b = (if oc \<and> a < b then Inl OverflowPanic else Inr (a - b))"

definition shl :: "bool \<Rightarrow> 'a::len word \<Rightarrow> u8 \<Rightarrow> ('a word) outcome" where
  "shl oc v n =
     (if oc \<and> unat n \<ge> LENGTH('a) then Inl OverflowPanic
      else Inr (push_bit (unat n mod LENGTH('a)) v))"

definition combine_net :: "bool \<Rightarrow> HostAddr \<Rightarrow> NetMask \<Rightarrow> NetAddr outcome" where
  "combine_net oc host netmask =
     (case (host, netmask) of
        (HostV4 addr, Prefix p) \<Rightarrow>
          and_then (sub_u8 oc 32 p) (\<lambda>n. and_then (shl oc (- 1 :: u32) n) (\<lambda>m.
            Inr (NetV4 addr (Ipv4Addr m))))
      | (HostV4 addr, MaskV4 m) \<Rightarrow> Inr (NetV4 addr m)
      | (HostV6 addr, Prefix p) \<Rightarrow>
          and_then (sub_u8 oc 128 p) (\<lambda>n. and_then (shl oc (- 1 :: u128) n) (\<lambda>m.
            Inr (NetV6 addr (Ipv6Addr m))))
      | (HostV6 addr, MaskV6 m) \<Rightarrow> Inr (NetV6 addr m)
      | _ \<Rightarrow> Inl (ParseError ''IP address and mask version mismatch''))"

definition parse_net :: "bool \<Rightarrow> pair \<Rightarrow> NetAddr outcome" where
  "parse_net oc pair =
     and_then (first_or ''net missing IP'' (into_inner pair)) (\<lambda>(ip_pair, rest).
     and_then (parse_host_addr (as_str ip_pair)) (\<lambda>host.
     and_then (case rest of mask_pair # _ \<Rightarrow> parse_netmask mask_pair host
                          | [] \<Rightarrow> Inr (default_netmask host)) (\<lambda>mask.
     combine_net oc host mask)))"

section \<open>Predicates\<close>

definition build_port :: "pair \<Rightarrow> Direction \<Rightarrow> FilterAst outcome" where
  "build_port kind dir =
     and_then (first_or ''port missing number'' (into_inner kind)) (\<lambda>(num_pair, _).
     and_then (map_err (\<lambda>e. ParseError (''invalid port: '' @ ParseIntError_fmt e))
                 (parse_u16 (as_str num_pair))) (\<lambda>port.
     Inr (Port port dir)))"

definition build_portrange :: "pair \<Rightarrow> Direction \<Rightarrow> FilterAst outcome" where
  "build_portrange kind dir =
     and_then (first_or ''portrange missing start port'' (into_inner kind)) (\<lambda>(p, rest).
     and_then (parse_number p) (\<lambda>start.
     and_then (first_or ''portrange missing end port'' rest) (\<lambda>(q, _).
     and_then (parse_number q) (\<lambda>end'.
       if start > end' then
         Inl (ParseError ''portrange start port is greater than end port'')
       else Inr (PortRange start end' dir)))))"

definition keyword_expr :: "string \<Rightarrow> string \<Rightarrow> bool" where
  "keyword_expr text kw \<longleftrightarrow>
     eq_ignore_ascii_case text kw \<or> starts_with (to_ascii_lowercase text) (kw @ '' '')"

definition build_len :: "pair \<Rightarrow> FilterAst outcome" where
  "build_len kind =
     (let text = as_str kind; inner = into_inner kind in
      if keyword_expr text ''greater'' then
        and_then (first_or ''greater missing value'' inner) (\<lambda>(p, _).
        and_then (parse_number_u32 p) (\<lambda>len. Inr (Len Gt len)))
      else if keyword_expr text ''less'' then
        and_then (first_or ''less missing value'' inner) (\<lambda>(p, _).
        and_then (parse_number_u32 p) (\<lambda>len. Inr (Len Lt len)))
      else
        and_then (first_or ''len missing relational operator'' inner) (\<lambda>(relop_pair, rest).
        and_then (parse_relop (as_str relop_pair)) (\<lambda>op'.
        and_then (first_or ''len missing value'' rest) (\<lambda>(p, _).
        and_then (parse_number_u32 p) (\<lambda>len. Inr (Len op' len))))))"

definition build_ether_host :: "pair \<Rightarrow> FilterAst outcome" where
  "build_ether_host kind =
     and_then (first_or ''ether host is empty'' (into_inner kind)) (\<lambda>(first, rest).
     and_then
       (if as_rule first = R_direction then
          and_then (parse_direction (as_str first)) (\<lambda>dir.
          and_then (first_or ''ether host missing MAC'' rest) (\<lambda>(mac, _). Inr (dir, mac)))
        else Inr (Any, first))
       (\<lambda>(dir, mac_pair). and_then (parse_mac (as_str mac_pair)) (\<lambda>addr. Inr (EtherHost addr dir))))"

definition build_kind :: "bool \<Rightarrow> Direction \<Rightarrow> pair \<Rightarrow> FilterAst outcome" where
  "build_kind oc dir kind =
     (case as_rule kind of
        R_proto \<Rightarrow> parse_proto (as_str kind)
      | R_host \<Rightarrow>
          and_then (first_or ''host missing address'' (into_inner kind)) (\<lambda>(ip_pair, _).
          and_then (parse_host_addr (as_str ip_pair)) (\<lambda>addr. Inr (Host addr dir)))
      | R_port \<Rightarrow> build_port kind dir
      | R_portrange \<Rightarrow> build_portrange kind dir
      | R_net \<Rightarrow> and_then (parse_net oc kind) (\<lambda>net. Inr (Net net dir))
      | R_len_expr \<Rightarrow> build_len kind
      | R_ether_host \<Rightarrow> build_ether_host kind
      | r \<Rightarrow> Inl (ParseError (''unexpected predicate type: '' @ Rule_debug r)))"

definition build_predicate :: "bool \<Rightarrow> pair \<Rightarrow> FilterAst outcome" where
  "build_predicate oc pair =
     and_then (first_or ''empty predicate'' (into_inner pair)) (\<lambda>(first, rest).
     and_then
       (if as_rule first = R_direction then
          and_then (parse_direction (as_str first)) (\<lambda>dir.
          and_then (first_or ''predicate missing qualifier'' rest) (\<lambda>(kind, _). Inr (dir, kind)))
        else Inr (Any, first))
       (\<lambda>(dir, kind). build_kind oc dir kind))"

section \<open>Expressions\<close>

text \<open>
  The \<open>while\<close> loops over the operands are \<open>build_or_loop\<close> and \<open>build_and_loop\<close>, with the tree built so
  far and the pairs not yet consumed.
\<close>

fun build_expr :: "bool \<Rightarrow> pair \<Rightarrow> FilterAst outcome"
  and build_or :: "bool \<Rightarrow> pair \<Rightarrow> FilterAst outcome"
  and build_or_loop :: "bool \<Rightarrow> FilterAst \<Rightarrow> pair list \<Rightarrow> FilterAst outcome"
  and build_and :: "bool \<Rightarrow> pair \<Rightarrow> FilterAst outcome"
  and build_and_loop :: "bool \<Rightarrow> FilterAst \<Rightarrow> pair list \<Rightarrow> FilterAst outcome"
  and build_not :: "bool \<Rightarrow> pair \<Rightarrow> FilterAst outcome"
  and build_primary :: "bool \<Rightarrow> pair \<Rightarrow> FilterAst outcome"
where
  "build_expr oc (Pair r s inner) =
     (case inner of
        [] \<Rightarrow> Inl (ParseError ''empty expression'')
      | or_expr # _ \<Rightarrow> build_or oc or_expr)"
| "build_or oc (Pair r s inner) =
     (case inner of
        [] \<Rightarrow> Inl (ParseError ''empty operand in OR expression'')
      | p # ps \<Rightarrow> and_then (build_and oc p) (\<lambda>left. build_or_loop oc left ps))"
| "build_or_loop oc left [] = Inr left"
| "build_or_loop oc left (op' # ps) =
     (if as_rule op' = R_or_op then
        (case ps of
           [] \<Rightarrow> Inl (ParseError ''missing right operand in OR'')
         | p # ps' \<Rightarrow> and_then (build_and oc p) (\<lambda>right. build_or_loop oc (Or left right) ps'))
      else Inr left)"
| "build_and oc (Pair r s inner) =
     (case inner of
        [] \<Rightarrow> Inl (ParseError ''empty operand in AND expression'')
      | p # ps \<Rightarrow> and_then (build_not oc p) (\<lambda>left. build_and_loop oc left ps))"
| "build_and_loop oc left [] = Inr left"
| "build_and_loop oc left (p # ps) =
     (if as_rule p = R_and_op then
        (case ps of
           [] \<Rightarrow> Inl (ParseError ''missing right operand in AND'')
         | q # ps' \<Rightarrow> and_then (build_not oc q) (\<lambda>right. build_and_loop oc (And left right) ps'))
      else and_then (build_not oc p) (\<lambda>right. build_and_loop oc (And left right) ps))"
| "build_not oc (Pair r s inner) =
     (case inner of
        [] \<Rightarrow> Inl (ParseError ''empty expression'')
      | p # ps \<Rightarrow>
          if as_rule p = R_not_op then
            (case ps of
               [] \<Rightarrow> Inl (ParseError (''expression expected after '' @ [CHR 0x27] @ ''not'' @ [CHR 0x27]))
             | primary # _ \<Rightarrow> and_then (build_primary oc primary) (\<lambda>e. Inr (Not' e)))
          else build_primary oc p)"
| "build_primary oc (Pair r s inner) =
     (case inner of
        [] \<Rightarrow> Inl (ParseError ''empty primary expression'')
      | child # _ \<Rightarrow>
          if as_rule child = R_predicate then build_predicate oc child
          else if as_rule child = R_expr then build_expr oc child
          else Inl (ParseError (''unexpected rule: '' @ Rule_debug (as_rule child))))"

definition parse :: "(string \<Rightarrow> string + pair list) \<Rightarrow> bool \<Rightarrow> string \<Rightarrow> FilterAst outcome" where
  "parse pest_parse oc input =
     and_then (map_err ParseError (pest_parse input)) (\<lambda>pairs.
     and_then (first_or ''no filter expression found'' pairs) (\<lambda>(filter', _).
       (case find (\<lambda>p. as_rule p = R_expr) (into_inner filter') of
          Some p \<Rightarrow> build_expr oc p
        | None \<Rightarrow> Inl (ParseError ''no filter expression found''))))"

end
