(* ===== verification/Pest.thy ===== *)
theory Pest
  imports Filter_Parser
begin

text \<open>
  Parsing expression grammars as \<^verbatim>\<open>pest\<close> documents them: ordered choice without going back, greedy
  repetition, white space skipped between the parts of a sequence and of a repetition except inside
  atomic rules, and a tree with a node for every rule that is not silent and not inside an atomic one.
  The grammar of the repository, \<^verbatim>\<open>filter.pest\<close>, is in the theory that follows.
\<close>

section \<open>Expressions and grammars\<close>

datatype pexp =
    Lit string
  | Insens string
  | Digit
  | HexDigit
  | Ref Rule
  | Seq pexp pexp
  | Alt pexp pexp
  | Opt pexp
  | Rep pexp
  | Soi
  | Eoi

datatype rule_kind = Normal | Atomic

record grammar =
  rule_of :: "Rule \<Rightarrow> rule_kind \<times> pexp"
  is_blank :: "char \<Rightarrow> bool"

definition rule_body :: "grammar \<Rightarrow> Rule \<Rightarrow> pexp" where
  "rule_body g r = snd (rule_of g r)"

definition is_atomic :: "grammar \<Rightarrow> Rule \<Rightarrow> bool" where
  "is_atomic g r \<longleftrightarrow> fst (rule_of g r) = Atomic"

fun alts :: "pexp list \<Rightarrow> pexp" where
  "alts [e] = e"
| "alts (e # es) = Alt e (alts es)"
| "alts [] = Lit []"

fun seqs :: "pexp list \<Rightarrow> pexp" where
  "seqs [e] = e"
| "seqs (e # es) = Seq e (seqs es)"
| "seqs [] = Lit []"

text \<open>\<open>e+\<close>, as it is generated.\<close>

definition Plus :: "pexp \<Rightarrow> pexp" where
  "Plus e = Seq e (Rep e)"

section \<open>The parser\<close>

datatype peg_result = OutOfFuel | NoMatch | Match "pair list" string

fun and_match :: "peg_result \<Rightarrow> (string \<Rightarrow> peg_result) \<Rightarrow> peg_result" where
  "and_match (Match ps s) f = (case f s of Match qs t \<Rightarrow> Match (ps @ qs) t | r \<Rightarrow> r)"
| "and_match r f = r"

lemma and_match_cong [fundef_cong]:
  "r = r' \<Longrightarrow> (\<And>ps s. r' = Match ps s \<Longrightarrow> f s = f' s) \<Longrightarrow> and_match r f = and_match r' f'"
  by (cases r') auto

fun take_char :: "(char \<Rightarrow> bool) \<Rightarrow> string \<Rightarrow> peg_result" where
  "take_char P [] = NoMatch"
| "take_char P (c # s) = (if P c then Match [] s else NoMatch)"

definition skip :: "grammar \<Rightarrow> bool \<Rightarrow> string \<Rightarrow> string" where
  "skip g a s = (if a then s else dropWhile (is_blank g) s)"

text \<open>
  \<open>n\<close> bounds the nesting of rules, \<open>a\<close> says whether an atomic rule is being matched; \<open>size\<close> is the length
  of the whole input. \<open>peg_more\<close> is the rest of a repetition, after its first round; a round that
  consumes nothing would go on for ever.
\<close>

function (sequential)
  peg :: "grammar \<Rightarrow> nat \<Rightarrow> nat \<Rightarrow> bool \<Rightarrow> pexp \<Rightarrow> string \<Rightarrow> peg_result"
  and peg_more :: "grammar \<Rightarrow> nat \<Rightarrow> nat \<Rightarrow> bool \<Rightarrow> pexp \<Rightarrow> string \<Rightarrow> peg_result"
where
  "peg g len n a (Lit w) s = (if starts_with s w then Match [] (drop (length w) s) else NoMatch)"
| "peg g len n a (Insens w) s =
     (if length w \<le> length s \<and> eq_ignore_ascii_case (take (length w) s) w
      then Match [] (drop (length w) s) else NoMatch)"
| "peg g len n a Digit s = take_char (\<lambda>c. to_digit 10 c \<noteq> None) s"
| "peg g len n a HexDigit s = take_char (\<lambda>c. to_digit 16 c \<noteq> None) s"
| "peg g len n a Soi s = (if length s = len then Match [] s else NoMatch)"
| "peg g len n a Eoi s = (if s = [] then Match [] [] else NoMatch)"
| "peg g len n a (Seq e1 e2) s = and_match (peg g len n a e1 s) (\<lambda>s1. peg g len n a e2 (skip g a s1))"
| "peg g len n a (Alt e1 e2) s = (case peg g len n a e1 s of NoMatch \<Rightarrow> peg g len n a e2 s | r \<Rightarrow> r)"
| "peg g len n a (Opt e) s = (case peg g len n a e s of NoMatch \<Rightarrow> Match [] s | r \<Rightarrow> r)"
| "peg g len n a (Rep e) s =
     (case peg g len n a e s of
        NoMatch \<Rightarrow> Match [] s
      | Match ps t \<Rightarrow> and_match (Match ps t) (peg_more g len n a e)
      | OutOfFuel \<Rightarrow> OutOfFuel)"
| "peg g len 0 a (Ref r) s = OutOfFuel"
| "peg g len (Suc n) a (Ref r) s =
     (case peg g len n (a \<or> is_atomic g r) (rule_body g r) s of
        Match ps t \<Rightarrow> Match (if a then [] else [Pair r (take (length s - length t) s) ps]) t
      | r \<Rightarrow> r)"
| "peg_more g len n a e s =
     (case peg g len n a e (skip g a s) of
        NoMatch \<Rightarrow> Match [] s
      | Match ps t \<Rightarrow>
          if length t < length s then and_match (Match ps t) (peg_more g len n a e) else OutOfFuel
      | OutOfFuel \<Rightarrow> OutOfFuel)"
  by pat_completeness auto

termination
  by (relation "measures
      [case_sum (\<lambda>(g, len, n, a, e, s). n) (\<lambda>(g, len, n, a, e, s). n),
       case_sum (\<lambda>(g, len, n, a, e, s). 2 * size e) (\<lambda>(g, len, n, a, e, s). 2 * size e + 1),
       case_sum (\<lambda>(g, len, n, a, e, s). length s) (\<lambda>(g, len, n, a, e, s). length s)]") auto

declare peg_more.simps [simp del]

definition pest_run :: "grammar \<Rightarrow> Rule \<Rightarrow> nat \<Rightarrow> string \<Rightarrow> peg_result" where
  "pest_run g start n input = peg g (length input) n False (Ref start) input"

section \<open>What a match means\<close>

text \<open>
  \<open>derives g a e s ps\<close>: the text \<open>s\<close> is one of those \<open>e\<close> describes, with the nodes \<open>ps\<close>. It says nothing
  about priorities.
\<close>

definition blanks :: "grammar \<Rightarrow> bool \<Rightarrow> string \<Rightarrow> bool" where
  "blanks g a w \<longleftrightarrow> (if a then w = [] else list_all (is_blank g) w)"

inductive derives :: "grammar \<Rightarrow> bool \<Rightarrow> pexp \<Rightarrow> string \<Rightarrow> pair list \<Rightarrow> bool" for g where
  d_Lit: "derives g a (Lit w) w []"
| d_Insens: "eq_ignore_ascii_case s w \<Longrightarrow> derives g a (Insens w) s []"
| d_Digit: "to_digit 10 c \<noteq> None \<Longrightarrow> derives g a Digit [c] []"
| d_HexDigit: "to_digit 16 c \<noteq> None \<Longrightarrow> derives g a HexDigit [c] []"
| d_Soi: "derives g a Soi [] []"
| d_Eoi: "derives g a Eoi [] []"
| d_Seq: "derives g a e1 s ps \<Longrightarrow> blanks g a w \<Longrightarrow> derives g a e2 t qs \<Longrightarrow>
    derives g a (Seq e1 e2) (s @ w @ t) (ps @ qs)"
| d_Alt1: "derives g a e1 s ps \<Longrightarrow> derives g a (Alt e1 e2) s ps"
| d_Alt2: "derives g a e2 s ps \<Longrightarrow> derives g a (Alt e1 e2) s ps"
| d_None: "derives g a (Opt e) [] []"
| d_Some: "derives g a e s ps \<Longrightarrow> derives g a (Opt e) s ps"
| d_Stop: "derives g a (Rep e) [] []"
| d_Once: "derives g a e s ps \<Longrightarrow> derives g a (Rep e) s ps"
| d_More: "derives g a e s ps \<Longrightarrow> blanks g a w \<Longrightarrow> derives g a (Rep e) t qs \<Longrightarrow>
    derives g a (Rep e) (s @ w @ t) (ps @ qs)"
| d_Ref: "derives g (a \<or> is_atomic g r) (rule_body g r) s ps \<Longrightarrow>
    qs = (if a then [] else [Pair r s ps]) \<Longrightarrow> derives g a (Ref r) s qs"

inductive_simps derives_simps:
  "derives g a (Lit w) s ps" "derives g a (Insens w) s ps" "derives g a Digit s ps" "derives g a HexDigit s ps"
  "derives g a Soi s ps" "derives g a Eoi s ps" "derives g a (Seq e1 e2) s ps" "derives g a (Alt e1 e2) s ps"
  "derives g a (Opt e) s ps" "derives g a (Ref r) s ps"

lemma skip_split: "\<exists>w. s = w @ skip g a s \<and> blanks g a w"
proof (cases a)
  case False
  then show ?thesis
    by (intro exI [of _ "takeWhile (is_blank g) s"])
      (auto simp: skip_def blanks_def list_all_iff dest: set_takeWhileD)
qed (simp add: skip_def blanks_def)

lemma starts_with_iff: "starts_with s w \<longleftrightarrow> (\<exists>t. s = w @ t)"
  by (induction s w rule: starts_with.induct) auto

lemma and_match_Match:
  "and_match r f = Match ps t \<longleftrightarrow> (\<exists>qs s rs. r = Match qs s \<and> f s = Match rs t \<and> ps = qs @ rs)"
  by (cases r) (auto split: peg_result.splits)

lemma take_char_fuel [simp]: "take_char P s \<noteq> OutOfFuel"
  by (cases s) auto

lemma take_char_Match: "take_char P s = Match ps t \<longleftrightarrow> (\<exists>c. s = c # t \<and> P c \<and> ps = [])"
  by (cases s) auto

text \<open>A repetition after its first round: over, or going on after some blanks.\<close>

definition more_derives :: "grammar \<Rightarrow> bool \<Rightarrow> pexp \<Rightarrow> string \<Rightarrow> pair list \<Rightarrow> string \<Rightarrow> bool" where
  "more_derives g a e s ps t \<longleftrightarrow>
     ps = [] \<and> t = s \<or> (\<exists>w u. s = w @ u @ t \<and> blanks g a w \<and> derives g a (Rep e) u ps)"

lemma derives_rounds:
  assumes "derives g a e u ps" "more_derives g a e s qs t"
  shows "\<exists>v. u @ s = v @ t \<and> derives g a (Rep e) v (ps @ qs)"
  using assms by (auto simp: more_derives_def intro: d_Once)
    (metis append.assoc d_More)

lemma peg_sound:
  "peg g len n a e s = Match ps t \<Longrightarrow> \<exists>u. s = u @ t \<and> derives g a e u ps"
  "peg_more g len n a e s = Match ps t \<Longrightarrow> more_derives g a e s ps t"
proof (induction g len n a e s and g len n a e s arbitrary: ps t and ps t rule: peg_peg_more.induct)
  case (2 g len n a w s)
  then show ?case
    by (intro exI [of _ "take (length w) s"]) (auto simp: derives_simps split: if_splits)
next
  case (7 g len n a e1 e2 s)
  then obtain ps1 s1 ps2 where m: "peg g len n a e1 s = Match ps1 s1" "peg g len n a e2 (skip g a s1) = Match ps2 t"
    "ps = ps1 @ ps2" by (auto simp: and_match_Match)
  from "7.IH"(1) [OF m(1)] "7.IH"(2) [OF m(1,2)] m(3) skip_split [of s1 g a]
  show ?case by (metis append.assoc d_Seq)
next
  case (10 g len n a e s)
  show ?case
  proof (cases "peg g len n a e s")
    case (Match ps1 s1)
    then obtain ps2 where m: "peg_more g len n a e s1 = Match ps2 t" "ps = ps1 @ ps2"
      using "10.prems" by (auto split: peg_result.splits)
    from "10.IH"(1) [OF Match] obtain u where u: "s = u @ s1" "derives g a e u ps1" by blast
    from derives_rounds [OF u(2) "10.IH"(2) [OF Match refl m(1)]] u(1) m(2) Match show ?thesis by auto
  qed (use "10.prems" in \<open>auto intro: d_Stop\<close>)
next
  case (12 g len n a r s)
  then obtain ps1 where m: "peg g len n (a \<or> is_atomic g r) (rule_body g r) s = Match ps1 t"
    "ps = (if a then [] else [Pair r (take (length s - length t) s) ps1])"
    by (auto split: peg_result.splits)
  from "12.IH" [OF m(1)] obtain u where u: "s = u @ t" "derives g (a \<or> is_atomic g r) (rule_body g r) u ps1" by blast
  then have "take (length s - length t) s = u" by simp
  with u m(2) show ?case by (auto intro!: d_Ref)
next
  case (13 g len n a e s)
  show ?case
  proof (cases "peg g len n a e (skip g a s)")
    case (Match ps1 s1)
    then obtain ps2 where m: "length s1 < length s" "peg_more g len n a e s1 = Match ps2 t" "ps = ps1 @ ps2"
      using "13.prems" by (auto simp: peg_more.simps [of g len n a e s] split: if_splits peg_result.splits)
    from "13.IH"(1) [OF Match] obtain u where u: "skip g a s = u @ s1" "derives g a e u ps1" by blast
    from derives_rounds [OF u(2) "13.IH"(2) [OF Match m(1) _ m(2)]] u(1) m(3) skip_split [of s g a]
    show ?thesis by (auto simp: more_derives_def)
  qed (use "13.prems" in \<open>auto simp: peg_more.simps [of g len n a e s] more_derives_def\<close>)
qed (auto simp: starts_with_iff take_char_Match derives_simps split: if_splits peg_result.splits
    intro: derives.intros)

section \<open>Termination\<close>

text \<open>
  A grammar is well-founded when no rule reaches itself without consuming anything, and no repetition
  repeats the empty text. \<open>T\<close> lists rules that consume; \<open>rk\<close> numbers the rules below \<open>K\<close>, so that a rule
  reached before anything is consumed has a smaller number.
\<close>

fun consumes :: "(Rule \<Rightarrow> bool) \<Rightarrow> pexp \<Rightarrow> bool" where
  "consumes T (Lit w) \<longleftrightarrow> w \<noteq> []"
| "consumes T (Insens w) \<longleftrightarrow> w \<noteq> []"
| "consumes T Digit \<longleftrightarrow> True"
| "consumes T HexDigit \<longleftrightarrow> True"
| "consumes T (Ref r) \<longleftrightarrow> T r"
| "consumes T (Seq e1 e2) \<longleftrightarrow> consumes T e1 \<or> consumes T e2"
| "consumes T (Alt e1 e2) \<longleftrightarrow> consumes T e1 \<and> consumes T e2"
| "consumes T _ \<longleftrightarrow> False"

fun left_ok :: "(Rule \<Rightarrow> bool) \<Rightarrow> (Rule \<Rightarrow> nat) \<Rightarrow> nat \<Rightarrow> pexp \<Rightarrow> bool" where
  "left_ok T rk k (Ref r) \<longleftrightarrow> rk r < k"
| "left_ok T rk k (Seq e1 e2) \<longleftrightarrow> left_ok T rk k e1 \<and> (consumes T e1 \<or> left_ok T rk k e2)"
| "left_ok T rk k (Alt e1 e2) \<longleftrightarrow> left_ok T rk k e1 \<and> left_ok T rk k e2"
| "left_ok T rk k (Opt e) \<longleftrightarrow> left_ok T rk k e"
| "left_ok T rk k (Rep e) \<longleftrightarrow> left_ok T rk k e"
| "left_ok T rk k _ \<longleftrightarrow> True"

fun reps_ok :: "(Rule \<Rightarrow> bool) \<Rightarrow> pexp \<Rightarrow> bool" where
  "reps_ok T (Seq e1 e2) \<longleftrightarrow> reps_ok T e1 \<and> reps_ok T e2"
| "reps_ok T (Alt e1 e2) \<longleftrightarrow> reps_ok T e1 \<and> reps_ok T e2"
| "reps_ok T (Opt e) \<longleftrightarrow> reps_ok T e"
| "reps_ok T (Rep e) \<longleftrightarrow> reps_ok T e \<and> consumes T e"
| "reps_ok T _ \<longleftrightarrow> True"

definition grammar_ok :: "grammar \<Rightarrow> (Rule \<Rightarrow> bool) \<Rightarrow> (Rule \<Rightarrow> nat) \<Rightarrow> nat \<Rightarrow> bool" where
  "grammar_ok g T rk K \<longleftrightarrow>
     (\<forall>r. rk r < K \<and> (T r \<longrightarrow> consumes T (rule_body g r)) \<and> left_ok T rk (rk r) (rule_body g r) \<and>
        reps_ok T (rule_body g r))"

lemma derives_consumes:
  assumes "grammar_ok g T rk K"
  shows "derives g a e s ps \<Longrightarrow> consumes T e \<Longrightarrow> s \<noteq> []"
proof (induction rule: derives.induct)
  case (d_Insens s w a)
  then show ?case by (auto simp: eq_ignore_ascii_case_def to_ascii_lowercase_def)
next
  case (d_Ref a r s ps qs)
  then show ?case using assms by (auto simp: grammar_ok_def)
qed auto

lemma peg_consumes:
  assumes "grammar_ok g T rk K" "peg g len n a e s = Match ps t"
  shows "length t \<le> length s" "consumes T e \<Longrightarrow> length t < length s"
  using peg_sound(1) [OF assms(2)] derives_consumes [OF assms(1)] by fastforce+

lemma length_skip: "length (skip g a s) \<le> length s"
  by (simp add: skip_def length_dropWhile_le)

lemma left_ok_all: "(\<forall>r. rk r < K) \<Longrightarrow> left_ok T rk K e"
  by (induction e) auto

lemma and_match_fuel: "and_match r f \<noteq> OutOfFuel \<longleftrightarrow> r \<noteq> OutOfFuel \<and> (\<forall>ps s. r = Match ps s \<longrightarrow> f s \<noteq> OutOfFuel)"
  by (cases r) (auto split: peg_result.splits)

lemma fuel_left:
  assumes "K * length s + k \<le> (n :: nat)" "length t < length s"
  shows "K * length t + K \<le> n"
proof -
  have "K * length t + K = K * Suc (length t)" by simp
  also have "\<dots> \<le> K * length s" using assms(2) by (intro mult_le_mono2) simp
  finally show ?thesis using assms(1) by linarith
qed

lemma fuel_same: "K * length s + k \<le> (n :: nat) \<Longrightarrow> length t \<le> length s \<Longrightarrow> K * length t + k \<le> n"
  using mult_le_mono2 [of "length t" "length s" K] by linarith

text \<open>With \<open>K\<close> levels for every character the parser never runs out of fuel.\<close>

lemma peg_fuel:
  "grammar_ok g T rk K \<Longrightarrow> K * length s + k \<le> n \<Longrightarrow> left_ok T rk k e \<Longrightarrow> reps_ok T e \<Longrightarrow>
     peg g len n a e s \<noteq> OutOfFuel"
  "grammar_ok g T rk K \<Longrightarrow> K * length s + k \<le> n \<Longrightarrow> left_ok T rk k e \<Longrightarrow> reps_ok T e \<Longrightarrow> consumes T e \<Longrightarrow>
     peg_more g len n a e s \<noteq> OutOfFuel"
proof (induction g len n a e s and g len n a e s arbitrary: k and k rule: peg_peg_more.induct)
  case (7 g len n a e1 e2 s)
  have "peg g len n a e2 (skip g a s1) \<noteq> OutOfFuel" if m: "peg g len n a e1 s = Match ps s1" for ps s1
  proof (cases "consumes T e1")
    case True
    then have "length (skip g a s1) < length s"
      using peg_consumes(2) [OF "7.prems"(1) m] length_skip [of g a s1] by linarith
    from "7.IH"(2) [OF m "7.prems"(1) fuel_left [OF "7.prems"(2) this]] "7.prems"(1,4) show ?thesis
      by (simp add: left_ok_all grammar_ok_def)
  next
    case False
    have "length (skip g a s1) \<le> length s"
      using peg_consumes(1) [OF "7.prems"(1) m] length_skip [of g a s1] by linarith
    from "7.IH"(2) [OF m "7.prems"(1) fuel_same [OF "7.prems"(2) this]] "7.prems"(3,4) False show ?thesis by simp
  qed
  moreover have "peg g len n a e1 s \<noteq> OutOfFuel" using "7.IH"(1) [OF "7.prems"(1,2)] "7.prems"(3,4) by simp
  ultimately show ?case by (simp add: and_match_fuel)
next
  case (10 g len n a e s)
  have "peg_more g len n a e s1 \<noteq> OutOfFuel" if m: "peg g len n a e s = Match ps s1" for ps s1
    using "10.IH"(2) [OF m refl "10.prems"(1) fuel_same [OF "10.prems"(2) peg_consumes(1) [OF "10.prems"(1) m]]]
      "10.prems"(3,4) by simp
  moreover have "peg g len n a e s \<noteq> OutOfFuel" using "10.IH"(1) [OF "10.prems"(1,2)] "10.prems"(3,4) by simp
  ultimately show ?case by (auto split: peg_result.split)
next
  case (12 g len n a r s)
  have r: "rk r < k" "left_ok T rk (rk r) (rule_body g r)" "reps_ok T (rule_body g r)"
    using "12.prems"(1,3) by (auto simp: grammar_ok_def)
  have "K * length s + rk r \<le> n" using "12.prems"(2) r(1) by linarith
  from "12.IH" [OF "12.prems"(1) this r(2,3)] show ?case by (auto split: peg_result.split)
next
  case (13 g len n a e s)
  have first: "peg g len n a e (skip g a s) \<noteq> OutOfFuel"
    using "13.IH"(1) [OF "13.prems"(1) fuel_same [OF "13.prems"(2) length_skip] "13.prems"(3,4)] .
  have "length t < length s \<and> peg_more g len n a e t \<noteq> OutOfFuel"
    if m: "peg g len n a e (skip g a s) = Match ps t" for ps t
  proof -
    have lt: "length t < length s"
      using peg_consumes(2) [OF "13.prems"(1) m "13.prems"(5)] length_skip [of g a s] by linarith
    with "13.IH"(2) [OF m lt refl "13.prems"(1) fuel_same [OF "13.prems"(2) less_imp_le [OF lt]] "13.prems"(3-5)]
    show ?thesis by blast
  qed
  with first show ?case by (subst peg_more.simps) (auto simp: and_match_fuel split: peg_result.split)
qed (auto split: peg_result.splits)

text \<open>More fuel changes nothing.\<close>

lemma peg_mono:
  "peg g len n a e s \<noteq> OutOfFuel \<Longrightarrow> n \<le> m \<Longrightarrow> peg g len m a e s = peg g len n a e s"
  "peg_more g len n a e s \<noteq> OutOfFuel \<Longrightarrow> n \<le> m \<Longrightarrow> peg_more g len m a e s = peg_more g len n a e s"
proof (induction g len n a e s and g len n a e s arbitrary: m and m rule: peg_peg_more.induct)
  case (7 g len n a e1 e2 s)
  have fuel: "peg g len n a e1 s \<noteq> OutOfFuel"
    "peg g len n a e1 s = Match ps t \<Longrightarrow> peg g len n a e2 (skip g a t) \<noteq> OutOfFuel" for ps t
    using "7.prems"(1) unfolding peg.simps and_match_fuel by blast+
  have "peg g len m a e2 (skip g a t) = peg g len n a e2 (skip g a t)" if "peg g len n a e1 s = Match ps t" for ps t
    using "7.IH"(2) [OF that fuel(2) [OF that] "7.prems"(2)] .
  then show ?case
    unfolding peg.simps "7.IH"(1) [OF fuel(1) "7.prems"(2)] by (cases "peg g len n a e1 s") simp_all
next
  case (8 g len n a e1 e2 s)
  have fuel: "peg g len n a e1 s \<noteq> OutOfFuel"
    "peg g len n a e1 s = NoMatch \<Longrightarrow> peg g len n a e2 s \<noteq> OutOfFuel"
    using "8.prems"(1) unfolding peg.simps by (cases "peg g len n a e1 s"; simp)+
  have "peg g len m a e2 s = peg g len n a e2 s" if "peg g len n a e1 s = NoMatch"
    using "8.IH"(2) [OF that fuel(2) [OF that] "8.prems"(2)] .
  then show ?case
    unfolding peg.simps "8.IH"(1) [OF fuel(1) "8.prems"(2)] by (cases "peg g len n a e1 s") simp_all
next
  case (9 g len n a e s)
  have "peg g len n a e s \<noteq> OutOfFuel" using "9.prems"(1) by (cases "peg g len n a e s") simp_all
  from "9.IH" [OF this "9.prems"(2)] show ?case by simp
next
  case (10 g len n a e s)
  have fuel: "peg g len n a e s \<noteq> OutOfFuel"
    "peg g len n a e s = Match ps t \<Longrightarrow> peg_more g len n a e t \<noteq> OutOfFuel" for ps t
    using "10.prems"(1) by (auto split: peg_result.splits)
  have "peg_more g len m a e t = peg_more g len n a e t" if "peg g len n a e s = Match ps t" for ps t
    using "10.IH"(2) [OF that refl fuel(2) [OF that] "10.prems"(2)] .
  then show ?case
    unfolding peg.simps "10.IH"(1) [OF fuel(1) "10.prems"(2)] by (cases "peg g len n a e s") simp_all
next
  case (12 g len n a r s)
  obtain m' where m: "m = Suc m'" "n \<le> m'" using "12.prems"(2) by (cases m) simp_all
  have "peg g len n (a \<or> is_atomic g r) (rule_body g r) s \<noteq> OutOfFuel"
    using "12.prems"(1) by (cases "peg g len n (a \<or> is_atomic g r) (rule_body g r) s") simp_all
  from "12.IH" [OF this m(2)] show ?case by (simp add: m(1))
next
  case (13 g len n a e s)
  note unfold = peg_more.simps [of g len n a e s] peg_more.simps [of g len m a e s]
  show ?case
  proof (cases "peg g len n a e (skip g a s)")
    case OutOfFuel
    then show ?thesis using "13.prems"(1) by (simp add: unfold)
  next
    case NoMatch
    then have "peg g len m a e (skip g a s) = NoMatch" using "13.IH"(1) "13.prems"(2) by simp
    then show ?thesis by (simp add: unfold NoMatch)
  next
    case (Match ps t)
    then have m: "peg g len m a e (skip g a s) = Match ps t" using "13.IH"(1) "13.prems"(2) by simp
    have lt: "length t < length s" and "peg_more g len n a e t \<noteq> OutOfFuel"
      using "13.prems"(1) Match by (auto simp: unfold(1) split: if_splits)
    then have "peg_more g len m a e t = peg_more g len n a e t"
      using "13.IH"(2) [OF Match lt refl] "13.prems"(2) by blast
    then show ?thesis by (simp add: unfold Match m lt)
  qed
qed (auto split: peg_result.splits)

section \<open>The parser without fuel\<close>

text \<open>With the fuel that is always enough, the parser satisfies its equations without it.\<close>

definition parses :: "grammar \<Rightarrow> nat \<Rightarrow> nat \<Rightarrow> bool \<Rightarrow> pexp \<Rightarrow> string \<Rightarrow> peg_result" where
  "parses g K len a e s = peg g len (K * length s + K) a e s"

definition parses_more :: "grammar \<Rightarrow> nat \<Rightarrow> nat \<Rightarrow> bool \<Rightarrow> pexp \<Rightarrow> string \<Rightarrow> peg_result" where
  "parses_more g K len a e s = peg_more g len (K * length s + K) a e s"

locale finite_grammar =
  fixes g :: grammar and T :: "Rule \<Rightarrow> bool" and rk :: "Rule \<Rightarrow> nat" and K :: nat
  assumes ok: "grammar_ok g T rk K"
begin

lemma left_ok_K: "left_ok T rk K e"
  using ok by (intro left_ok_all) (auto simp: grammar_ok_def)

lemma parses_ends: "reps_ok T e \<Longrightarrow> parses g K len a e s \<noteq> OutOfFuel"
  unfolding parses_def by (rule peg_fuel(1) [OF ok order_refl left_ok_K])

lemma parses_more_ends: "reps_ok T e \<Longrightarrow> consumes T e \<Longrightarrow> parses_more g K len a e s \<noteq> OutOfFuel"
  unfolding parses_more_def by (rule peg_fuel(2) [OF ok order_refl left_ok_K])

lemma peg_parses: "reps_ok T e \<Longrightarrow> K * length s + K \<le> n \<Longrightarrow> peg g len n a e s = parses g K len a e s"
  using peg_mono(1) parses_ends by (simp add: parses_def)

lemma peg_parses_more:
  "reps_ok T e \<Longrightarrow> consumes T e \<Longrightarrow> K * length s + K \<le> n \<Longrightarrow> peg_more g len n a e s = parses_more g K len a e s"
  using peg_mono(2) parses_more_ends by (simp add: parses_more_def)

lemma parses_leaf [simp]:
  "parses g K len a (Lit w) s = (if starts_with s w then Match [] (drop (length w) s) else NoMatch)"
  "parses g K len a (Insens w) s =
     (if length w \<le> length s \<and> eq_ignore_ascii_case (take (length w) s) w
      then Match [] (drop (length w) s) else NoMatch)"
  "parses g K len a Digit s = take_char (\<lambda>c. to_digit 10 c \<noteq> None) s"
  "parses g K len a HexDigit s = take_char (\<lambda>c. to_digit 16 c \<noteq> None) s"
  "parses g K len a Soi s = (if length s = len then Match [] s else NoMatch)"
  "parses g K len a Eoi s = (if s = [] then Match [] [] else NoMatch)"
  by (simp_all add: parses_def)

lemma rest_fuel:
  assumes "peg g len n a e s = Match ps t"
  shows "K * length (skip g a' t) + K \<le> K * length s + K"
  using peg_consumes(1) [OF ok assms] length_skip [of g a' t] by (simp add: mult_le_mono2)

lemma parses_Seq:
  assumes "reps_ok T e2"
  shows "parses g K len a (Seq e1 e2) s = and_match (parses g K len a e1 s) (\<lambda>t. parses g K len a e2 (skip g a t))"
  using peg_parses [OF assms rest_fuel] by (auto simp: parses_def intro: and_match_cong)

lemma parses_Alt:
  "parses g K len a (Alt e1 e2) s = (case parses g K len a e1 s of NoMatch \<Rightarrow> parses g K len a e2 s | r \<Rightarrow> r)"
  unfolding parses_def peg.simps by (rule refl)

lemma parses_Opt:
  "parses g K len a (Opt e) s = (case parses g K len a e s of NoMatch \<Rightarrow> Match [] s | r \<Rightarrow> r)"
  unfolding parses_def peg.simps by (rule refl)

lemma parses_Rep:
  assumes "reps_ok T e" "consumes T e"
  shows "parses g K len a (Rep e) s =
    (case parses g K len a e s of
       NoMatch \<Rightarrow> Match [] s
     | r \<Rightarrow> and_match r (parses_more g K len a e))"
  using peg_parses_more [OF assms] rest_fuel [where a' = True]
  by (auto simp: parses_def skip_def split: peg_result.split)

lemma parses_more:
  assumes "reps_ok T e" "consumes T e"
  shows "parses_more g K len a e s =
    (case parses g K len a e (skip g a s) of
       NoMatch \<Rightarrow> Match [] s
     | r \<Rightarrow> and_match r (parses_more g K len a e))"
proof -
  have p: "peg g len (K * length s + K) a e (skip g a s) = parses g K len a e (skip g a s)"
    by (rule peg_parses [OF assms(1)]) (simp add: length_skip mult_le_mono2)
  have lt: "length t < length s" if "parses g K len a e (skip g a s) = Match ps t" for ps t
    using peg_consumes(2) [OF ok that [unfolded parses_def] assms(2)] length_skip [of g a s] by linarith
  then have "peg_more g len (K * length s + K) a e t = parses_more g K len a e t"
    if "parses g K len a e (skip g a s) = Match ps t" for ps t
    using that by (intro peg_parses_more [OF assms]) (auto intro: mult_le_mono2 less_imp_le)
  with lt p show ?thesis
    by (auto simp: parses_more_def [of g K len a e s] peg_more.simps [of g len _ a e s] split: peg_result.split)
qed

lemma parses_Ref:
  "parses g K len a (Ref r) s =
     (case parses g K len (a \<or> is_atomic g r) (rule_body g r) s of
        Match ps t \<Rightarrow> Match (if a then [] else [Pair r (take (length s - length t) s) ps]) t
      | x \<Rightarrow> x)"
proof -
  have r: "rk r < K" "left_ok T rk (rk r) (rule_body g r)" "reps_ok T (rule_body g r)"
    using ok by (auto simp: grammar_ok_def)
  then obtain n where n: "K * length s + K = Suc n" by (cases "K * length s + K") auto
  have "K * length s + rk r \<le> n" using n r(1) by linarith
  then have "peg g len n (a \<or> is_atomic g r) (rule_body g r) s \<noteq> OutOfFuel"
    using peg_fuel(1) [OF ok _ r(2,3)] by blast
  then have "parses g K len (a \<or> is_atomic g r) (rule_body g r) s = peg g len n (a \<or> is_atomic g r) (rule_body g r) s"
    unfolding parses_def n by (intro peg_mono) auto
  then show ?thesis by (simp add: parses_def [of g K len a "Ref r"] n)
qed

end

end
