(* ===== verification/Filter_Grammar.thy ===== *)
theory Filter_Grammar
  imports Filter_Parser
begin

text \<open>
  Trees that conform to \<^verbatim>\<open>filter.pest\<close>, and what the tree builder does on them. \<open>conforms\<close> states
  for every rule of the grammar which children a node may have and what its text looks like.
\<close>

section \<open>Conforming trees\<close>

definition number_text :: "string \<Rightarrow> bool" where
  "number_text s \<longleftrightarrow> s \<noteq> [] \<and> list_all (\<lambda>c. to_digit 10 c \<noteq> None) s"

definition hex_byte_text :: "string \<Rightarrow> bool" where
  "hex_byte_text s \<longleftrightarrow> length s \<in> {1, 2} \<and> list_all (\<lambda>c. to_digit 16 c \<noteq> None) s"

definition mac_text :: "string \<Rightarrow> bool" where
  "mac_text s \<longleftrightarrow>
     length (split_char (CHR '':'') s) = 6 \<and> list_all hex_byte_text (split_char (CHR '':'') s)"

definition ip_text :: "string \<Rightarrow> bool" where
  "ip_text s \<longleftrightarrow> s \<noteq> [] \<and>
     list_all (\<lambda>c. to_digit 16 c \<noteq> None \<or> c = CHR ''.'' \<or> c = CHR '':'') s"

definition direction_text :: "string \<Rightarrow> bool" where
  "direction_text s \<longleftrightarrow> eq_ignore_ascii_case s ''src'' \<or> eq_ignore_ascii_case s ''dst''"

definition proto_text :: "string \<Rightarrow> bool" where
  "proto_text s \<longleftrightarrow> list_ex (eq_ignore_ascii_case s)
     [''ip6'', ''ip'', ''tcp'', ''udp'', ''icmp6'', ''icmp'', ''arp'', ''rarp'']"

definition relop_text :: "string \<Rightarrow> bool" where
  "relop_text s \<longleftrightarrow> s \<in> set [''>='', ''<='', ''=='', ''='', ''!='', ''>'', ''<'']"

fun or_tail :: "Rule list \<Rightarrow> bool" where
  "or_tail [] \<longleftrightarrow> True"
| "or_tail (o' # a # rs) \<longleftrightarrow> o' = R_or_op \<and> a = R_and_expr \<and> or_tail rs"
| "or_tail _ \<longleftrightarrow> False"

fun and_tail :: "Rule list \<Rightarrow> bool" where
  "and_tail [] \<longleftrightarrow> True"
| "and_tail (R_not_expr # rs) \<longleftrightarrow> and_tail rs"
| "and_tail (R_and_op # R_not_expr # rs) \<longleftrightarrow> and_tail rs"
| "and_tail _ \<longleftrightarrow> False"

definition kinds :: "Rule list" where
  "kinds = [R_proto, R_host, R_port, R_portrange, R_net, R_len_expr, R_ether_host]"

definition len_shape :: "string \<Rightarrow> Rule list \<Rightarrow> bool" where
  "len_shape s rs \<longleftrightarrow>
     (let t = to_ascii_lowercase s in
      starts_with t ''len'' \<and> rs = [R_relop, R_number] \<or>
      (starts_with t ''greater'' \<or> starts_with t ''less'') \<and> rs = [R_number])"

fun shape :: "Rule \<Rightarrow> string \<Rightarrow> Rule list \<Rightarrow> bool" where
  "shape R_filter s rs \<longleftrightarrow> rs = [R_expr, R_EOI]"
| "shape R_expr s rs \<longleftrightarrow> rs = [R_or_expr]"
| "shape R_or_expr s rs \<longleftrightarrow> rs \<noteq> [] \<and> hd rs = R_and_expr \<and> or_tail (tl rs)"
| "shape R_and_expr s rs \<longleftrightarrow> rs \<noteq> [] \<and> hd rs = R_not_expr \<and> and_tail (tl rs)"
| "shape R_not_expr s rs \<longleftrightarrow> rs = [R_not_op, R_primary] \<or> rs = [R_primary]"
| "shape R_primary s rs \<longleftrightarrow> rs = [R_predicate] \<or> rs = [R_expr]"
| "shape R_predicate s rs \<longleftrightarrow>
     (\<exists>k \<in> set kinds. rs = [k] \<or> rs = [R_direction, k])"
| "shape R_direction s rs \<longleftrightarrow> rs = [] \<and> direction_text s"
| "shape R_proto s rs \<longleftrightarrow> rs = [] \<and> proto_text s"
| "shape R_host s rs \<longleftrightarrow> rs = [R_ip]"
| "shape R_port s rs \<longleftrightarrow> rs = [R_number]"
| "shape R_portrange s rs \<longleftrightarrow> rs = [R_number, R_number]"
| "shape R_net s rs \<longleftrightarrow> rs = [R_ip] \<or> rs = [R_ip, R_netmask]"
| "shape R_netmask s rs \<longleftrightarrow> rs = [R_number] \<or> rs = [R_ip]"
| "shape R_len_expr s rs \<longleftrightarrow> len_shape s rs"
| "shape R_ether_host s rs \<longleftrightarrow> rs = [R_mac] \<or> rs = [R_direction, R_mac]"
| "shape R_relop s rs \<longleftrightarrow> rs = [] \<and> relop_text s"
| "shape R_ip s rs \<longleftrightarrow> rs = [] \<and> ip_text s"
| "shape R_mac s rs \<longleftrightarrow> rs = [] \<and> mac_text s"
| "shape R_number s rs \<longleftrightarrow> rs = [] \<and> number_text s"
| "shape _ s rs \<longleftrightarrow> rs = []"

fun conforms :: "pair \<Rightarrow> bool" where
  "conforms (Pair r s inner) \<longleftrightarrow> shape r s (map as_rule inner) \<and> (\<forall>p \<in> set inner. conforms p)"

lemma conforms_text:
  "conforms p \<Longrightarrow> as_rule p = R_number \<Longrightarrow> number_text (as_str p)"
  "conforms p \<Longrightarrow> as_rule p = R_mac \<Longrightarrow> mac_text (as_str p)"
  "conforms p \<Longrightarrow> as_rule p = R_direction \<Longrightarrow> direction_text (as_str p)"
  "conforms p \<Longrightarrow> as_rule p = R_proto \<Longrightarrow> proto_text (as_str p)"
  "conforms p \<Longrightarrow> as_rule p = R_relop \<Longrightarrow> relop_text (as_str p)"
  by (cases p; simp)+

section \<open>Errors that are about the user's input\<close>

definition user_error :: "string \<Rightarrow> bool" where
  "user_error e \<longleftrightarrow>
     e \<in> set [''invalid port: number too large to fit in target type'',
              ''invalid number: number too large to fit in target type'',
              ''invalid prefix length: number too large to fit in target type'',
              ''IPv4 prefix length must be <= 32'', ''IPv6 prefix length must be <= 128'',
              ''portrange start port is greater than end port'',
              ''invalid IPv4 mask: invalid IPv4 address syntax'',
              ''invalid IPv6 mask: invalid IPv6 address syntax''] \<or>
     starts_with e ''invalid IP address: '' \<or>
     starts_with e ''invalid relational operator: ''"

definition good :: "bool \<Rightarrow> 'a outcome \<Rightarrow> bool" where
  "good oc r \<longleftrightarrow> (case r of Inr _ \<Rightarrow> True | Inl (ParseError e) \<Rightarrow> user_error e | Inl OverflowPanic \<Rightarrow> oc)"

lemma good_Inr [simp]: "good oc (Inr v)"
  by (simp add: good_def)

lemma good_and_then:
  "good oc r \<Longrightarrow> (\<And>v. r = Inr v \<Longrightarrow> good oc (f v)) \<Longrightarrow> good oc (and_then r f)"
  by (cases r) (auto simp: good_def split: failure.splits)

lemma from_digits_number:
  "list_all (\<lambda>c. to_digit b c \<noteq> None) s \<Longrightarrow> from_digits mx b acc s = Inl e \<Longrightarrow> e = PosOverflow"
  by (induction s arbitrary: acc) (auto split: option.splits if_splits)

lemma digits_no_sign:
  "list_all (\<lambda>c. to_digit b c \<noteq> None) s \<Longrightarrow> CHR ''+'' \<notin> set s \<and> CHR ''-'' \<notin> set s"
  using signs_no_digit by (auto simp: list_all_iff)

lemma from_str_radix_number:
  assumes "s \<noteq> []" "list_all (\<lambda>c. to_digit b c \<noteq> None) s"
  shows "from_str_radix mx b s = from_digits mx b 0 s"
  using assms digits_no_sign [OF assms(2)] by (cases s) (auto simp: from_str_radix_def)

lemma number_text_overflow:
  "number_text s \<Longrightarrow> from_str_radix mx 10 s = Inl e \<Longrightarrow> e = PosOverflow"
  unfolding number_text_def by (metis from_str_radix_number from_digits_number)

lemma number_overflow:
  "number_text s \<Longrightarrow> parse_u8 s = Inl e \<Longrightarrow> e = PosOverflow"
  "number_text s \<Longrightarrow> parse_u16 s = Inl e \<Longrightarrow> e = PosOverflow"
  "number_text s \<Longrightarrow> parse_u32 s = Inl e \<Longrightarrow> e = PosOverflow"
  by (auto simp: parse_u8_def parse_u16_def parse_u32_def and_then_Inl_iff dest: number_text_overflow)

lemma good_map_err:
  "(\<And>e. r = Inl e \<Longrightarrow> user_error (g e)) \<Longrightarrow> good oc (map_err (\<lambda>e. ParseError (g e)) r)"
  by (cases r) (auto simp: good_def)

lemma hex_byte_ok:
  assumes "hex_byte_text s"
  shows "\<exists>b. u8_from_hex s = Inr b"
proof -
  have hex: "list_all (\<lambda>c. to_digit 16 c \<noteq> None) s" and ne: "s \<noteq> []"
    using assms by (auto simp: hex_byte_text_def)
  consider c d where "s = [c]" "to_digit 16 c = Some d"
    | c d c' d' where "s = [c, c']" "to_digit 16 c = Some d" "to_digit 16 c' = Some d'"
    using assms by (cases s; cases "tl s") (auto simp: hex_byte_text_def)
  then have "\<exists>n. from_digits 255 16 0 s = Inr n"
  proof cases
    case 1
    then show ?thesis using to_digit_less [of 16 c d] by simp
  next
    case 2
    then have "d * 16 + d' \<le> 255"
      using to_digit_less [of 16 c d] to_digit_less [of 16 c' d'] by simp
    with 2 show ?thesis using to_digit_less [of 16 c d] by simp
  qed
  then show ?thesis
    using hex ne by (auto simp: u8_from_hex_def from_str_radix_number simp del: not_None_eq)
qed

lemma mac_ok:
  assumes "mac_text s"
  shows "\<exists>addr. parse_mac s = Inr addr"
proof -
  have "list_all hex_byte_text parts \<Longrightarrow> i + length parts \<le> 6 \<Longrightarrow>
      \<exists>addr. parse_mac_loop i parts octets = Inr addr" for i parts octets
  proof (induction i parts octets rule: parse_mac_loop.induct)
    case (2 i part parts octets)
    then obtain b where "u8_from_hex part = Inr b" using hex_byte_ok by auto
    with 2 show ?case by auto
  qed simp
  then show ?thesis using assms by (auto simp: mac_text_def parse_mac_def)
qed

lemma direction_ok: "direction_text s \<Longrightarrow> \<exists>d. parse_direction s = Inr d"
  by (auto simp: direction_text_def parse_direction_def)

lemma proto_ok: "proto_text s \<Longrightarrow> \<exists>a. parse_proto s = Inr a"
  by (auto simp: proto_text_def parse_proto_def)

section \<open>The builder on conforming trees\<close>

lemma user_errors [simp]:
  "user_error (''invalid port: '' @ ParseIntError_fmt PosOverflow)"
  "user_error (''invalid number: '' @ ParseIntError_fmt PosOverflow)"
  "user_error (''invalid prefix length: '' @ ParseIntError_fmt PosOverflow)"
  "user_error ''IPv4 prefix length must be <= 32''" "user_error ''IPv6 prefix length must be <= 128''"
  "user_error ''portrange start port is greater than end port''"
  "user_error (''invalid IPv4 mask: '' @ AddrParseError_fmt AddrIpv4)"
  "user_error (''invalid IPv6 mask: '' @ AddrParseError_fmt AddrIpv6)"
  "user_error (''invalid IP address: '' @ s)" "user_error (''invalid relational operator: '' @ s)"
  by (simp_all add: user_error_def)

lemma good_Inl [simp]: "good oc (Inl (ParseError e)) \<longleftrightarrow> user_error e" "good oc (Inl OverflowPanic) \<longleftrightarrow> oc"
  by (simp_all add: good_def)

lemma good_port_number:
  assumes "conforms p" "as_rule p = R_number"
  shows "good oc (map_err (\<lambda>e. ParseError (''invalid port: '' @ ParseIntError_fmt e)) (parse_u16 (as_str p)))"
    "good oc (parse_number p)" "good oc (parse_number_u32 p)"
    "good oc (map_err (\<lambda>e. ParseError (''invalid prefix length: '' @ ParseIntError_fmt e)) (parse_u8 (as_str p)))"
  unfolding parse_number_def parse_number_u32_def
  using number_overflow [OF conforms_text(1) [OF assms]]
  by (intro good_map_err; metis user_errors)+

lemma good_relop: "good oc (parse_relop s)"
  by (simp add: parse_relop_def user_error_def)

lemma good_host_addr: "good oc (parse_host_addr s)"
  by (simp add: parse_host_addr_def user_error_def split: sum.split)

lemma good_proto: "conforms p \<Longrightarrow> as_rule p = R_proto \<Longrightarrow> good oc (parse_proto (as_str p))"
  using proto_ok conforms_text good_Inr by metis

lemma good_direction:
  "conforms p \<Longrightarrow> as_rule p = R_direction \<Longrightarrow> good oc (parse_direction (as_str p))"
  using direction_ok conforms_text good_Inr by metis

lemma good_mac: "conforms p \<Longrightarrow> as_rule p = R_mac \<Longrightarrow> good oc (parse_mac (as_str p))"
  using mac_ok conforms_text good_Inr by metis

lemma addr_errors: "parse_ipv4 s = Inl e \<Longrightarrow> e = AddrIpv4" "parse_ipv6 s = Inl e \<Longrightarrow> e = AddrIpv6"
  by (auto simp: parse_ipv4_def parse_ipv6_def parse_with_def split: if_splits option.splits list.splits)

lemma good_masks:
  "good oc (map_err (\<lambda>e. ParseError (''invalid IPv4 mask: '' @ AddrParseError_fmt e)) (parse_ipv4 s))"
  "good oc (map_err (\<lambda>e. ParseError (''invalid IPv6 mask: '' @ AddrParseError_fmt e)) (parse_ipv6 s))"
  by (intro good_map_err; metis addr_errors user_errors)+

lemmas good_leaf = good_port_number good_relop good_host_addr good_proto good_direction good_mac good_masks

lemma good_port: "conforms (Pair R_port s inner) \<Longrightarrow> good oc (build_port (Pair R_port s inner) dir)"
  by (auto simp: build_port_def simp del: append_Cons intro!: good_and_then good_leaf)

lemma good_portrange:
  "conforms (Pair R_portrange s inner) \<Longrightarrow> good oc (build_portrange (Pair R_portrange s inner) dir)"
  by (auto simp: build_portrange_def simp del: append_Cons intro!: good_and_then good_leaf)

text \<open>
  A text that starts with the keyword \<open>len\<close> is neither of the two shorthands, and every other
  \<open>len_expr\<close> has a number where the builder looks for one.
\<close>

lemma len_no_keyword:
  assumes "starts_with (to_ascii_lowercase s) ''len''"
  shows "\<not> keyword_expr s ''greater''" "\<not> keyword_expr s ''less''"
proof -
  obtain r where "to_ascii_lowercase s = CHR ''l'' # CHR ''e'' # CHR ''n'' # r"
    using assms by (auto elim!: starts_with.elims)
  then show "\<not> keyword_expr s ''greater''" "\<not> keyword_expr s ''less''"
    by (auto simp: keyword_expr_def eq_ignore_ascii_case_def to_ascii_lowercase_def)
qed

lemma relop_number:
  assumes "number_text s"
  shows "parse_relop s = Inl (ParseError (''invalid relational operator: '' @ s))"
proof -
  have "c \<in> set s \<Longrightarrow> to_digit 10 c \<noteq> None" for c
    using assms by (auto simp: number_text_def list_all_iff)
  moreover have "to_digit 10 (CHR ''='') = None" "to_digit 10 (CHR ''>'') = None"
    "to_digit 10 (CHR ''<'') = None"
    by (simp_all add: to_digit_def Let_def)
  ultimately have "CHR ''='' \<notin> set s" "CHR ''>'' \<notin> set s" "CHR ''<'' \<notin> set s" by metis+
  then have "s \<noteq> ''=''" "s \<noteq> ''==''" "s \<noteq> ''!=''" "s \<noteq> ''>''" "s \<noteq> ''>=''" "s \<noteq> ''<''" "s \<noteq> ''<=''"
    by (metis list.set_intros)+
  then show ?thesis by (simp only: parse_relop_def simp_thms if_False)
qed

lemma good_len: "conforms (Pair R_len_expr s inner) \<Longrightarrow> good oc (build_len (Pair R_len_expr s inner))"
proof -
  assume c: "conforms (Pair R_len_expr s inner)"
  then consider
      p q where "inner = [p, q]" "as_rule p = R_relop" "conforms q" "as_rule q = R_number"
        "starts_with (to_ascii_lowercase s) ''len''"
    | q where "inner = [q]" "conforms q" "as_rule q = R_number"
    by (auto simp: len_shape_def Let_def)
  then show ?thesis
  proof cases
    case 1
    then show ?thesis
      by (auto simp: build_len_def len_no_keyword Let_def intro!: good_and_then good_leaf)
  next
    case 2
    then show ?thesis
      using relop_number [OF conforms_text(1)]
      by (auto simp: build_len_def Let_def simp del: append_Cons intro!: good_and_then good_leaf)
  qed
qed

lemma good_ether:
  "conforms (Pair R_ether_host s inner) \<Longrightarrow> good oc (build_ether_host (Pair R_ether_host s inner))"
  by (auto simp: build_ether_host_def and_then_Inr_iff split: if_splits intro!: good_and_then good_leaf)

text \<open>The masks the callers of \<open>combine_net\<close> build: of the host's family, and of at most its width.\<close>

fun mask_fits :: "HostAddr \<Rightarrow> NetMask \<Rightarrow> bool" where
  "mask_fits (HostV4 _) (Prefix p) \<longleftrightarrow> p \<le> 32"
| "mask_fits (HostV6 _) (Prefix p) \<longleftrightarrow> p \<le> 128"
| "mask_fits (HostV4 _) (MaskV4 _) \<longleftrightarrow> True"
| "mask_fits (HostV6 _) (MaskV6 _) \<longleftrightarrow> True"
| "mask_fits _ _ \<longleftrightarrow> False"

lemma sub_u8_le: "b \<le> a \<Longrightarrow> sub_u8 oc a b = Inr (a - b)"
  by (simp add: sub_u8_def leD)

lemma combine_net_prefix4:
  assumes "p \<le> 32"
  shows "combine_net oc (HostV4 a) (Prefix p) =
    (if oc \<and> p = 0 then Inl OverflowPanic
     else Inr (NetV4 a (Ipv4Addr (push_bit ((32 - unat p) mod 32) (- 1)))))"
proof -
  have "unat (32 - p) = 32 - unat p" using assms by (simp add: unat_sub)
  moreover have "unat p = 0 \<longleftrightarrow> p = 0" by (simp add: unat_eq_zero)
  ultimately show ?thesis
    using assms by (auto simp: combine_net_def sub_u8_le shl_def)
qed

lemma combine_net_prefix6:
  assumes "p \<le> 128"
  shows "combine_net oc (HostV6 a) (Prefix p) =
    (if oc \<and> p = 0 then Inl OverflowPanic
     else Inr (NetV6 a (Ipv6Addr (push_bit ((128 - unat p) mod 128) (- 1)))))"
proof -
  have "unat (128 - p) = 128 - unat p" using assms by (simp add: unat_sub)
  moreover have "unat p = 0 \<longleftrightarrow> p = 0" by (simp add: unat_eq_zero)
  ultimately show ?thesis
    using assms by (auto simp: combine_net_def sub_u8_le shl_def)
qed

lemma good_combine: "mask_fits host m \<Longrightarrow> good oc (combine_net oc host m)"
  by (cases "(host, m)" rule: mask_fits.cases) (simp_all add: combine_net_prefix4 combine_net_prefix6, simp_all add: combine_net_def)

lemma default_mask_fits: "mask_fits host (default_netmask host)"
  by (cases host) (auto simp: Let_def)

lemma netmask_fits: "parse_netmask p host = Inr m \<Longrightarrow> mask_fits host m"
  by (cases host) (auto simp: parse_netmask_def and_then_Inr_iff split: if_splits)

lemma good_netmask:
  "conforms p \<Longrightarrow> as_rule p = R_netmask \<Longrightarrow> good oc (parse_netmask p host)"
  by (cases p; cases host)
    (auto simp: parse_netmask_def simp del: append_Cons intro!: good_and_then good_leaf)

lemma good_net: "conforms (Pair R_net s inner) \<Longrightarrow> good oc (parse_net oc (Pair R_net s inner))"
  by (auto simp: parse_net_def dest: netmask_fits split: list.splits
      intro!: good_and_then good_leaf good_netmask good_combine default_mask_fits)

lemma good_host:
  "conforms (Pair R_host s inner) \<Longrightarrow> good oc
     (and_then (first_or ''host missing address'' inner) (\<lambda>(ip_pair, _).
      and_then (parse_host_addr (as_str ip_pair)) (\<lambda>addr. Inr (Host addr dir))))"
  by (auto intro!: good_and_then good_leaf)

lemma good_kind: "conforms k \<Longrightarrow> as_rule k \<in> set kinds \<Longrightarrow> good oc (build_kind oc dir k)"
  using good_net good_port good_portrange good_len good_ether good_host good_proto [of k oc]
  by (cases k) (auto simp: build_kind_def kinds_def simp del: conforms.simps intro!: good_and_then)

lemma good_predicate:
  "conforms p \<Longrightarrow> as_rule p = R_predicate \<Longrightarrow> good oc (build_predicate oc p)"
  by (cases p) (auto simp: build_predicate_def and_then_Inr_iff kinds_def split: if_splits
      intro!: good_and_then good_leaf good_kind)

end
