(* ===== verification/Filter_Pest.thy ===== *)
theory Filter_Pest
  imports Pest Filter_Grammar
begin

text \<open>
  The grammar of filter expressions, \<^verbatim>\<open>crates/netdump-filter/src/filter.pest\<close>, rule by rule, and the
  parser it describes. Every tree of that parser conforms to the shapes the tree builder relies on, and
  the parser always ends.
\<close>

section \<open>The grammar\<close>

definition dotted :: pexp where
  "dotted = seqs [Plus Digit, Lit ''.'', Plus Digit, Lit ''.'', Plus Digit, Lit ''.'', Plus Digit]"

definition hex_pair :: pexp where
  "hex_pair = Seq HexDigit (Opt HexDigit)"

definition colon_pairs :: pexp where
  "colon_pairs = seqs [hex_pair, Lit '':'', hex_pair, Lit '':'', hex_pair, Lit '':'', hex_pair, Lit '':'',
     hex_pair, Lit '':'', hex_pair]"

text \<open>\<open>EOI\<close> is built in; \<open>WHITESPACE\<close> is what is skipped.\<close>

fun filter_rule :: "Rule \<Rightarrow> rule_kind \<times> pexp" where
  "filter_rule R_filter = (Normal, seqs [Soi, Ref R_expr, Ref R_EOI])"
| "filter_rule R_expr = (Normal, Ref R_or_expr)"
| "filter_rule R_or_expr = (Normal, Seq (Ref R_and_expr) (Rep (Seq (Ref R_or_op) (Ref R_and_expr))))"
| "filter_rule R_and_expr =
     (Normal, Seq (Ref R_not_expr) (Rep (Seq (Opt (Ref R_and_op)) (Ref R_not_expr))))"
| "filter_rule R_not_expr = (Normal, Alt (Seq (Ref R_not_op) (Ref R_primary)) (Ref R_primary))"
| "filter_rule R_primary = (Normal, Alt (Ref R_predicate) (seqs [Lit ''('', Ref R_expr, Lit '')'']))"
| "filter_rule R_predicate = (Normal, Seq (Opt (Ref R_direction))
     (alts [Ref R_proto, Ref R_host, Ref R_port, Ref R_portrange, Ref R_net, Ref R_len_expr, Ref R_ether_host]))"
| "filter_rule R_direction = (Normal, alts [Insens ''src'', Insens ''dst''])"
| "filter_rule R_proto = (Normal, alts [Insens ''ip6'', Insens ''ip'', Insens ''tcp'', Insens ''udp'',
     Insens ''icmp6'', Insens ''icmp'', Insens ''arp'', Insens ''rarp''])"
| "filter_rule R_host = (Normal, Seq (Insens ''host'') (Ref R_ip))"
| "filter_rule R_port = (Normal, Seq (Insens ''port'') (Ref R_number))"
| "filter_rule R_portrange =
     (Normal, seqs [Insens ''portrange'', Ref R_number, Lit ''-'', Ref R_number])"
| "filter_rule R_net = (Normal, seqs [Insens ''net'', Ref R_ip, Opt (Ref R_netmask)])"
| "filter_rule R_netmask =
     (Normal, Alt (Seq (Lit ''/'') (Ref R_number)) (Seq (Insens ''mask'') (Ref R_ip)))"
| "filter_rule R_len_expr = (Normal, alts [seqs [Insens ''len'', Ref R_relop, Ref R_number],
     Seq (Insens ''greater'') (Ref R_number), Seq (Insens ''less'') (Ref R_number)])"
| "filter_rule R_relop = (Normal, alts [Lit ''>='', Lit ''<='', Lit ''=='', Lit ''='', Lit ''!='', Lit ''>'', Lit ''<''])"
| "filter_rule R_ether_host =
     (Normal, seqs [Insens ''ether'', Opt (Ref R_direction), Opt (Insens ''host''), Ref R_mac])"
| "filter_rule R_ip = (Atomic, Alt (Ref R_ipv4) (Ref R_ipv6))"
| "filter_rule R_ipv4 = (Atomic, dotted)"
| "filter_rule R_ipv6 = (Atomic, Plus (Alt HexDigit (Lit '':'')))"
| "filter_rule R_mac = (Atomic, colon_pairs)"
| "filter_rule R_number = (Atomic, Plus Digit)"
| "filter_rule R_or_op = (Normal, Alt (Insens ''or'') (Lit ''||''))"
| "filter_rule R_and_op = (Normal, Alt (Insens ''and'') (Lit ''&&''))"
| "filter_rule R_not_op = (Normal, Insens ''not'')"
| "filter_rule R_EOI = (Normal, Eoi)"
| "filter_rule R_WHITESPACE = (Normal, alts [Lit '' '', Lit [CHR 0x09], Lit [CHR 0x0A], Lit [CHR 0x0D]])"

definition filter_blank :: "char \<Rightarrow> bool" where
  "filter_blank c \<longleftrightarrow> c \<in> {CHR '' '', CHR 0x09, CHR 0x0A, CHR 0x0D}"

definition filter_grammar :: grammar where
  "filter_grammar = \<lparr>rule_of = filter_rule, is_blank = filter_blank\<rparr>"

lemma filter_grammar_simps [simp]:
  "rule_body filter_grammar r = snd (filter_rule r)"
  "is_atomic filter_grammar r \<longleftrightarrow> fst (filter_rule r) = Atomic"
  by (simp_all add: filter_grammar_def rule_body_def is_atomic_def)

section \<open>Every tree conforms\<close>

text \<open>A reference is left as it is, with the node it makes: rules refer to each other.\<close>

lemmas derives_parts = derives_simps(1-9)

lemma derives_Ref: "derives g False (Ref r) s ps \<Longrightarrow> map as_rule ps = [r]"
  by (auto simp: derives_simps)

lemma atomic_no_pairs: "derives g True e s ps \<Longrightarrow> ps = []"
  by (induction True e s ps rule: derives.induct) auto

lemma derives_atomic_Rep:
  assumes "derives g True (Rep e) s ps" "\<And>t qs. derives g True e t qs \<Longrightarrow> list_all P t"
  shows "list_all P s"
  using assms(1) by (induction True "Rep e" s ps rule: derives.induct) (auto simp: blanks_def assms(2))

lemma derives_Plus:
  assumes "derives g True (Plus e) s ps" "\<And>t qs. derives g True e t qs \<Longrightarrow> list_all P t"
  shows "list_all P s"
  using assms derives_atomic_Rep [of g e _ _ P] by (auto simp: Plus_def derives_simps blanks_def)

lemma derives_Plus_Digit:
  assumes "derives g True (Plus Digit) s ps"
  shows "s \<noteq> [] \<and> list_all (\<lambda>c. to_digit 10 c \<noteq> None) s"
proof
  show "s \<noteq> []" using assms by (auto simp: Plus_def derives_simps)
  show "list_all (\<lambda>c. to_digit 10 c \<noteq> None) s"
    by (rule derives_Plus [OF assms]) (auto simp: derives_simps)
qed

lemma derives_hex_pair: "derives g True hex_pair s ps \<Longrightarrow> hex_byte_text s"
  by (auto simp: hex_pair_def derives_simps blanks_def hex_byte_text_def)

lemma decimal_is_hex: "to_digit 10 c \<noteq> None \<Longrightarrow> to_digit 16 c \<noteq> None"
  by (auto simp: to_digit_def Let_def split: if_splits)

lemma derives_ip:
  assumes "derives filter_grammar True (Alt (Ref R_ipv4) (Ref R_ipv6)) s ps"
  shows "ip_text s"
proof -
  let ?P = "\<lambda>c. to_digit 16 c \<noteq> None \<or> c = CHR ''.'' \<or> c = CHR '':''"
  from assms obtain qs where "derives filter_grammar True dotted s qs \<or>
      derives filter_grammar True (Plus (Alt HexDigit (Lit '':''))) s qs"
    by (auto simp: derives_simps)
  then show ?thesis
  proof
    assume d: "derives filter_grammar True dotted s qs"
    have "list_all ?P t \<and> t \<noteq> []" if "derives filter_grammar True (Plus Digit) t qs" for t qs
      using derives_Plus_Digit [OF that] decimal_is_hex by (auto simp: list_all_iff)
    with d show ?thesis
      by (fastforce simp: dotted_def ip_text_def derives_simps blanks_def)
  next
    assume d: "derives filter_grammar True (Plus (Alt HexDigit (Lit '':''))) s qs"
    then have "list_all ?P s"
      by (rule derives_Plus) (auto simp: derives_simps)
    with d show ?thesis by (auto simp: ip_text_def Plus_def derives_simps)
  qed
qed

lemma derives_mac:
  assumes "derives g True colon_pairs s ps"
  shows "mac_text s"
proof -
  from assms obtain h1 h2 h3 h4 h5 h6 where s: "s = join_char (CHR '':'') [h1, h2, h3, h4, h5, h6]"
    and h: "list_all hex_byte_text [h1, h2, h3, h4, h5, h6]"
    by (auto simp: colon_pairs_def derives_simps blanks_def dest!: derives_hex_pair)
  have "CHR '':'' \<notin> set h" if "hex_byte_text h" for h
    using that by (auto simp: hex_byte_text_def list_all_iff to_digit_def Let_def)
  then have "split_char (CHR '':'') s = [h1, h2, h3, h4, h5, h6]"
    unfolding s using h by (intro split_join) auto
  with h show ?thesis by (simp add: mac_text_def)
qed

lemma derives_or_tail:
  "derives filter_grammar False (Rep (Seq (Ref R_or_op) (Ref R_and_expr))) s ps \<Longrightarrow> or_tail (map as_rule ps)"
  by (induction False "Rep (Seq (Ref R_or_op) (Ref R_and_expr))" s ps rule: derives.induct)
    (auto simp: derives_parts dest!: derives_Ref)

lemma derives_and_tail:
  "derives filter_grammar False (Rep (Seq (Opt (Ref R_and_op)) (Ref R_not_expr))) s ps \<Longrightarrow> and_tail (map as_rule ps)"
  by (induction False "Rep (Seq (Opt (Ref R_and_op)) (Ref R_not_expr))" s ps rule: derives.induct)
    (auto simp: derives_parts dest!: derives_Ref)

lemma lowercase_append: "to_ascii_lowercase (s @ t) = to_ascii_lowercase s @ to_ascii_lowercase t"
  by (simp add: to_ascii_lowercase_def)

lemma keyword_prefix:
  "eq_ignore_ascii_case s w \<Longrightarrow> starts_with (to_ascii_lowercase (s @ t)) (to_ascii_lowercase w)"
  by (auto simp: lowercase_append eq_ignore_ascii_case_def starts_with_iff)

lemma len_keywords [simp]:
  "to_ascii_lowercase ''len'' = ''len''" "to_ascii_lowercase ''greater'' = ''greater''"
  "to_ascii_lowercase ''less'' = ''less''"
  by (simp_all add: to_ascii_lowercase_def)

lemma derives_len:
  assumes "derives filter_grammar False (rule_body filter_grammar R_len_expr) s ps"
  shows "len_shape s (map as_rule ps)"
  using assms keyword_prefix [of _ "''len''"] keyword_prefix [of _ "''greater''"] keyword_prefix [of _ "''less''"]
  by (auto dest!: derives_Ref simp: derives_parts len_shape_def Let_def)

lemma rule_shape:
  assumes "derives filter_grammar (is_atomic filter_grammar r) (rule_body filter_grammar r) s ps"
  shows "shape r s (map as_rule ps)"
proof (cases r)
  case R_len_expr
  then show ?thesis using assms derives_len by simp
next
  case R_or_expr
  then show ?thesis using assms derives_or_tail by (auto simp: derives_parts dest!: derives_Ref)
next
  case R_and_expr
  then show ?thesis using assms derives_and_tail by (auto simp: derives_parts dest!: derives_Ref)
next
  case R_ip
  then show ?thesis using assms derives_ip atomic_no_pairs by fastforce
next
  case R_mac
  then show ?thesis using assms derives_mac atomic_no_pairs by fastforce
next
  case R_number
  then show ?thesis using assms derives_Plus_Digit atomic_no_pairs by (fastforce simp: number_text_def)
next
  case R_ipv4
  then show ?thesis using assms atomic_no_pairs by fastforce
next
  case R_ipv6
  then show ?thesis using assms atomic_no_pairs by fastforce
qed (use assms in \<open>auto dest!: derives_Ref simp: derives_parts kinds_def direction_text_def proto_text_def relop_text_def\<close>)

lemma derives_conforms: "derives filter_grammar a e s ps \<Longrightarrow> \<forall>p \<in> set ps. conforms p"
proof (induction rule: derives.induct)
  case (d_Ref a r s ps qs)
  show ?case
  proof (cases a)
    case False
    then have "derives filter_grammar (is_atomic filter_grammar r) (rule_body filter_grammar r) s ps"
      using d_Ref.hyps(1) by (simp only: simp_thms)
    then show ?thesis using rule_shape d_Ref.IH d_Ref.hyps(2) False by simp
  qed (use d_Ref.hyps in simp)
qed auto

section \<open>The parser ends\<close>

text \<open>
  The rules ordered by what they may start with: an expression reaches a predicate through five rules
  that consume nothing before.
\<close>

fun filter_rank :: "Rule \<Rightarrow> nat" where
  "filter_rank R_ip = 1"
| "filter_rank R_predicate = 2"
| "filter_rank R_primary = 3"
| "filter_rank R_not_expr = 4"
| "filter_rank R_and_expr = 5"
| "filter_rank R_or_expr = 6"
| "filter_rank R_expr = 7"
| "filter_rank R_filter = 8"
| "filter_rank _ = 0"

definition filter_consumes :: "Rule \<Rightarrow> bool" where
  "filter_consumes r \<longleftrightarrow> r \<noteq> R_EOI"

interpretation filter_peg: finite_grammar filter_grammar filter_consumes filter_rank 9
proof
  have "filter_rank r < 9 \<and> (filter_consumes r \<longrightarrow> consumes filter_consumes (snd (filter_rule r))) \<and>
      left_ok filter_consumes filter_rank (filter_rank r) (snd (filter_rule r)) \<and>
      reps_ok filter_consumes (snd (filter_rule r))" for r
    by (cases r)
      (simp_all add: filter_consumes_def Plus_def dotted_def hex_pair_def colon_pairs_def)
  then show "grammar_ok filter_grammar filter_consumes filter_rank 9" by (simp add: grammar_ok_def)
qed

text \<open>
  What the program relies on of the parser that pest generates from the grammar: its tree is the one the
  grammar describes, and there is an error for every other text. \<open>pest_filter\<close> is such a parser.
\<close>

definition follows_grammar :: "(string \<Rightarrow> string + pair list) \<Rightarrow> bool" where
  "follows_grammar pest_parse \<longleftrightarrow>
     (\<forall>input. case pest_run filter_grammar R_filter (9 * length input + 9) input of
        Match ps _ \<Rightarrow> pest_parse input = Inr ps
      | _ \<Rightarrow> isl (pest_parse input))"

definition pest_filter :: "(string \<Rightarrow> string) \<Rightarrow> string \<Rightarrow> string + pair list" where
  "pest_filter message input =
     (case pest_run filter_grammar R_filter (9 * length input + 9) input of
        Match ps _ \<Rightarrow> Inr ps
      | _ \<Rightarrow> Inl (message input))"

lemma pest_filter_follows: "follows_grammar (pest_filter message)"
  by (simp add: follows_grammar_def pest_filter_def split: peg_result.split)

lemma follows_grammar_filter:
  assumes "follows_grammar pest_parse"
  obtains message where "pest_parse = pest_filter message"
proof
  have "pest_parse input = pest_filter (\<lambda>input. projl (pest_parse input)) input" for input
    using assms [unfolded follows_grammar_def, rule_format, of input]
    by (simp add: pest_filter_def split: peg_result.splits)
  then show "pest_parse = pest_filter (\<lambda>input. projl (pest_parse input))" by (rule ext)
qed

lemma pest_filter_parses:
  "pest_filter message input =
     (case parses filter_grammar 9 (length input) False (Ref R_filter) input of
        Match ps _ \<Rightarrow> Inr ps
      | _ \<Rightarrow> Inl (message input))"
  by (simp add: pest_filter_def pest_run_def parses_def)

lemma pest_filter_conforms:
  assumes "pest_filter message input = Inr ps"
  shows "\<exists>f. ps = [f] \<and> as_rule f = R_filter \<and> conforms f"
proof -
  obtain t where "peg filter_grammar (length input) (9 * length input + 9) False (Ref R_filter) input = Match ps t"
    using assms by (auto simp: pest_filter_def pest_run_def split: peg_result.splits)
  from peg_sound(1) [OF this] obtain u where d: "derives filter_grammar False (Ref R_filter) u ps" by blast
  from derives_Ref [OF d] derives_conforms [OF d] show ?thesis by (cases ps) auto
qed

end
