(* ===== verification/Filter_Parser_Correct.thy ===== *)
theory Filter_Parser_Correct
  imports Filter_Grammar
begin

text \<open>
  The tree builder as a whole: on conforming trees it fails only for reasons the user can see in
  the input, what it returns is a well-formed expression, chains of operands associate to the
  left, and every well-formed expression is the value of some conforming tree.
\<close>

section \<open>Failures\<close>

lemmas build_induct = build_expr_build_or_build_or_loop_build_and_build_and_loop_build_not_build_primary.induct

lemma and_tail_Cons:
  "and_tail (r # rs) \<longleftrightarrow>
     r = R_not_expr \<and> and_tail rs \<or> r = R_and_op \<and> (\<exists>rs'. rs = R_not_expr # rs' \<and> and_tail rs')"
  by (cases "r # rs" rule: and_tail.cases) auto

lemma or_tail_Cons: "or_tail (r # rs) \<longleftrightarrow> r = R_or_op \<and> (\<exists>rs'. rs = R_and_expr # rs' \<and> or_tail rs')"
  by (cases rs) auto

lemma build_good:
  "conforms p \<Longrightarrow> as_rule p = R_expr \<Longrightarrow> good oc (build_expr oc p)"
  "conforms p \<Longrightarrow> as_rule p = R_or_expr \<Longrightarrow> good oc (build_or oc p)"
  "(\<forall>q \<in> set ps. conforms q) \<Longrightarrow> or_tail (map as_rule ps) \<Longrightarrow> good oc (build_or_loop oc left ps)"
  "conforms p \<Longrightarrow> as_rule p = R_and_expr \<Longrightarrow> good oc (build_and oc p)"
  "(\<forall>q \<in> set ps. conforms q) \<Longrightarrow> and_tail (map as_rule ps) \<Longrightarrow> good oc (build_and_loop oc left ps)"
  "conforms p \<Longrightarrow> as_rule p = R_not_expr \<Longrightarrow> good oc (build_not oc p)"
  "conforms p \<Longrightarrow> as_rule p = R_primary \<Longrightarrow> good oc (build_primary oc p)"
proof (induction oc p and oc p and oc left ps and oc p and oc left ps and oc p and oc p
    rule: build_induct)
  case (1 oc r s inner)
  then show ?case by (auto split: list.splits)
next
  case (2 oc r s inner)
  then show ?case by (auto split: list.splits intro!: good_and_then)
next
  case (4 oc left op' ps)
  then show ?case by (auto simp: or_tail_Cons split: list.splits intro!: good_and_then)
next
  case (5 oc r s inner)
  then show ?case by (auto split: list.splits intro!: good_and_then)
next
  case (7 oc left p ps)
  then show ?case by (auto simp: and_tail_Cons split: list.splits intro!: good_and_then)
next
  case (8 oc r s inner)
  then show ?case by (auto split: list.splits intro!: good_and_then)
next
  case (9 oc r s inner)
  then show ?case by (auto simp: good_predicate)
qed auto

section \<open>Well-formed results\<close>

fun ranges_ordered :: "FilterAst \<Rightarrow> bool" where
  "ranges_ordered (PortRange lo hi dir) \<longleftrightarrow> lo \<le> hi"
| "ranges_ordered (And l r) \<longleftrightarrow> ranges_ordered l \<and> ranges_ordered r"
| "ranges_ordered (Or l r) \<longleftrightarrow> ranges_ordered l \<and> ranges_ordered r"
| "ranges_ordered (Not' e) \<longleftrightarrow> ranges_ordered e"
| "ranges_ordered _ \<longleftrightarrow> True"

definition valid_ast :: "FilterAst \<Rightarrow> bool" where
  "valid_ast ast \<longleftrightarrow> wf_ast ast \<and> ranges_ordered ast"

lemma parse_mac_loop_length:
  "parse_mac_loop i parts octets = Inr addr \<Longrightarrow> length addr = length octets"
  by (induction i parts octets rule: parse_mac_loop.induct) (auto simp: and_then_Inr_iff split: if_splits)

lemma parse_mac_length: "parse_mac s = Inr addr \<Longrightarrow> length addr = 6"
  by (auto simp: parse_mac_def dest: parse_mac_loop_length)

lemma valid_leaves:
  "parse_proto s = Inr ast \<Longrightarrow> valid_ast ast"
  "build_port k dir = Inr ast \<Longrightarrow> valid_ast ast"
  "build_portrange k dir = Inr ast \<Longrightarrow> valid_ast ast"
  "build_len k = Inr ast \<Longrightarrow> valid_ast ast"
  "build_ether_host k = Inr ast \<Longrightarrow> valid_ast ast"
proof -
  show "parse_proto s = Inr ast \<Longrightarrow> valid_ast ast"
    by (auto simp: parse_proto_def valid_ast_def split: if_splits)
  show "build_port k dir = Inr ast \<Longrightarrow> valid_ast ast"
    by (auto simp: build_port_def valid_ast_def and_then_Inr_iff)
  show "build_portrange k dir = Inr ast \<Longrightarrow> valid_ast ast"
    by (auto simp: build_portrange_def valid_ast_def and_then_Inr_iff not_less split: if_splits)
  show "build_len k = Inr ast \<Longrightarrow> valid_ast ast"
    unfolding build_len_def Let_def by (auto simp: valid_ast_def and_then_Inr_iff split: if_splits)
  show "build_ether_host k = Inr ast \<Longrightarrow> valid_ast ast"
    unfolding build_ether_host_def by (auto simp: valid_ast_def and_then_Inr_iff parse_mac_length)
qed

lemma valid_kind: "build_kind oc dir k = Inr ast \<Longrightarrow> valid_ast ast"
  by (cases "as_rule k")
    (auto simp: build_kind_def and_then_Inr_iff intro: valid_leaves, auto simp: valid_ast_def)

lemma valid_predicate: "build_predicate oc p = Inr ast \<Longrightarrow> valid_ast ast"
  by (auto simp: build_predicate_def and_then_Inr_iff intro: valid_kind)

lemma valid_ast_connectives [simp]:
  "valid_ast (And l r) \<longleftrightarrow> valid_ast l \<and> valid_ast r"
  "valid_ast (Or l r) \<longleftrightarrow> valid_ast l \<and> valid_ast r"
  "valid_ast (Not' e) \<longleftrightarrow> valid_ast e"
  by (auto simp: valid_ast_def)

definition yields_valid :: "FilterAst outcome \<Rightarrow> bool" where
  "yields_valid r \<longleftrightarrow> (case r of Inr ast \<Rightarrow> valid_ast ast | Inl _ \<Rightarrow> True)"

lemma yields_valid_simps [simp]:
  "yields_valid (Inl e)" "yields_valid (Inr ast) \<longleftrightarrow> valid_ast ast"
  by (simp_all add: yields_valid_def)

lemma yields_valid_then:
  "yields_valid r \<Longrightarrow> (\<And>v. r = Inr v \<Longrightarrow> valid_ast v \<Longrightarrow> yields_valid (f v)) \<Longrightarrow>
   yields_valid (and_then r f)"
  by (cases r) auto

lemma yields_valid_predicate: "yields_valid (build_predicate oc p)"
  by (cases "build_predicate oc p") (auto intro: valid_predicate)

lemma build_yields_valid:
  "yields_valid (build_expr oc p)"
  "yields_valid (build_or oc p)"
  "valid_ast left \<Longrightarrow> yields_valid (build_or_loop oc left ps)"
  "yields_valid (build_and oc p)"
  "valid_ast left \<Longrightarrow> yields_valid (build_and_loop oc left ps)"
  "yields_valid (build_not oc p)"
  "yields_valid (build_primary oc p)"
proof (induction oc p and oc p and oc left ps and oc p and oc left ps and oc p and oc p
    rule: build_induct)
  case (9 oc r s inner)
  then show ?case by (auto simp: yields_valid_predicate split: list.splits)
qed (auto split: list.splits intro!: yields_valid_then)

lemma build_valid: "build_expr oc p = Inr ast \<Longrightarrow> valid_ast ast"
  using build_yields_valid(1) [of oc p] by simp

section \<open>A tree for every expression\<close>

text \<open>
  \<open>tree_of\<close> writes an expression as a conforming tree, every operand in parentheses; addresses and
  masks are written in full. The texts of inner nodes, which the builder never looks at, are empty.
\<close>

definition leaf :: "Rule \<Rightarrow> string \<Rightarrow> pair" where
  "leaf r s = Pair r s []"

fun relop_str :: "RelOp \<Rightarrow> string" where
  "relop_str Eq = ''=''"
| "relop_str Ne = ''!=''"
| "relop_str Gt = ''>''"
| "relop_str Ge = ''>=''"
| "relop_str Lt = ''<''"
| "relop_str Le = ''<=''"

fun proto_str :: "Protocol \<Rightarrow> string" where
  "proto_str Ip = ''ip''"
| "proto_str Ip6 = ''ip6''"
| "proto_str Tcp = ''tcp''"
| "proto_str Udp = ''udp''"
| "proto_str Icmp = ''icmp''"
| "proto_str Icmp6 = ''icmp6''"
| "proto_str Arp = ''arp''"
| "proto_str Rarp = ''rarp''"

fun dir_pairs :: "Direction \<Rightarrow> pair list" where
  "dir_pairs Any = []"
| "dir_pairs Src = [leaf R_direction ''src'']"
| "dir_pairs Dst = [leaf R_direction ''dst'']"

definition mac_str :: "u8 list \<Rightarrow> string" where
  "mac_str addr = join_char (CHR '':'') (map hex2 addr)"

fun host_str :: "HostAddr \<Rightarrow> string" where
  "host_str (HostV4 a) = show_ipv4 a"
| "host_str (HostV6 a) = ipv6_full_str a"

fun net_pairs :: "NetAddr \<Rightarrow> pair list" where
  "net_pairs (NetV4 a m) =
     [leaf R_ip (show_ipv4 a), Pair R_netmask [] [leaf R_ip (show_ipv4 m)]]"
| "net_pairs (NetV6 a m) =
     [leaf R_ip (ipv6_full_str a), Pair R_netmask [] [leaf R_ip (ipv6_full_str m)]]"

definition number_leaf :: "'a::len word \<Rightarrow> pair" where
  "number_leaf w = leaf R_number (show_dec (unat w))"

fun predicate_pairs :: "FilterAst \<Rightarrow> pair list" where
  "predicate_pairs (Proto p) = [leaf R_proto (proto_str p)]"
| "predicate_pairs (Host a dir) = dir_pairs dir @ [Pair R_host [] [leaf R_ip (host_str a)]]"
| "predicate_pairs (Port p dir) = dir_pairs dir @ [Pair R_port [] [number_leaf p]]"
| "predicate_pairs (PortRange lo hi dir) =
     dir_pairs dir @ [Pair R_portrange [] [number_leaf lo, number_leaf hi]]"
| "predicate_pairs (Net n dir) = dir_pairs dir @ [Pair R_net [] (net_pairs n)]"
| "predicate_pairs (Len op' n) =
     [Pair R_len_expr ''len'' [leaf R_relop (relop_str op'), number_leaf n]]"
| "predicate_pairs (EtherHost addr dir) =
     [Pair R_ether_host [] (dir_pairs dir @ [leaf R_mac (mac_str addr)])]"
| "predicate_pairs _ = []"

definition predicate_of :: "FilterAst \<Rightarrow> pair" where
  "predicate_of p = Pair R_predicate [] (predicate_pairs p)"

text \<open>Wrapping a primary, a list of negations or conjunctions, up to an expression.\<close>

definition not_expr_of :: "pair list \<Rightarrow> pair" where
  "not_expr_of ps = Pair R_not_expr [] ps"

definition expr_of :: "pair list \<Rightarrow> pair" where
  "expr_of ors = Pair R_expr [] [Pair R_or_expr [] ors]"

definition paren :: "pair \<Rightarrow> pair" where
  "paren e = Pair R_primary [] [e]"

fun tree_of :: "FilterAst \<Rightarrow> pair" where
  "tree_of (And l r) = expr_of [Pair R_and_expr []
     [not_expr_of [paren (tree_of l)], leaf R_and_op ''and'', not_expr_of [paren (tree_of r)]]]"
| "tree_of (Or l r) = expr_of
     [Pair R_and_expr [] [not_expr_of [paren (tree_of l)]], leaf R_or_op ''or'',
      Pair R_and_expr [] [not_expr_of [paren (tree_of r)]]]"
| "tree_of (Not' e) = expr_of [Pair R_and_expr []
     [not_expr_of [leaf R_not_op ''not'', paren (tree_of e)]]]"
| "tree_of p = expr_of [Pair R_and_expr []
     [not_expr_of [paren (predicate_of p)]]]"

lemma as_rule_predicate_of [simp]: "as_rule (predicate_of p) = R_predicate"
  by (simp add: predicate_of_def)

lemma as_rule_tree_of [simp]: "as_rule (tree_of ast) = R_expr"
  by (cases ast) (simp_all add: expr_of_def)

section \<open>Building the tree gives the expression back\<close>

lemma u8_from_hex2: "u8_from_hex (hex2 b) = Inr b"
proof -
  have small: "unat b \<le> 255" using u8_bounds by simp
  have "from_str_radix 255 16 (hex2 b) = Inr (unat b)"
  proof (cases "length (show_radix 16 (unat b)) = 2")
    case True
    then show ?thesis using from_str_radix_show [of 16 255 "unat b"] small
      by (simp add: hex2_def pad_left_def)
  next
    case False
    have "length (digits_of 16 (unat b)) \<le> 2" using u8_bounds [of b] by (intro length_digits_of) auto
    with False have "length (digits_of 16 (unat b)) = 1"
      by (metis digits_of_nonempty One_nat_def Suc_1 le_SucE le_neq_implies_less length_0_conv
          length_map less_Suc0 show_radix_digits)
    then have s: "hex2 b = CHR ''0'' # show_radix 16 (unat b)"
      by (simp add: hex2_def pad_left_def show_radix_digits)
    have "from_digits 255 16 0 (show_radix 16 (unat b)) = Inr (unat b)"
      using from_digits_map [of 16 "digits_of 16 (unat b)" 0 255] digits_of_less [of 16 "unat b"] small
      by (simp add: show_radix_digits value_of_digits)
    moreover have "to_digit 16 (CHR ''0'') = Some 0" by (simp add: to_digit_def Let_def)
    ultimately show ?thesis by (simp add: s from_str_radix_def)
  qed
  then show ?thesis by (simp add: u8_from_hex_def)
qed

lemma hex2_chars: "c \<in> set (hex2 b) \<Longrightarrow> to_digit 16 c \<noteq> None"
  using show_radix_chars [of 16 c "unat b"]
  by (auto simp: hex2_def pad_left_def to_digit_def Let_def set_replicate_conv_if split: if_splits)

lemma hex2_no_colon: "CHR '':'' \<notin> set (hex2 b)"
  using hex2_chars separators_no_digit [of 16] by blast

lemma split_mac_str: "length addr = 6 \<Longrightarrow> split_char (CHR '':'') (mac_str addr) = map hex2 addr"
  unfolding mac_str_def using hex2_no_colon by (intro split_join) auto

lemma parse_mac_loop_hex:
  "i + length bs \<le> 6 \<Longrightarrow> length octets = 6 \<Longrightarrow>
   parse_mac_loop i (map hex2 bs) octets = Inr (take i octets @ bs @ drop (i + length bs) octets)"
proof (induction bs arbitrary: i octets)
  case (Cons b bs)
  have "parse_mac_loop (i + 1) (map hex2 bs) (octets[i := b])
      = Inr (take (i + 1) (octets[i := b]) @ bs @ drop (i + 1 + length bs) (octets[i := b]))"
    using Cons.prems by (intro Cons.IH) auto
  then show ?case using Cons.prems by (simp add: u8_from_hex2 take_Suc_conv_app_nth)
qed simp

lemma parse_mac_str: "length addr = 6 \<Longrightarrow> parse_mac (mac_str addr) = Inr addr"
  using parse_mac_loop_hex [of 0 addr "replicate 6 0"] by (simp add: parse_mac_def split_mac_str)

lemma parse_number_leaf:
  "parse_u8 (show_dec (unat a)) = Inr a" "parse_u16 (show_dec (unat b)) = Inr b"
  "parse_u32 (show_dec (unat c)) = Inr c"
  using from_str_radix_show [of 10 255 "unat a"] from_str_radix_show [of 10 65535 "unat b"]
    from_str_radix_show [of 10 4294967295 "unat c"]
    unat_u8_less [of a] unat_u16_less [of b] unat_u32_less [of c]
  by (simp_all add: parse_u8_def parse_u16_def parse_u32_def show_dec_def
      del: unat_u8_less unat_u16_less unat_u32_less)

lemma parse_host_str: "parse_host_addr (host_str h) = Inr h"
  by (cases h) (simp_all add: parse_host_addr_def parse_show_ipv4 ipv6_full_no_ipv4 parse_ipv6_full)

lemma parse_relop_str: "parse_relop (relop_str op') = Inr op'"
  by (cases op') (simp_all add: parse_relop_def)

lemma parse_proto_str: "parse_proto (proto_str p) = Inr (Proto p)"
  by (cases p) (simp_all add: parse_proto_def eq_ignore_ascii_case_def to_ascii_lowercase_def)

lemma parse_net_pairs: "parse_net oc (Pair R_net s (net_pairs n)) = Inr n"
  using parse_host_str [of "HostV4 _"] parse_host_str [of "HostV6 _"]
  by (cases n) (simp_all add: parse_net_def parse_netmask_def leaf_def parse_show_ipv4 parse_ipv6_full
      combine_net_def)

lemma parse_direction_str:
  "parse_direction ''src'' = Inr Src" "parse_direction ''dst'' = Inr Dst"
  by (simp_all add: parse_direction_def eq_ignore_ascii_case_def to_ascii_lowercase_def)

lemma build_predicate_dir:
  "as_rule k \<noteq> R_direction \<Longrightarrow>
   build_predicate oc (Pair R_predicate s (dir_pairs dir @ [k])) = build_kind oc dir k"
  by (cases dir) (simp_all add: build_predicate_def leaf_def parse_direction_str)

lemmas build_kinds = build_kind_def build_port_def build_portrange_def build_len_def leaf_def
  number_leaf_def parse_number_def parse_number_u32_def parse_number_leaf parse_host_str
  parse_relop_str parse_proto_str parse_net_pairs

lemma build_predicate_pairs:
  assumes "valid_ast p" "case p of And _ _ \<Rightarrow> False | Or _ _ \<Rightarrow> False | Not' _ \<Rightarrow> False | _ \<Rightarrow> True"
  shows "build_predicate oc (predicate_of p) = Inr p"
proof (cases p)
  case (EtherHost addr dir)
  then have "length addr = 6" using assms(1) by (simp add: valid_ast_def)
  with EtherHost show ?thesis
    using build_predicate_dir [of "Pair R_ether_host [] (dir_pairs dir @ [leaf R_mac (mac_str addr)])" oc "[]" Any]
    by (cases dir) (simp_all add: predicate_of_def build_kind_def build_ether_host_def leaf_def parse_mac_str parse_direction_str)
next
  case (Len op' n)
  then show ?thesis
    using build_predicate_dir [of "Pair R_len_expr ''len'' [leaf R_relop (relop_str op'), number_leaf n]" oc "[]" Any]
    by (simp add: predicate_of_def build_kinds keyword_expr_def eq_ignore_ascii_case_def to_ascii_lowercase_def Let_def)
next
  case (Proto x)
  then show ?thesis
    using build_predicate_dir [of "leaf R_proto (proto_str x)" oc "[]" Any] by (simp add: predicate_of_def build_kinds)
next
  case (PortRange lo hi dir)
  then show ?thesis using assms(1)
    by (simp add: predicate_of_def build_predicate_dir build_kinds valid_ast_def leD)
qed (use assms(2) in \<open>simp_all add: predicate_of_def build_predicate_dir build_kinds\<close>)

lemma build_tree_of: "valid_ast ast \<Longrightarrow> build_expr oc (tree_of ast) = Inr ast"
  by (induction ast)
    (simp_all add: expr_of_def not_expr_of_def paren_def leaf_def build_predicate_pairs)

section \<open>The tree conforms to the grammar\<close>

lemma show_dec_number: "number_text (show_dec n)"
  using show_radix_chars [of 10] by (auto simp: number_text_def show_dec_def list_all_iff show_radix_digits)

lemma ipv4_text: "ip_text (show_ipv4 a)"
proof -
  have "c \<in> set (show_dec n) \<Longrightarrow> to_digit 16 c \<noteq> None" for c n
  proof -
    assume "c \<in> set (show_dec n)"
    then obtain d where "d < 10" "c = digit_char d"
      using digits_of_less [of 10 n] by (auto simp: show_dec_def show_radix_digits)
    then show ?thesis using to_digit_char [of d 16] by simp
  qed
  moreover have "show_dec n \<noteq> []" for n by (simp add: show_dec_def show_radix_digits)
  ultimately show ?thesis
    by (auto simp: ip_text_def show_ipv4_def ipv4_octets_def list_all_iff simp del: not_None_eq)
qed

lemma ipv6_text: "ip_text (ipv6_full_str a)"
proof -
  have "c \<in> set (show_group g) \<Longrightarrow> to_digit 16 c \<noteq> None" for c g
    unfolding show_group_def by (rule show_radix_chars [of 16]) simp_all
  then show ?thesis
    by (auto simp: ip_text_def ipv6_full_str_def ipv6_groups_def list_all_iff simp del: not_None_eq)
qed

lemma mac_text_str: "length addr = 6 \<Longrightarrow> mac_text (mac_str addr)"
proof -
  assume len: "length addr = 6"
  have "hex_byte_text (hex2 b)" for b
  proof -
    have "length (digits_of 16 (unat b)) \<le> 2" using u8_bounds [of b] by (intro length_digits_of) auto
    then have "length (hex2 b) = 2" by (simp add: hex2_def pad_left_def show_radix_digits)
    then show ?thesis using hex2_chars by (auto simp: hex_byte_text_def list_all_iff)
  qed
  with len split_mac_str [of addr] show ?thesis by (auto simp: mac_text_def list_all_iff)
qed

lemma conforms_leaves [simp]:
  "conforms (number_leaf w)" "conforms (leaf R_ip (host_str h))" "conforms (leaf R_proto (proto_str p))"
  "conforms (leaf R_relop (relop_str op'))" "conforms (leaf R_ip (show_ipv4 a))"
  "conforms (leaf R_ip (ipv6_full_str b))" "as_rule (leaf r s) = r" "as_rule (number_leaf w) = R_number"
  "length addr = 6 \<Longrightarrow> conforms (leaf R_mac (mac_str addr))"
        apply (simp_all add: leaf_def number_leaf_def show_dec_number ipv4_text ipv6_text mac_text_str)
    apply (cases h; simp add: ipv4_text ipv6_text)
   apply (cases p; simp add: proto_text_def eq_ignore_ascii_case_def)
  apply (cases op'; simp add: relop_text_def)
  done

lemma conforms_dirs: "x \<in> set (dir_pairs dir) \<Longrightarrow> conforms x"
  by (cases dir) (auto simp: leaf_def direction_text_def eq_ignore_ascii_case_def)

lemma dir_rules: "map as_rule (dir_pairs dir) = [] \<or> map as_rule (dir_pairs dir) = [R_direction]"
  by (cases dir) (auto simp: leaf_def)

lemma conforms_predicate_pairs:
  assumes "valid_ast p" "case p of And _ _ \<Rightarrow> False | Or _ _ \<Rightarrow> False | Not' _ \<Rightarrow> False | _ \<Rightarrow> True"
  shows "conforms (predicate_of p)"
proof (cases p)
  case (Net n dir)
  then show ?thesis using dir_rules [of dir] conforms_dirs [of _ dir]
    by (cases n) (auto simp: predicate_of_def kinds_def)
next
  case (EtherHost addr dir)
  then show ?thesis using dir_rules [of dir] conforms_dirs [of _ dir] assms(1)
    by (auto simp: predicate_of_def kinds_def valid_ast_def)
next
  case (Host h dir)
  then show ?thesis using dir_rules [of dir] conforms_dirs [of _ dir] by (auto simp: predicate_of_def kinds_def)
next
  case (Port h dir)
  then show ?thesis using dir_rules [of dir] conforms_dirs [of _ dir] by (auto simp: predicate_of_def kinds_def)
next
  case (PortRange l h dir)
  then show ?thesis using dir_rules [of dir] conforms_dirs [of _ dir] by (auto simp: predicate_of_def kinds_def)
qed (use assms(2) in \<open>auto simp: predicate_of_def kinds_def len_shape_def to_ascii_lowercase_def Let_def\<close>)

lemma conforms_tree_of: "valid_ast ast \<Longrightarrow> conforms (tree_of ast)"
  by (induction ast)
    (auto simp: expr_of_def not_expr_of_def paren_def leaf_def conforms_predicate_pairs)

section \<open>Chains of operands\<close>

text \<open>Operands with an operator in front of each, or, for conjunctions, possibly none.\<close>

definition or_chain :: "pair \<Rightarrow> pair list \<Rightarrow> pair list" where
  "or_chain op' qs = concat (map (\<lambda>q. [op', q]) qs)"

definition and_chain :: "pair \<Rightarrow> (bool \<times> pair) list \<Rightarrow> pair list" where
  "and_chain op' qs = concat (map (\<lambda>(explicit, q). if explicit then [op', q] else [q]) qs)"

lemma build_or_loop_chain:
  "as_rule op' = R_or_op \<Longrightarrow> list_all2 (\<lambda>q b. build_and oc q = Inr b) qs bs \<Longrightarrow>
   build_or_loop oc left (or_chain op' qs) = Inr (foldl Or left bs)"
proof (induction qs arbitrary: left bs)
  case (Cons q qs)
  then show ?case by (auto simp: or_chain_def list_all2_Cons1)
qed (simp add: or_chain_def)

lemma build_and_loop_chain:
  "as_rule op' = R_and_op \<Longrightarrow>
   list_all2 (\<lambda>(_, q) b. as_rule q \<noteq> R_and_op \<and> build_not oc q = Inr b) qs bs \<Longrightarrow>
   build_and_loop oc left (and_chain op' qs) = Inr (foldl And left bs)"
proof (induction qs arbitrary: left bs)
  case (Cons q qs)
  then show ?case by (cases q) (auto simp: and_chain_def list_all2_Cons1)
qed (simp add: and_chain_def)

section \<open>Networks of a given prefix length\<close>

lemma and_high_mask_eq_iff:
  fixes x a :: "'a::len word"
  shows "x AND NOT (mask n) = a AND NOT (mask n) \<longleftrightarrow> drop_bit n x = drop_bit n a"
proof
  assume *: "x AND NOT (mask n) = a AND NOT (mask n)"
  show "drop_bit n x = drop_bit n a"
  proof (rule bit_word_eqI)
    fix k
    assume "k < LENGTH('a)"
    have "bit (x AND NOT (mask n)) (n + k) = bit (a AND NOT (mask n)) (n + k)" using * by simp
    then show "bit (drop_bit n x) k \<longleftrightarrow> bit (drop_bit n a) k"
      by (auto simp: bit_simps dest: bit_imp_le_length)
  qed
next
  assume *: "drop_bit n x = drop_bit n a"
  show "x AND NOT (mask n) = a AND NOT (mask n)"
  proof (rule bit_word_eqI)
    fix k
    assume "k < LENGTH('a)"
    have "bit (drop_bit n x) (k - n) = bit (drop_bit n a) (k - n)" using * by simp
    then show "bit (x AND NOT (mask n)) k \<longleftrightarrow> bit (a AND NOT (mask n)) k"
      by (auto simp: bit_simps)
  qed
qed

lemma high_mask_eq_iff:
  fixes w a :: "'a::len word"
  shows "w AND NOT (mask n) = a \<longleftrightarrow> take_bit n a = 0 \<and> drop_bit n w = drop_bit n a"
proof -
  have "a AND NOT (mask n) = a \<longleftrightarrow> take_bit n a = 0"
  proof
    assume e: "a AND NOT (mask n) = a"
    have "take_bit n (a AND NOT (mask n)) = 0" by (rule bit_word_eqI) (auto simp: bit_simps)
    then show "take_bit n a = 0" by (metis e)
  next
    assume z: "take_bit n a = 0"
    show "a AND NOT (mask n) = a"
    proof (rule bit_word_eqI)
      fix k assume "k < LENGTH('a)"
      have "bit (take_bit n a) k = False" using z by simp
      then show "bit (a AND NOT (mask n)) k \<longleftrightarrow> bit a k"
        by (auto simp: bit_simps dest: bit_imp_le_length)
    qed
  qed
  then show ?thesis using and_high_mask_eq_iff [of w n a] by (metis and.assoc and.idem)
qed

section \<open>Properties of the parser\<close>

text \<open>
  On every input whose parse tree conforms to the grammar, \<open>parse\<close> ends in one of three ways: a
  valid expression (MAC addresses of six bytes, port ranges in order), an error that is about the
  input (a number out of range, an address that does not parse, a range out of order), or, in
  builds with overflow checks only, an overflow panic. None of the errors about a missing or
  unexpected node can occur.
\<close>

lemma conforming_outcomes:
  assumes "pest_parse input = Inr [f]" "as_rule f = R_filter" "conforms f"
  shows "case parse pest_parse oc input of
           Inr ast \<Rightarrow> valid_ast ast
         | Inl (ParseError e) \<Rightarrow> user_error e
         | Inl OverflowPanic \<Rightarrow> oc"
proof -
  obtain p q where inner: "into_inner f = [p, q]" and p: "as_rule p = R_expr" "conforms p"
    using assms(2,3) by (cases f) auto
  then have parse: "parse pest_parse oc input = build_expr oc p"
    using assms(1) by (simp add: parse_def)
  show ?thesis
    using build_good(1) [OF p(2) p(1), of oc] build_valid [of oc p]
    unfolding parse good_def by (auto split: sum.splits failure.splits)
qed

text \<open>
  The tree builder inverts the shapes of the grammar: every valid expression is written by some conforming
  tree, from which \<open>build_expr\<close> builds exactly that expression, in every build.
\<close>

lemma build_expr_roundtrip:
  assumes "valid_ast ast"
  shows "conforms (tree_of ast) \<and> as_rule (tree_of ast) = R_expr \<and> build_expr oc (tree_of ast) = Inr ast"
  using conforms_tree_of [OF assms] build_tree_of [OF assms] by simp

text \<open>
  Chains of operands associate to the left, with \<open>or\<close> over \<open>and\<close>; a conjunction may leave its
  operator out anywhere in the chain.
\<close>

lemma chains_associate_left:
  assumes "as_rule o1 = R_or_op" "as_rule o2 = R_and_op"
    and "build_and oc p = Inr a" "list_all2 (\<lambda>q b. build_and oc q = Inr b) qs bs"
    and "build_not oc u = Inr c"
    and "list_all2 (\<lambda>(_, q) b. as_rule q \<noteq> R_and_op \<and> build_not oc q = Inr b) vs ds"
  shows "build_or oc (Pair R_or_expr s (p # or_chain o1 qs)) = Inr (foldl Or a bs) \<and>
         build_and oc (Pair R_and_expr s (u # and_chain o2 vs)) = Inr (foldl And c ds)"
  using assms build_or_loop_chain [OF assms(1,4)] build_and_loop_chain [OF assms(2,6)] by simp

end
