(* ===== verification/Predicate_Text.thy ===== *)
theory Predicate_Text
  imports Filter_Pest Filter_Parser_Correct
begin

text \<open>
  Numbers, addresses and predicates as text: what each rule of the grammar below a predicate reads from
  them, and what the tree builder makes of the nodes.
\<close>

section \<open>Evaluating the parser\<close>

abbreviation reads :: "nat \<Rightarrow> bool \<Rightarrow> pexp \<Rightarrow> string \<Rightarrow> peg_result" where
  "reads \<equiv> parses filter_grammar 9"

lemma skip_atomic [simp]: "skip filter_grammar True s = s"
  by (simp add: skip_def)

lemma skip_filter [simp]: "skip filter_grammar False s = dropWhile filter_blank s"
  by (simp add: skip_def filter_grammar_def)

lemma filter_blank_simps [simp]:
  "filter_blank (CHR '' '')" "\<not> filter_blank (CHR '')'')" "\<not> filter_blank (CHR ''('')"
  "\<not> filter_blank (CHR ''o'')" "\<not> filter_blank (CHR ''a'')"
  by (simp_all add: filter_blank_def)

lemma filter_consumes_simps [simp]: "filter_consumes r \<longleftrightarrow> r \<noteq> R_EOI"
  by (simp add: filter_consumes_def)

lemmas peg_parts = filter_peg.parses_Seq filter_peg.parses_Alt filter_peg.parses_Opt

lemma eq_case_Cons [simp]:
  "eq_ignore_ascii_case (c # s) (d # t) \<longleftrightarrow> eq_ignore_ascii_case [c] [d] \<and> eq_ignore_ascii_case s t"
  "eq_ignore_ascii_case s s" "\<not> eq_ignore_ascii_case [] (d # t)" "\<not> eq_ignore_ascii_case (c # s) []"
  by (auto simp: eq_ignore_ascii_case_def to_ascii_lowercase_def)

lemma reads_more_atomic:
  "reps_ok filter_consumes e \<Longrightarrow> consumes filter_consumes e \<Longrightarrow>
     parses_more filter_grammar 9 len True e s = reads len True (Rep e) s"
  by (simp add: filter_peg.parses_Rep filter_peg.parses_more)

lemma reads_Rep_chars:
  assumes "\<And>s. reads len True e s = take_char P s" "reps_ok filter_consumes e" "consumes filter_consumes e"
  shows "reads len True (Rep e) s = Match [] (dropWhile P s)"
proof (induction s)
  case Nil
  then show ?case by (simp add: filter_peg.parses_Rep assms)
next
  case (Cons c s)
  then show ?case by (simp add: filter_peg.parses_Rep [of e] assms reads_more_atomic)
qed

lemma reads_Plus_chars:
  assumes "\<And>s. reads len True e s = take_char P s" "reps_ok filter_consumes e" "consumes filter_consumes e"
    and "u \<noteq> []" "list_all P u" "t = [] \<or> \<not> P (hd t)"
  shows "reads len True (Plus e) (u @ t) = Match [] t"
proof -
  obtain c v where u: "u = c # v" using assms(4) by (cases u) auto
  have "dropWhile P (v @ t) = t"
    using assms(5,6) u by (cases t) (auto simp: list_all_iff dropWhile_append2)
  then show ?thesis
    using assms(2,3,5) u by (simp add: Plus_def filter_peg.parses_Seq assms(1) reads_Rep_chars [OF assms(1-3)])
qed

lemma reads_Plus_fails:
  "(\<And>s. reads len True e s = take_char P s) \<Longrightarrow> reps_ok filter_consumes e \<Longrightarrow> consumes filter_consumes e \<Longrightarrow>
     s = [] \<or> \<not> P (hd s) \<Longrightarrow> reads len True (Plus e) s = NoMatch"
  by (cases s) (simp_all add: Plus_def filter_peg.parses_Seq)

lemma reps_Plus [simp]:
  "reps_ok T (Plus e) \<longleftrightarrow> reps_ok T e \<and> consumes T e" "consumes T (Plus e) \<longleftrightarrow> consumes T e"
  by (auto simp: Plus_def)

lemma reads_rule:
  "reads len (is_atomic filter_grammar r) (rule_body filter_grammar r) (u @ t) = Match ps t \<Longrightarrow>
     reads len False (Ref r) (u @ t) = Match [Pair r u ps] t"
  by (simp add: filter_peg.parses_Ref)

section \<open>Numbers and addresses\<close>

abbreviation is_digit :: "char \<Rightarrow> bool" where "is_digit c \<equiv> to_digit 10 c \<noteq> None"
abbreviation is_hex :: "char \<Rightarrow> bool" where "is_hex c \<equiv> to_digit 16 c \<noteq> None"

text \<open>The text that follows does not go on with a number, or with an address.\<close>

definition no_digit :: "string \<Rightarrow> bool" where
  "no_digit t \<longleftrightarrow> t = [] \<or> \<not> is_digit (hd t)"

definition no_addr :: "string \<Rightarrow> bool" where
  "no_addr t \<longleftrightarrow> t = [] \<or> \<not> is_hex (hd t) \<and> hd t \<noteq> CHR '':'' \<and> hd t \<noteq> CHR ''.''"

lemma reads_digits:
  "u \<noteq> [] \<Longrightarrow> list_all is_digit u \<Longrightarrow> no_digit t \<Longrightarrow> reads len True (Plus Digit) (u @ t) = Match [] t"
  unfolding no_digit_def by (rule reads_Plus_chars [where P = is_digit]; (assumption | simp))

lemma reads_show_dec: "no_digit t \<Longrightarrow> reads len True (Plus Digit) (show_dec n @ t) = Match [] t"
  by (rule reads_digits) (use show_dec_number [of n] in \<open>simp_all add: number_text_def\<close>)

lemma reads_number:
  assumes "no_digit t"
  shows "reads len False (Ref R_number) (show_dec n @ t) = Match [leaf R_number (show_dec n)] t"
  unfolding leaf_def by (rule reads_rule) (simp add: reads_show_dec assms)

lemma no_digit_dot [simp]: "no_digit (CHR ''.'' # t)"
  by (simp add: no_digit_def dot_no_digit)

lemma reads_dotted:
  assumes "list_all number_text [u1, u2, u3, u4]" "no_addr t"
  shows "reads len True (Ref R_ipv4) (join_char (CHR ''.'') [u1, u2, u3, u4] @ t) = Match [] t"
proof -
  have "no_digit t" using assms(2) decimal_is_hex unfolding no_addr_def no_digit_def by blast
  then show ?thesis using assms(1)
    by (simp add: filter_peg.parses_Ref [of _ _ R_ipv4] dotted_def filter_peg.parses_Seq reads_digits number_text_def)
qed

lemma reads_ipv4:
  assumes "no_addr t"
  shows "reads len True (Ref R_ipv4) (show_ipv4 a @ t) = Match [] t"
  unfolding show_ipv4_def ipv4_octets_def using assms by (simp add: reads_dotted show_dec_number del: join_char.simps)

text \<open>An IPv6 address has no dot before its first colon, so it is not read as an IPv4 address.\<close>

lemma derives_dotted:
  assumes "derives filter_grammar True dotted u ps"
  shows "CHR ''.'' \<in> set u \<and> CHR '':'' \<notin> set u"
proof -
  have "CHR '':'' \<notin> set v" if "derives filter_grammar True (Plus Digit) v qs" for v qs
    using derives_Plus_Digit [OF that] separators_no_digit(1) [of 10] by (auto simp: list_all_iff)
  with assms show ?thesis
    by (auto simp: dotted_def derives_simps blanks_def)
qed

lemma reads_ipv6_text:
  assumes "list_all (\<lambda>c. is_hex c \<or> c = CHR '':'') s" "CHR '':'' \<in> set s" "no_addr t"
  shows "reads len True (Ref R_ipv4) (s @ t) = NoMatch" "reads len True (Ref R_ipv6) (s @ t) = Match [] t"
proof -
  let ?P = "\<lambda>c. is_hex c \<or> c = CHR '':''"
  have s: "s \<noteq> []" "CHR ''.'' \<notin> set s"
    using assms(1,2) separators_no_digit(2) [of 16] by (auto simp: list_all_iff)
  have alt: "reads len True (Alt HexDigit (Lit '':'')) v = take_char ?P v" for v
    by (cases v) (simp_all add: filter_peg.parses_Alt)
  have "reads len True (Plus (Alt HexDigit (Lit '':''))) (s @ t) = Match [] t"
    using assms s(1) by (intro reads_Plus_chars [OF alt]) (auto simp: no_addr_def)
  then show "reads len True (Ref R_ipv6) (s @ t) = Match [] t" by (simp add: filter_peg.parses_Ref)
  have "reads len True dotted (s @ t) \<noteq> Match ps v" for ps v
  proof
    assume "reads len True dotted (s @ t) = Match ps v"
    then obtain u where u: "s @ t = u @ v" "derives filter_grammar True dotted u ps"
      using peg_sound(1) unfolding parses_def by blast
    then have "CHR ''.'' \<in> set u" "CHR '':'' \<notin> set u" using derives_dotted by blast+
    with u(1) assms(2) s(2) show False by (auto simp: append_eq_append_conv2)
  qed
  moreover have "reads len True dotted (s @ t) \<noteq> OutOfFuel"
    by (rule filter_peg.parses_ends) (simp add: dotted_def Plus_def)
  ultimately have "reads len True dotted (s @ t) = NoMatch" by (cases "reads len True dotted (s @ t)") auto
  then show "reads len True (Ref R_ipv4) (s @ t) = NoMatch" by (simp add: filter_peg.parses_Ref)
qed

lemma reads_ipv6:
  assumes "no_addr t"
  shows "reads len True (Ref R_ipv4) (ipv6_full_str a @ t) = NoMatch"
    "reads len True (Ref R_ipv6) (ipv6_full_str a @ t) = Match [] t"
proof -
  have group: "list_all is_hex (show_group w)" "show_group w \<noteq> []" for w
    using show_radix_chars [of 16] by (auto simp: show_group_def list_all_iff show_radix_digits)
  have "list_all (\<lambda>c. is_hex c \<or> c = CHR '':'') (ipv6_full_str a)" "CHR '':'' \<in> set (ipv6_full_str a)"
    using group by (auto simp: ipv6_full_str_def ipv6_groups_def list_all_iff)
  from reads_ipv6_text [OF this assms]
  show "reads len True (Ref R_ipv4) (ipv6_full_str a @ t) = NoMatch"
    "reads len True (Ref R_ipv6) (ipv6_full_str a @ t) = Match [] t" by simp_all
qed

lemma reads_host:
  assumes "no_addr t"
  shows "reads len False (Ref R_ip) (host_str h @ t) = Match [leaf R_ip (host_str h)] t"
  unfolding leaf_def using assms
  by (intro reads_rule) (cases h; simp add: filter_peg.parses_Alt reads_ipv4 reads_ipv6)

lemma hex2_pair: "\<exists>c d. hex2 b = [c, d] \<and> is_hex c \<and> is_hex d"
proof -
  have "length (digits_of 16 (unat b)) \<le> 2" using u8_bounds [of b] by (intro length_digits_of) auto
  then have "length (hex2 b) = 2" by (simp add: hex2_def pad_left_def show_radix_digits)
  then obtain c d where "hex2 b = [c, d]" by (auto simp: length_Suc_conv eval_nat_numeral)
  then show ?thesis using hex2_chars [of _ b] by auto
qed

lemma reads_hex2: "reads len True hex_pair (hex2 b @ t) = Match [] t"
  using hex2_pair [of b] by (auto simp: hex_pair_def filter_peg.parses_Seq filter_peg.parses_Opt)

lemma reads_mac:
  assumes "length addr = 6"
  shows "reads len False (Ref R_mac) (mac_str addr @ t) = Match [leaf R_mac (mac_str addr)] t"
proof -
  obtain b1 b2 b3 b4 b5 b6 where "addr = [b1, b2, b3, b4, b5, b6]"
    using assms by (auto simp: length_Suc_conv eval_nat_numeral)
  moreover have "reps_ok filter_consumes hex_pair" by (simp add: hex_pair_def)
  ultimately show ?thesis
    unfolding leaf_def
    by (intro reads_rule) (simp add: colon_pairs_def filter_peg.parses_Seq reads_hex2 mac_str_def)
qed

section \<open>Predicates as text\<close>

fun dir_text :: "Direction \<Rightarrow> string" where
  "dir_text Any = []"
| "dir_text Src = ''src ''"
| "dir_text Dst = ''dst ''"

fun dir_of :: "FilterAst \<Rightarrow> Direction" where
  "dir_of (Host a dir) = dir"
| "dir_of (Port p dir) = dir"
| "dir_of (PortRange lo hi dir) = dir"
| "dir_of (Net n dir) = dir"
| "dir_of _ = Any"

fun net_text :: "NetAddr \<Rightarrow> string" where
  "net_text (NetV4 a m) = host_str (HostV4 a) @ '' mask '' @ host_str (HostV4 m)"
| "net_text (NetV6 a m) = host_str (HostV6 a) @ '' mask '' @ host_str (HostV6 m)"

fun kind_text :: "FilterAst \<Rightarrow> string" where
  "kind_text (Proto p) = proto_str p"
| "kind_text (Host a dir) = ''host '' @ host_str a"
| "kind_text (Port p dir) = ''port '' @ show_dec (unat p)"
| "kind_text (PortRange lo hi dir) = ''portrange '' @ show_dec (unat lo) @ ''-'' @ show_dec (unat hi)"
| "kind_text (Net n dir) = ''net '' @ net_text n"
| "kind_text (Len op' n) = ''len '' @ relop_str op' @ '' '' @ show_dec (unat n)"
| "kind_text (EtherHost addr dir) = ''ether '' @ dir_text dir @ ''host '' @ mac_str addr"
| "kind_text _ = []"

definition predicate_text :: "FilterAst \<Rightarrow> string" where
  "predicate_text p = dir_text (dir_of p) @ kind_text p"

fun is_predicate :: "FilterAst \<Rightarrow> bool" where
  "is_predicate (And l r) \<longleftrightarrow> False"
| "is_predicate (Or l r) \<longleftrightarrow> False"
| "is_predicate (Not' e) \<longleftrightarrow> False"
| "is_predicate _ \<longleftrightarrow> True"

text \<open>What comes after a predicate: the end, a blank or a closing parenthesis.\<close>

definition stops :: "string \<Rightarrow> bool" where
  "stops t \<longleftrightarrow> t = [] \<or> hd t \<in> {CHR '')'', CHR '' ''}"

lemma stops_simps [simp]: "stops (CHR '')'' # t)" "stops (CHR '' '' # t)" "stops []"
  by (simp_all add: stops_def)

lemma stops_cases:
  assumes "stops t"
  obtains "t = []" | u where "t = CHR '')'' # u" | u where "t = CHR '' '' # u"
  using assms by (cases t) (auto simp: stops_def)

lemma char_no_digit [simp]:
  "to_digit 10 (CHR '')'') = None" "to_digit 16 (CHR '')'') = None" "to_digit 16 (CHR '' '') = None"
  "to_digit 10 (CHR ''-'') = None" "to_digit 10 (CHR '' '') = None"
  by (simp_all add: to_digit_def Let_def)

lemma stops_no [simp]: "stops t \<Longrightarrow> no_digit t" "stops t \<Longrightarrow> no_addr t"
  "no_addr (CHR '' '' # t)" "no_digit (CHR ''-'' # t)"
  by (auto simp: no_digit_def no_addr_def elim!: stops_cases)

lemma hex_not_blank: "is_hex c \<Longrightarrow> \<not> filter_blank c"
  by (auto simp: filter_blank_def to_digit_def Let_def)

lemma not_blank_append: "u \<noteq> [] \<Longrightarrow> \<not> filter_blank (hd u) \<Longrightarrow> dropWhile filter_blank (u @ t) = u @ t"
  by (cases u) auto

lemma show_dec_not_blank [simp]: "dropWhile filter_blank (show_dec n @ t) = show_dec n @ t"
proof (rule not_blank_append)
  show "show_dec n \<noteq> []" using show_dec_number [of n] by (simp add: number_text_def)
  then show "\<not> filter_blank (hd (show_dec n))"
    using show_dec_number [of n] decimal_is_hex hex_not_blank by (cases "show_dec n") (auto simp: number_text_def)
qed

lemma host_not_blank [simp]: "dropWhile filter_blank (host_str h @ t) = host_str h @ t"
proof (rule not_blank_append)
  have ip: "ip_text (host_str h)" using ipv4_text ipv6_text by (cases h) simp_all
  then show "host_str h \<noteq> []" by (simp add: ip_text_def)
  with ip show "\<not> filter_blank (hd (host_str h))"
    using hex_not_blank by (cases "host_str h") (auto simp: ip_text_def filter_blank_def)
qed

lemma mac_not_blank [simp]:
  assumes "length addr = 6"
  shows "dropWhile filter_blank (mac_str addr @ t) = mac_str addr @ t"
proof -
  obtain b bs where "addr = b # bs" using assms by (cases addr) auto
  then show ?thesis using hex2_pair [of b] hex_not_blank by (cases bs) (auto simp: mac_str_def)
qed

lemmas kind_simps = peg_parts filter_peg.parses_Ref [of _ _ R_proto] filter_peg.parses_Ref [of _ _ R_host]
  filter_peg.parses_Ref [of _ _ R_port] filter_peg.parses_Ref [of _ _ R_portrange]
  filter_peg.parses_Ref [of _ _ R_net] filter_peg.parses_Ref [of _ _ R_len_expr]
  filter_peg.parses_Ref [of _ _ R_ether_host]

lemma reads_proto:
  assumes "stops t"
  shows "reads len False (Ref R_proto) (proto_str p @ t) = Match [leaf R_proto (proto_str p)] t"
  unfolding leaf_def using assms
  by (intro reads_rule) (cases p; auto simp: peg_parts eq_ignore_ascii_case_def to_ascii_lowercase_def elim!: stops_cases)

definition kind_alts :: pexp where
  "kind_alts = alts [Ref R_proto, Ref R_host, Ref R_port, Ref R_portrange, Ref R_net, Ref R_len_expr, Ref R_ether_host]"

lemmas keyword_simps = eq_ignore_ascii_case_def to_ascii_lowercase_def filter_blank_def

text \<open>A text that starts with the keyword of one kind is not of any kind tried before it.\<close>

lemma other_keyword:
  "reads len False (Ref R_proto) (''host '' @ s) = NoMatch"
  "reads len False (Ref R_proto) (''port'' @ s) = NoMatch" "reads len False (Ref R_host) (''port'' @ s) = NoMatch"
  "reads len False (Ref R_port) (''portrange '' @ s) = NoMatch"
  "reads len False (Ref R_proto) (''net '' @ s) = NoMatch" "reads len False (Ref R_host) (''net '' @ s) = NoMatch"
  "reads len False (Ref R_port) (''net '' @ s) = NoMatch" "reads len False (Ref R_portrange) (''net '' @ s) = NoMatch"
  by (simp_all add: kind_simps keyword_simps filter_peg.parses_Ref [of _ _ R_number] Plus_def to_digit_def Let_def)

lemma other_keyword_len:
  "reads len False (Ref R_proto) (''len '' @ s) = NoMatch" "reads len False (Ref R_host) (''len '' @ s) = NoMatch"
  "reads len False (Ref R_port) (''len '' @ s) = NoMatch" "reads len False (Ref R_portrange) (''len '' @ s) = NoMatch"
  "reads len False (Ref R_net) (''len '' @ s) = NoMatch"
  by (simp_all add: kind_simps keyword_simps)

lemma other_keyword_ether:
  "reads len False (Ref R_proto) (''ether '' @ s) = NoMatch" "reads len False (Ref R_host) (''ether '' @ s) = NoMatch"
  "reads len False (Ref R_port) (''ether '' @ s) = NoMatch" "reads len False (Ref R_portrange) (''ether '' @ s) = NoMatch"
  "reads len False (Ref R_net) (''ether '' @ s) = NoMatch" "reads len False (Ref R_len_expr) (''ether '' @ s) = NoMatch"
  by (simp_all add: kind_simps keyword_simps)

lemma reads_kind_host:
  assumes "no_addr t"
  shows "reads len False (Ref R_host) ((''host '' @ host_str a) @ t) =
    Match [Pair R_host (''host '' @ host_str a) [leaf R_ip (host_str a)]] t"
  by (rule reads_rule) (simp add: peg_parts reads_host assms keyword_simps)

lemma reads_kind_port:
  assumes "no_digit t"
  shows "reads len False (Ref R_port) ((''port '' @ show_dec n) @ t) =
    Match [Pair R_port (''port '' @ show_dec n) [leaf R_number (show_dec n)]] t"
  by (rule reads_rule) (simp add: peg_parts reads_number assms keyword_simps)

lemma reads_kind_portrange:
  assumes "no_digit t"
  shows "reads len False (Ref R_portrange) ((''portrange '' @ show_dec lo @ ''-'' @ show_dec hi) @ t) =
    Match [Pair R_portrange (''portrange '' @ show_dec lo @ ''-'' @ show_dec hi)
      [leaf R_number (show_dec lo), leaf R_number (show_dec hi)]] t"
  by (rule reads_rule) (simp add: peg_parts reads_number assms keyword_simps)

lemma reads_netmask:
  assumes "no_addr t"
  shows "reads len False (Ref R_netmask) ((''mask '' @ host_str m) @ t) =
    Match [Pair R_netmask (''mask '' @ host_str m) [leaf R_ip (host_str m)]] t"
  by (rule reads_rule) (simp add: peg_parts reads_host assms keyword_simps)

lemma reads_kind_net:
  assumes "no_addr t"
  shows "reads len False (Ref R_net) ((''net '' @ host_str a @ '' mask '' @ host_str m) @ t) =
    Match [Pair R_net (''net '' @ host_str a @ '' mask '' @ host_str m)
      [leaf R_ip (host_str a), Pair R_netmask (''mask '' @ host_str m) [leaf R_ip (host_str m)]]] t"
  using reads_netmask [OF assms, of len m]
  by (intro reads_rule) (simp add: peg_parts reads_host keyword_simps)

lemma reads_relop:
  "reads len False (Ref R_relop) (relop_str op' @ CHR '' '' # t) = Match [leaf R_relop (relop_str op')] (CHR '' '' # t)"
  unfolding leaf_def by (rule reads_rule) (cases op'; simp add: peg_parts)

lemma relop_not_blank [simp]: "dropWhile filter_blank (relop_str op' @ t) = relop_str op' @ t"
  by (cases op') (simp_all add: filter_blank_def)

lemma reads_kind_len:
  assumes "no_digit t"
  shows "reads len False (Ref R_len_expr) ((''len '' @ relop_str op' @ '' '' @ show_dec n) @ t) =
    Match [Pair R_len_expr (''len '' @ relop_str op' @ '' '' @ show_dec n)
      [leaf R_relop (relop_str op'), leaf R_number (show_dec n)]] t"
  by (rule reads_rule) (simp add: peg_parts reads_number reads_relop assms keyword_simps)

lemma reads_direction:
  "reads len False (Ref R_direction) (''src'' @ t) = Match [leaf R_direction ''src''] t"
  "reads len False (Ref R_direction) (''dst'' @ t) = Match [leaf R_direction ''dst''] t"
  unfolding leaf_def by (rule reads_rule; simp add: peg_parts keyword_simps)+

lemma no_direction:
  "c \<in> {CHR ''h'', CHR ''p'', CHR ''n'', CHR ''l'', CHR ''e'', CHR ''('', CHR '')'', CHR ''i'', CHR ''t'', CHR ''u'',
     CHR ''a'', CHR ''r'', CHR ''o''} \<Longrightarrow>
   reads len False (Ref R_direction) (c # s) = NoMatch"
  by (auto simp: filter_peg.parses_Ref [of _ _ R_direction] peg_parts keyword_simps)

lemma reads_kind_ether:
  assumes "length addr = 6"
  shows "reads len False (Ref R_ether_host) ((''ether '' @ dir_text dir @ ''host '' @ mac_str addr) @ t) =
    Match [Pair R_ether_host (''ether '' @ dir_text dir @ ''host '' @ mac_str addr)
      (dir_pairs dir @ [leaf R_mac (mac_str addr)])] t"
  using reads_direction [of len "CHR '' '' # ''host '' @ mac_str addr @ t"]
  by (intro reads_rule) (cases dir; simp add: peg_parts reads_mac assms keyword_simps no_direction)

text \<open>The node of a predicate's kind, and what the builder makes of it.\<close>

lemma reads_kinds:
  assumes "is_predicate p" "valid_ast p" "stops t"
  shows "\<exists>q. reads len False kind_alts (kind_text p @ t) = Match [q] t \<and> as_rule q \<noteq> R_direction \<and>
    build_kind oc (dir_of p) q = Inr p"
proof (cases p)
  case (Proto x)
  then show ?thesis using reads_proto [OF assms(3)]
    by (simp add: kind_alts_def peg_parts build_kinds)
next
  case (Host a dir)
  then show ?thesis
    using reads_kind_host [of t len a] other_keyword(1) [of len "host_str a @ t"] assms(3)
    by (simp add: kind_alts_def filter_peg.parses_Alt build_kinds)
next
  case (Port x dir)
  then show ?thesis
    using reads_kind_port [of t len "unat x"] other_keyword(2,3) [of len "'' '' @ show_dec (unat x) @ t"] assms(3)
    by (simp add: kind_alts_def filter_peg.parses_Alt build_kinds)
next
  case (PortRange lo hi dir)
  then show ?thesis
    using reads_kind_portrange [of t len "unat lo" "unat hi"]
      other_keyword(2,3) [of len "''range '' @ show_dec (unat lo) @ ''-'' @ show_dec (unat hi) @ t"]
      other_keyword(4) [of len "show_dec (unat lo) @ ''-'' @ show_dec (unat hi) @ t"] assms(2,3)
    by (simp add: kind_alts_def filter_peg.parses_Alt build_kinds valid_ast_def leD)
next
  case (Net n dir)
  obtain a m where n: "net_text n = host_str a @ '' mask '' @ host_str m"
    "net_pairs n = [leaf R_ip (host_str a), Pair R_netmask [] [leaf R_ip (host_str m)]]"
  proof (cases n)
    case (NetV4 x y)
    then show ?thesis by (intro that [of "HostV4 x" "HostV4 y"]) simp_all
  next
    case (NetV6 x y)
    then show ?thesis by (intro that [of "HostV6 x" "HostV6 y"]) simp_all
  qed
  let ?net = "Pair R_net (''net '' @ host_str a @ '' mask '' @ host_str m)
    [leaf R_ip (host_str a), Pair R_netmask (''mask '' @ host_str m) [leaf R_ip (host_str m)]]"
  have "parse_net oc ?net = parse_net oc (Pair R_net [] (net_pairs n))"
    by (simp add: n(2) parse_net_def parse_netmask_def)
  then have "build_kind oc dir ?net = Inr p" using Net by (simp add: build_kind_def parse_net_pairs)
  then show ?thesis
    using reads_kind_net [of t len a m] other_keyword(5-8) [of len "host_str a @ '' mask '' @ host_str m @ t"]
      assms(3) Net n(1)
    by (simp add: kind_alts_def filter_peg.parses_Alt)
next
  case (Len op' n)
  then show ?thesis
    using reads_kind_len [of t len op' "unat n"]
      other_keyword_len [of len "relop_str op' @ '' '' @ show_dec (unat n) @ t"] assms(3)
    by (simp add: kind_alts_def filter_peg.parses_Alt build_kinds keyword_expr_def keyword_simps Let_def)
next
  case (EtherHost addr dir)
  then have "length addr = 6" using assms(2) by (simp add: valid_ast_def)
  then show ?thesis
    using EtherHost reads_kind_ether [of addr len dir t]
      other_keyword_ether [of len "dir_text dir @ ''host '' @ mac_str addr @ t"]
    by (cases dir) (simp_all add: kind_alts_def filter_peg.parses_Alt build_kind_def build_ether_host_def leaf_def
      parse_mac_str parse_direction_str)
qed (use assms(1) in simp_all)

lemma kind_text_not_blank:
  assumes "is_predicate p"
  shows "\<exists>c u. kind_text p = c # u \<and> \<not> filter_blank c \<and> (\<forall>s. reads len False (Ref R_direction) (c # s) = NoMatch)"
proof (cases p)
  case (Proto x)
  then show ?thesis by (cases x) (simp_all add: filter_blank_def no_direction)
qed (use assms in \<open>simp_all add: filter_blank_def no_direction\<close>)

text \<open>A kind with the direction in front of it.\<close>

lemma reads_directed:
  assumes "reads len False kind_alts (k @ t) = Match [q] t" "k = c # u" "\<not> filter_blank c"
    and "\<And>s. reads len False (Ref R_direction) (c # s) = NoMatch"
  shows "reads len False (Ref R_predicate) ((dir_text dir @ k) @ t) =
    Match [Pair R_predicate (dir_text dir @ k) (dir_pairs dir @ [q])] t"
proof -
  have body: "rule_body filter_grammar R_predicate = Seq (Opt (Ref R_direction)) kind_alts"
    by (simp add: kind_alts_def)
  have reps: "reps_ok filter_consumes kind_alts" by (simp add: kind_alts_def)
  have "reads len False (rule_body filter_grammar R_predicate) ((dir_text dir @ k) @ t) =
      Match (dir_pairs dir @ [q]) t"
    unfolding body using assms reps reads_direction [of len "CHR '' '' # c # u @ t"]
    by (cases dir) (simp_all add: filter_peg.parses_Seq filter_peg.parses_Opt)
  then show ?thesis by (intro reads_rule) simp
qed

lemma reads_predicate:
  assumes "is_predicate p" "valid_ast p" "stops t"
  shows "\<exists>q. reads len False (Ref R_predicate) (predicate_text p @ t) = Match [q] t \<and>
    as_rule q = R_predicate \<and> build_predicate oc q = Inr p"
proof -
  obtain q where q: "reads len False kind_alts (kind_text p @ t) = Match [q] t" "as_rule q \<noteq> R_direction"
    "build_kind oc (dir_of p) q = Inr p"
    using reads_kinds [OF assms] by blast
  obtain c u where c: "kind_text p = c # u" "\<not> filter_blank c" "reads len False (Ref R_direction) (c # s) = NoMatch" for s
    using kind_text_not_blank [OF assms(1)] by blast
  from reads_directed [OF q(1) c(1,2), of "dir_of p"] c(3)
  have "reads len False (Ref R_predicate) (predicate_text p @ t) =
      Match [Pair R_predicate (predicate_text p) (dir_pairs (dir_of p) @ [q])] t"
    by (simp add: predicate_text_def)
  then show ?thesis using build_predicate_dir [OF q(2)] q(3) by simp
qed

end
