(* ===== verification/Filter_Text.thy ===== *)
theory Filter_Text
  imports Predicate_Text
begin

text \<open>
  Filter expressions as text: every valid expression is written by \<open>filter_text\<close>, and the grammar's parser
  followed by the tree builder reads that text as exactly the expression. On every text at all the parser
  ends, with an expression or an error that is about the text.
\<close>

section \<open>What cannot start an operand\<close>

definition no_start :: "string \<Rightarrow> bool" where
  "no_start s \<longleftrightarrow> s = [] \<or> hd s \<in> {CHR '')'', CHR ''('', CHR ''o'', CHR ''|''}"

lemma no_start_induct [consumes 1]:
  assumes "no_start s" "P []" "\<And>u. P (CHR '')'' # u)" "\<And>u. P (CHR ''('' # u)" "\<And>u. P (CHR ''o'' # u)"
    "\<And>u. P (CHR ''|'' # u)"
  shows "P s"
  using assms by (cases s) (auto simp: no_start_def)

lemma no_kind_rule:
  assumes "no_start s"
  shows "reads len False (Ref R_proto) s = NoMatch" "reads len False (Ref R_host) s = NoMatch"
    "reads len False (Ref R_port) s = NoMatch" "reads len False (Ref R_portrange) s = NoMatch"
    "reads len False (Ref R_net) s = NoMatch" "reads len False (Ref R_len_expr) s = NoMatch"
    "reads len False (Ref R_ether_host) s = NoMatch"
  using assms by (induction s rule: no_start_induct) (simp_all add: kind_simps keyword_simps)

lemma no_predicate:
  assumes "no_start s"
  shows "reads len False (Ref R_predicate) s = NoMatch"
proof -
  have "reads len False (Ref R_direction) s = NoMatch" "dropWhile filter_blank s = s"
    using assms by (induction s rule: no_start_induct)
      (simp_all add: no_direction filter_peg.parses_Ref [of _ _ R_direction] peg_parts keyword_simps)
  then show ?thesis
    by (simp add: filter_peg.parses_Ref [of _ _ R_predicate] filter_peg.parses_Seq filter_peg.parses_Opt
      filter_peg.parses_Alt no_kind_rule [OF assms])
qed

text \<open>After an operand that is the last: the end, a closing parenthesis, or a sign of \<open>or\<close>.\<close>

definition no_more :: "string \<Rightarrow> bool" where
  "no_more s \<longleftrightarrow> s = [] \<or> hd s \<in> {CHR '')'', CHR ''o'', CHR ''|''}"

definition ends :: "string \<Rightarrow> bool" where
  "ends s \<longleftrightarrow> s = [] \<or> hd s = CHR '')''"

lemma ends_simps [simp]: "ends (CHR '')'' # s)" "ends []"
  by (simp_all add: ends_def)

lemma no_more_induct [consumes 1]:
  assumes "no_more s" "P []" "\<And>u. P (CHR '')'' # u)" "\<And>u. P (CHR ''o'' # u)" "\<And>u. P (CHR ''|'' # u)"
  shows "P s"
  using assms by (cases s) (auto simp: no_more_def)

lemma no_more_simps [simp]:
  "ends s \<Longrightarrow> no_more s" "no_more (CHR ''o'' # s)" "no_more (CHR ''|'' # s)" "no_more s \<Longrightarrow> no_start s" "no_start (CHR ''('' # s)"
  "ends s \<Longrightarrow> stops s"
  by (auto simp: no_more_def ends_def no_start_def stops_def)

lemma no_more_blank [simp]: "no_more s \<Longrightarrow> dropWhile filter_blank s = s"
  by (induction s rule: no_more_induct) (simp_all add: filter_blank_def)

lemma no_keyword:
  assumes "no_start s"
  shows "reads len False (Ref R_not_op) s = NoMatch" "reads len False (Ref R_and_op) s = NoMatch"
  using assms by (induction s rule: no_start_induct)
    (simp_all add: filter_peg.parses_Ref [of _ _ R_not_op] filter_peg.parses_Ref [of _ _ R_and_op] peg_parts keyword_simps)

lemma no_primary: "no_more s \<Longrightarrow> reads len False (Ref R_primary) s = NoMatch"
  by (induction s rule: no_more_induct)
    (simp_all add: filter_peg.parses_Ref [of _ _ R_primary] peg_parts no_predicate no_start_def)

lemma no_operand: "no_more s \<Longrightarrow> reads len False (Ref R_not_expr) s = NoMatch"
  by (simp add: filter_peg.parses_Ref [of _ _ R_not_expr] peg_parts no_primary no_keyword)

lemma no_operator: "ends s \<Longrightarrow> reads len False (Ref R_or_op) s = NoMatch"
  by (cases s) (auto simp: ends_def filter_peg.parses_Ref [of _ _ R_or_op] peg_parts keyword_simps)

lemma predicate_no_not:
  assumes "is_predicate p"
  shows "reads len False (Ref R_not_op) (predicate_text p @ t) = NoMatch"
proof (cases "dir_of p")
  case Any
  show ?thesis
  proof (cases p)
    case (Proto x)
    then show ?thesis
      by (cases x) (simp_all add: predicate_text_def filter_peg.parses_Ref [of _ _ R_not_op] keyword_simps)
  qed (use assms Any in \<open>simp_all add: predicate_text_def filter_peg.parses_Ref [of _ _ R_not_op] keyword_simps\<close>)
qed (simp_all add: predicate_text_def filter_peg.parses_Ref [of _ _ R_not_op] keyword_simps)

section \<open>Chains\<close>

text \<open>
  \<open>chain e step len s qs t\<close>: reading \<open>e ~ step*\<close> from \<open>s\<close>, some rounds have made the nodes \<open>qs\<close> and \<open>t\<close> is
  left for the rounds that may follow.
\<close>

definition goes_on :: "pexp \<Rightarrow> nat \<Rightarrow> (string \<Rightarrow> peg_result) \<Rightarrow> bool" where
  "goes_on step len f \<longleftrightarrow>
     f = parses_more filter_grammar 9 len False step \<or>
     f = (\<lambda>s. reads len False (Rep step) (dropWhile filter_blank s))"

definition chain :: "pexp \<Rightarrow> pexp \<Rightarrow> nat \<Rightarrow> string \<Rightarrow> pair list \<Rightarrow> string \<Rightarrow> bool" where
  "chain e step len s qs t \<longleftrightarrow>
     (\<exists>f. goes_on step len f \<and> reads len False (Seq e (Rep step)) s = and_match (Match qs t) f)"

locale repeated =
  fixes e step :: pexp
  assumes ok: "reps_ok filter_consumes e" "reps_ok filter_consumes step" "consumes filter_consumes step"
begin

lemma chain_first: "reads len False e s = Match qs t \<Longrightarrow> chain e step len s qs t"
  using ok by (auto simp: chain_def goes_on_def filter_peg.parses_Seq)

lemma goes_on_step:
  assumes "goes_on step len f" "reads len False step (dropWhile filter_blank t) = Match ps u"
  shows "f t = and_match (Match ps u) (parses_more filter_grammar 9 len False step)"
  using assms ok by (auto simp: goes_on_def filter_peg.parses_Rep filter_peg.parses_more [of step _ _ t])

lemma chain_step:
  assumes "chain e step len s qs t" "reads len False step (dropWhile filter_blank t) = Match ps u"
  shows "chain e step len s (qs @ ps) u"
proof -
  obtain f where f: "goes_on step len f" "reads len False (Seq e (Rep step)) s = and_match (Match qs t) f"
    using assms(1) by (auto simp: chain_def)
  from f(2) goes_on_step [OF f(1) assms(2)]
  have "reads len False (Seq e (Rep step)) s =
      and_match (Match (qs @ ps) u) (parses_more filter_grammar 9 len False step)"
    by (simp split: peg_result.split)
  then show ?thesis unfolding chain_def goes_on_def by blast
qed

lemma chain_end:
  assumes "chain e step len s qs t" "reads len False step (dropWhile filter_blank t) = NoMatch"
  shows "\<exists>u. reads len False (Seq e (Rep step)) s = Match qs u \<and> (u = t \<or> u = dropWhile filter_blank t)"
  using assms ok
  by (auto simp: chain_def goes_on_def filter_peg.parses_Rep filter_peg.parses_more [of step _ _ t])

end

definition and_step :: pexp where
  "and_step = Seq (Opt (Ref R_and_op)) (Ref R_not_expr)"

definition or_step :: pexp where
  "or_step = Seq (Ref R_or_op) (Ref R_and_expr)"

interpretation conjuncts: repeated "Ref R_not_expr" and_step
  by unfold_locales (simp_all add: and_step_def)

interpretation disjuncts: repeated "Ref R_and_expr" or_step
  by unfold_locales (simp_all add: or_step_def)

section \<open>What each rule reads\<close>

text \<open>
  Before \<open>t\<close>, the text \<open>v\<close> is read as a primary, an operand, the first operands of a conjunction or of a
  disjunction, or a whole expression, and its nodes stand for \<open>e\<close>.
\<close>

definition primary :: "bool \<Rightarrow> nat \<Rightarrow> string \<Rightarrow> FilterAst \<Rightarrow> string \<Rightarrow> bool" where
  "primary oc len v e t \<longleftrightarrow>
     (\<exists>q. reads len False (Ref R_primary) (v @ t) = Match [q] t \<and> as_rule q = R_primary \<and> build_primary oc q = Inr e)"

definition operand :: "bool \<Rightarrow> nat \<Rightarrow> string \<Rightarrow> FilterAst \<Rightarrow> string \<Rightarrow> bool" where
  "operand oc len v e t \<longleftrightarrow>
     (\<exists>q. reads len False (Ref R_not_expr) (v @ t) = Match [q] t \<and> as_rule q = R_not_expr \<and> build_not oc q = Inr e)"

definition and_run :: "bool \<Rightarrow> nat \<Rightarrow> string \<Rightarrow> FilterAst \<Rightarrow> string \<Rightarrow> bool" where
  "and_run oc len v e t \<longleftrightarrow>
     (\<exists>qs. chain (Ref R_not_expr) and_step len (v @ t) qs t \<and>
        (\<forall>s ps. build_and oc (Pair R_and_expr s (qs @ ps)) = build_and_loop oc e ps))"

definition or_run :: "bool \<Rightarrow> nat \<Rightarrow> string \<Rightarrow> FilterAst \<Rightarrow> string \<Rightarrow> bool" where
  "or_run oc len v e t \<longleftrightarrow>
     (\<exists>qs u. chain (Ref R_and_expr) or_step len (v @ t) qs u \<and> (u = t \<or> u = dropWhile filter_blank t) \<and>
        (\<forall>s ps. build_or oc (Pair R_or_expr s (qs @ ps)) = build_or_loop oc e ps))"

definition expression :: "bool \<Rightarrow> nat \<Rightarrow> string \<Rightarrow> FilterAst \<Rightarrow> string \<Rightarrow> bool" where
  "expression oc len v e t \<longleftrightarrow>
     (\<exists>q. reads len False (Ref R_expr) (v @ t) = Match [q] t \<and> as_rule q = R_expr \<and> build_expr oc q = Inr e)"

lemma primary_predicate:
  assumes "is_predicate p" "valid_ast p" "stops t"
  shows "primary oc len (predicate_text p) p t"
proof -
  obtain q where q: "reads len False (Ref R_predicate) (predicate_text p @ t) = Match [q] t"
    "as_rule q = R_predicate" "build_predicate oc q = Inr p"
    using reads_predicate [OF assms] by blast
  have "reads len False (Ref R_primary) (predicate_text p @ t) = Match [Pair R_primary (predicate_text p) [q]] t"
    by (rule reads_rule) (simp add: filter_peg.parses_Alt q(1))
  then show ?thesis by (simp add: primary_def q)
qed

lemma primary_parens:
  assumes "expression oc len v e ('')'' @ t)" "\<And>s. dropWhile filter_blank (v @ s) = v @ s"
  shows "primary oc len (''('' @ v @ '')'') e t"
proof -
  obtain q where q: "reads len False (Ref R_expr) (v @ '')'' @ t) = Match [q] ('')'' @ t)"
    "as_rule q = R_expr" "build_expr oc q = Inr e"
    using assms(1) by (auto simp: expression_def)
  have "reads len False (Ref R_primary) ((''('' @ v @ '')'') @ t) = Match [Pair R_primary (''('' @ v @ '')'') [q]] t"
    using q(1) assms(2) by (intro reads_rule)
      (simp add: filter_peg.parses_Alt filter_peg.parses_Seq no_predicate no_start_def)
  then show ?thesis by (simp add: primary_def q)
qed

lemma operand_primary:
  assumes "primary oc len v e t" "reads len False (Ref R_not_op) (v @ t) = NoMatch"
  shows "operand oc len v e t"
proof -
  obtain q where q: "reads len False (Ref R_primary) (v @ t) = Match [q] t" "as_rule q = R_primary"
    "build_primary oc q = Inr e"
    using assms(1) by (auto simp: primary_def)
  have "reads len False (Ref R_not_expr) (v @ t) = Match [Pair R_not_expr v [q]] t"
    using q(1) assms(2) by (intro reads_rule) (simp add: filter_peg.parses_Alt filter_peg.parses_Seq)
  then show ?thesis by (simp add: operand_def q)
qed

lemma operand_not:
  assumes "primary oc len v e t" "dropWhile filter_blank (v @ t) = v @ t"
  shows "operand oc len (''not '' @ v) (Not' e) t"
proof -
  obtain q where q: "reads len False (Ref R_primary) (v @ t) = Match [q] t" "as_rule q = R_primary"
    "build_primary oc q = Inr e"
    using assms(1) by (auto simp: primary_def)
  have "reads len False (Ref R_not_op) (''not'' @ '' '' @ v @ t) = Match [leaf R_not_op ''not''] ('' '' @ v @ t)"
    unfolding leaf_def by (rule reads_rule) simp
  then have "reads len False (Ref R_not_expr) ((''not '' @ v) @ t) =
      Match [Pair R_not_expr (''not '' @ v) [leaf R_not_op ''not'', q]] t"
    using q(1) assms(2) by (intro reads_rule) (simp add: filter_peg.parses_Alt filter_peg.parses_Seq)
  then show ?thesis by (simp add: operand_def q)
qed

lemma and_run_first:
  assumes "operand oc len v e t"
  shows "and_run oc len v e t"
proof -
  obtain q where q: "reads len False (Ref R_not_expr) (v @ t) = Match [q] t" "build_not oc q = Inr e"
    using assms by (auto simp: operand_def)
  show ?thesis unfolding and_run_def
    using conjuncts.chain_first [OF q(1)] by (intro exI [of _ "[q]"]) (simp add: q(2))
qed

text \<open>Between two operands: a blank, or one of the operators with blanks around it.\<close>

definition and_words :: "string list" where
  "and_words = ['' '', '' and '', '' && '']"

definition or_words :: "string list" where
  "or_words = ['' or '', '' || '']"

definition no_and :: "string \<Rightarrow> bool" where
  "no_and v \<longleftrightarrow> (\<forall>len t. reads len False (Ref R_and_op) (v @ t) = NoMatch)"

definition starts_text :: "string \<Rightarrow> bool" where
  "starts_text v \<longleftrightarrow> (\<exists>c u. v = c # u \<and> \<not> filter_blank c)"

lemma starts_text_blank: "starts_text v \<Longrightarrow> dropWhile filter_blank (v @ t) = v @ t"
  by (auto simp: starts_text_def)

lemma reads_and_word:
  assumes "w \<in> set and_words" "no_and v" "starts_text v"
  shows "\<exists>ops u. reads len False (Opt (Ref R_and_op)) (dropWhile filter_blank (w @ v @ t)) = Match ops u \<and>
    dropWhile filter_blank u = v @ t \<and> (ops = [] \<or> (\<exists>p. ops = [p] \<and> as_rule p = R_and_op))"
proof -
  note v = starts_text_blank [OF assms(3)]
  have "reads len False (Ref R_and_op) (''and'' @ '' '' @ v @ t) = Match [leaf R_and_op ''and''] ('' '' @ v @ t)"
    "reads len False (Ref R_and_op) (''&&'' @ '' '' @ v @ t) = Match [leaf R_and_op ''&&''] ('' '' @ v @ t)"
    unfolding leaf_def by (rule reads_rule; simp add: peg_parts keyword_simps)+
  with assms(1,2) v show ?thesis
    by (auto simp: and_words_def no_and_def peg_parts filter_blank_def)
qed

lemma and_run_step:
  assumes "and_run oc len v1 e1 (w @ v2 @ t)" "operand oc len v2 e2 t"
    and "w \<in> set and_words" "no_and v2" "starts_text v2"
  shows "and_run oc len (v1 @ w @ v2) (And e1 e2) t"
proof -
  obtain qs where qs: "chain (Ref R_not_expr) and_step len (v1 @ w @ v2 @ t) qs (w @ v2 @ t)"
    "\<And>s ps. build_and oc (Pair R_and_expr s (qs @ ps)) = build_and_loop oc e1 ps"
    using assms(1) unfolding and_run_def by blast
  obtain q where q: "reads len False (Ref R_not_expr) (v2 @ t) = Match [q] t" "as_rule q = R_not_expr"
    "build_not oc q = Inr e2"
    using assms(2) by (auto simp: operand_def)
  obtain ops u where ops: "reads len False (Opt (Ref R_and_op)) (dropWhile filter_blank (w @ v2 @ t)) = Match ops u"
    "dropWhile filter_blank u = v2 @ t" "ops = [] \<or> (\<exists>p. ops = [p] \<and> as_rule p = R_and_op)"
    using reads_and_word [OF assms(3-5)] by blast
  have "reads len False and_step (dropWhile filter_blank (w @ v2 @ t)) = Match (ops @ [q]) t"
    using ops(1,2) q(1) by (simp add: and_step_def filter_peg.parses_Seq)
  from conjuncts.chain_step [OF qs(1) this] show ?thesis unfolding and_run_def
    using ops(3) by (intro exI [of _ "qs @ ops @ [q]"]) (auto simp: qs(2) q(2,3) simp del: build_and.simps)
qed

lemma and_run_end:
  assumes "and_run oc len v e t" "no_more (dropWhile filter_blank t)"
  shows "\<exists>q u. reads len False (Ref R_and_expr) (v @ t) = Match [q] u \<and>
    (u = t \<or> u = dropWhile filter_blank t) \<and> build_and oc q = Inr e"
proof -
  obtain qs where qs: "chain (Ref R_not_expr) and_step len (v @ t) qs t"
    "\<And>s ps. build_and oc (Pair R_and_expr s (qs @ ps)) = build_and_loop oc e ps"
    using assms(1) unfolding and_run_def by blast
  have "reads len False and_step (dropWhile filter_blank t) = NoMatch"
    using assms(2) by (simp add: and_step_def peg_parts no_keyword no_operand)
  from conjuncts.chain_end [OF qs(1) this] qs(2) [of _ "[]"] show ?thesis
    by (auto simp: filter_peg.parses_Ref [of _ _ R_and_expr] and_step_def)
qed

lemma or_run_first:
  assumes "and_run oc len v e t" "no_more (dropWhile filter_blank t)"
  shows "or_run oc len v e t"
proof -
  obtain q u where q: "reads len False (Ref R_and_expr) (v @ t) = Match [q] u"
    "u = t \<or> u = dropWhile filter_blank t" "build_and oc q = Inr e"
    using and_run_end [OF assms] by blast
  show ?thesis unfolding or_run_def
    using disjuncts.chain_first [OF q(1)] q(2) by (intro exI [of _ "[q]"] exI [of _ u]) (simp add: q(3))
qed

lemma reads_or_word:
  assumes "w \<in> set or_words" "starts_text v"
  shows "\<exists>p u. reads len False (Ref R_or_op) (dropWhile filter_blank (w @ v @ t)) = Match [p] u \<and>
    dropWhile filter_blank u = v @ t \<and> as_rule p = R_or_op"
proof -
  note v = starts_text_blank [OF assms(2)]
  have "reads len False (Ref R_or_op) (''or'' @ '' '' @ v @ t) = Match [leaf R_or_op ''or''] ('' '' @ v @ t)"
    "reads len False (Ref R_or_op) (''||'' @ '' '' @ v @ t) = Match [leaf R_or_op ''||''] ('' '' @ v @ t)"
    unfolding leaf_def by (rule reads_rule; simp add: peg_parts keyword_simps)+
  with assms(1) v show ?thesis by (auto simp: or_words_def filter_blank_def)
qed

lemma or_run_step:
  assumes "or_run oc len v1 e1 (w @ v2 @ t)" "and_run oc len v2 e2 t"
    and "w \<in> set or_words" "starts_text v2" "no_more (dropWhile filter_blank t)"
  shows "or_run oc len (v1 @ w @ v2) (Or e1 e2) t"
proof -
  obtain qs u where qs: "chain (Ref R_and_expr) or_step len (v1 @ w @ v2 @ t) qs u"
    "u = w @ v2 @ t \<or> u = dropWhile filter_blank (w @ v2 @ t)"
    "\<And>s ps. build_or oc (Pair R_or_expr s (qs @ ps)) = build_or_loop oc e1 ps"
    using assms(1) unfolding or_run_def by blast
  have u: "dropWhile filter_blank u = dropWhile filter_blank (w @ v2 @ t)"
    using qs(2) by (auto simp: dropWhile_idem)
  obtain q t' where q: "reads len False (Ref R_and_expr) (v2 @ t) = Match [q] t'"
    "t' = t \<or> t' = dropWhile filter_blank t" "build_and oc q = Inr e2"
    using and_run_end [OF assms(2,5)] by blast
  obtain p u' where p: "reads len False (Ref R_or_op) (dropWhile filter_blank (w @ v2 @ t)) = Match [p] u'"
    "dropWhile filter_blank u' = v2 @ t" "as_rule p = R_or_op"
    using reads_or_word [OF assms(3,4)] by blast
  have "reads len False or_step (dropWhile filter_blank u) = Match [p, q] t'"
    unfolding u using p(1,2) q(1) by (simp add: or_step_def peg_parts)
  from disjuncts.chain_step [OF qs(1) this] q(2) show ?thesis unfolding or_run_def
    by (intro exI [of _ "qs @ [p, q]"] exI [of _ t']) (simp add: qs(3) q(3) p(3) del: build_or.simps)
qed

lemma expression_or_run:
  assumes "or_run oc len v e t" "ends t"
  shows "expression oc len v e t"
proof -
  have t: "dropWhile filter_blank t = t" using assms(2) by simp
  obtain qs where qs: "chain (Ref R_and_expr) or_step len (v @ t) qs t"
    "\<And>s ps. build_or oc (Pair R_or_expr s (qs @ ps)) = build_or_loop oc e ps"
    using assms(1) unfolding or_run_def t by blast
  have "reads len False or_step (dropWhile filter_blank t) = NoMatch"
    unfolding t using assms(2) by (simp add: or_step_def peg_parts no_operator)
  from disjuncts.chain_end [OF qs(1) this]
  have "reads len False (Seq (Ref R_and_expr) (Rep or_step)) (v @ t) = Match qs t" by (simp add: t)
  then have "reads len False (Ref R_or_expr) (v @ t) = Match [Pair R_or_expr v qs] t"
    by (intro reads_rule) (simp add: or_step_def)
  then have "reads len False (Ref R_expr) (v @ t) = Match [Pair R_expr v [Pair R_or_expr v qs]] t"
    by (intro reads_rule) simp
  then show ?thesis using qs(2) [of v "[]"] by (simp add: expression_def)
qed

section \<open>Expressions as text\<close>

text \<open>
  The ways to write an operand of the level \<open>k\<close>: \<open>or\<close> stands at the level 0, \<open>and\<close> at 1, \<open>not\<close> at 2, and
  what \<open>not\<close> negates at 3. An operand of a higher level can stand at a lower one, and anything in
  parentheses at 3.
\<close>

inductive writes :: "nat \<Rightarrow> FilterAst \<Rightarrow> string \<Rightarrow> bool" where
  w_predicate: "is_predicate p \<Longrightarrow> writes 3 p (predicate_text p)"
| w_parens: "writes 0 e v \<Longrightarrow> writes 3 e (''('' @ v @ '')'')"
| w_operand: "writes 3 e v \<Longrightarrow> writes 2 e v"
| w_not: "writes 3 e v \<Longrightarrow> writes 2 (Not' e) (''not '' @ v)"
| w_conjunct: "writes 2 e v \<Longrightarrow> writes 1 e v"
| w_and: "writes 1 l u \<Longrightarrow> writes 2 r v \<Longrightarrow> w \<in> set and_words \<Longrightarrow> writes 1 (And l r) (u @ w @ v)"
| w_disjunct: "writes 1 e v \<Longrightarrow> writes 0 e v"
| w_or: "writes 0 l u \<Longrightarrow> writes 1 r v \<Longrightarrow> w \<in> set or_words \<Longrightarrow> writes 0 (Or l r) (u @ w @ v)"

text \<open>\<open>text_at k\<close> writes it with parentheses only where the level asks for them.\<close>

definition parens :: "bool \<Rightarrow> string \<Rightarrow> string" where
  "parens b s = (if b then ''('' @ s @ '')'' else s)"

fun text_at :: "nat \<Rightarrow> FilterAst \<Rightarrow> string" where
  "text_at k (Or l r) = parens (k > 0) (text_at 0 l @ '' or '' @ text_at 1 r)"
| "text_at k (And l r) = parens (k > 1) (text_at 1 l @ '' and '' @ text_at 2 r)"
| "text_at k (Not' e) = parens (k > 2) (''not '' @ text_at 3 e)"
| "text_at k p = predicate_text p"

definition filter_text :: "FilterAst \<Rightarrow> string" where
  "filter_text = text_at 0"

lemma levels_down:
  "writes 2 e v \<Longrightarrow> writes 1 e v \<and> writes 0 e v"
  "writes 3 e v \<Longrightarrow> writes 2 e v \<and> writes 1 e v \<and> writes 0 e v"
  by (metis w_operand w_conjunct w_disjunct)+

lemma writes_text_at:
  "writes 0 e (text_at 0 e) \<and> writes 1 e (text_at 1 e) \<and> writes 2 e (text_at 2 e) \<and> writes 3 e (text_at 3 e)"
proof (induction e)
  case (And l r)
  then have w: "writes 1 (And l r) (text_at 1 l @ '' and '' @ text_at 2 r)"
    by (intro w_and) (simp_all add: and_words_def)
  note p = w_parens [OF w_disjunct [OF w]]
  from w w_disjunct [OF w] p levels_down(2) [OF p] show ?case by (simp add: parens_def)
next
  case (Or l r)
  then have w: "writes 0 (Or l r) (text_at 0 l @ '' or '' @ text_at 1 r)"
    by (intro w_or) (simp_all add: or_words_def)
  note p = w_parens [OF w]
  from w p levels_down(2) [OF p] show ?case by (simp add: parens_def)
next
  case (Not' e)
  then have w: "writes 2 (Not' e) (''not '' @ text_at 3 e)" by (intro w_not) simp
  note l = levels_down(1) [OF w]
  note p = w_parens [OF conjunct2 [OF l]]
  from w l p show ?case by (simp add: parens_def)
qed (unfold text_at.simps, (intro conjI levels_down(2) [THEN conjunct1] levels_down(2) [THEN conjunct2, THEN conjunct1]
    levels_down(2) [THEN conjunct2, THEN conjunct2] w_predicate; simp)+)

text \<open>Each level is read as its rule reads it, before any text that stops it.\<close>

definition as_or :: "bool \<Rightarrow> nat \<Rightarrow> string \<Rightarrow> FilterAst \<Rightarrow> bool" where
  "as_or oc len v e \<longleftrightarrow> (\<forall>t. stops t \<longrightarrow> no_more (dropWhile filter_blank t) \<longrightarrow> or_run oc len v e t)"

definition as_and :: "bool \<Rightarrow> nat \<Rightarrow> string \<Rightarrow> FilterAst \<Rightarrow> bool" where
  "as_and oc len v e \<longleftrightarrow> (\<forall>t. stops t \<longrightarrow> and_run oc len v e t)"

definition as_operand :: "bool \<Rightarrow> nat \<Rightarrow> string \<Rightarrow> FilterAst \<Rightarrow> bool" where
  "as_operand oc len v e \<longleftrightarrow> no_and v \<and> (\<forall>t. stops t \<longrightarrow> operand oc len v e t)"

definition as_primary :: "bool \<Rightarrow> nat \<Rightarrow> string \<Rightarrow> FilterAst \<Rightarrow> bool" where
  "as_primary oc len v e \<longleftrightarrow> no_and v \<and> (\<forall>t. reads len False (Ref R_not_op) (v @ t) = NoMatch) \<and>
     (\<forall>t. stops t \<longrightarrow> primary oc len v e t)"

definition as_level :: "bool \<Rightarrow> nat \<Rightarrow> nat \<Rightarrow> string \<Rightarrow> FilterAst \<Rightarrow> bool" where
  "as_level oc len k =
     (if k = 0 then as_or oc len else if k = 1 then as_and oc len
      else if k = 2 then as_operand oc len else as_primary oc len)"

lemma as_level_simps [simp]:
  "as_level oc len 0 = as_or oc len" "as_level oc len (Suc 0) = as_and oc len"
  "as_level oc len 2 = as_operand oc len" "as_level oc len 3 = as_primary oc len"
  by (simp_all add: as_level_def)

lemma predicate_no_and:
  assumes "is_predicate p"
  shows "no_and (predicate_text p)"
proof (cases "dir_of p")
  case Any
  show ?thesis
  proof (cases p)
    case (Proto x)
    then show ?thesis
      by (cases x) (simp_all add: no_and_def predicate_text_def filter_peg.parses_Ref [of _ _ R_and_op] peg_parts keyword_simps)
  qed (use assms Any in \<open>simp_all add: no_and_def predicate_text_def filter_peg.parses_Ref [of _ _ R_and_op] peg_parts keyword_simps\<close>)
qed (simp_all add: no_and_def predicate_text_def filter_peg.parses_Ref [of _ _ R_and_op] peg_parts keyword_simps)

lemma predicate_starts_text:
  assumes "is_predicate p"
  shows "starts_text (predicate_text p)"
proof -
  obtain c u where "kind_text p = c # u" "\<not> filter_blank c" using kind_text_not_blank [OF assms] by blast
  moreover have "\<not> filter_blank (CHR ''s'')" "\<not> filter_blank (CHR ''d'')" by (simp_all add: filter_blank_def)
  ultimately show ?thesis by (cases "dir_of p") (simp_all add: predicate_text_def starts_text_def)
qed

lemma writes_starts: "writes k e v \<Longrightarrow> starts_text v"
proof (induction rule: writes.induct)
  case (w_predicate p)
  then show ?case by (rule predicate_starts_text)
qed (auto simp: starts_text_def filter_blank_def)

lemma words_stop: "w \<in> set and_words \<Longrightarrow> stops (w @ t)" "w \<in> set or_words \<Longrightarrow> stops (w @ t)"
  "w \<in> set or_words \<Longrightarrow> no_more (dropWhile filter_blank (w @ t))"
  by (auto simp: and_words_def or_words_def filter_blank_def)

lemma as_primary_parens:
  assumes "as_or oc len v e" "starts_text v"
  shows "as_primary oc len (''('' @ v @ '')'') e"
proof -
  have "primary oc len (''('' @ v @ '')'') e t" for t
    using assms by (intro primary_parens expression_or_run) (simp_all add: as_or_def starts_text_blank)
  then show ?thesis using no_keyword [of "CHR ''('' # _"] by (simp add: as_primary_def no_and_def)
qed

lemma writes_reads: "writes k e v \<Longrightarrow> valid_ast e \<Longrightarrow> as_level oc len k v e"
proof (induction rule: writes.induct)
  case (w_predicate p)
  then show ?case
    using predicate_no_and predicate_no_not primary_predicate by (simp add: as_primary_def)
next
  case (w_parens e v)
  then show ?case using as_primary_parens [OF _ writes_starts] by simp
next
  case (w_operand e v)
  then show ?case by (simp add: as_primary_def as_operand_def operand_primary)
next
  case (w_not e v)
  have "no_and (''not '' @ v)"
    by (simp add: no_and_def filter_peg.parses_Ref [of _ _ R_and_op] peg_parts keyword_simps)
  with w_not show ?case
    using operand_not [OF _ starts_text_blank [OF writes_starts]] by (simp add: as_primary_def as_operand_def)
next
  case (w_conjunct e v)
  then show ?case by (simp add: as_operand_def as_and_def and_run_first)
next
  case (w_and l u r v w)
  then show ?case
    using and_run_step [where w = w] words_stop(1) writes_starts by (simp add: as_and_def as_operand_def)
next
  case (w_disjunct e v)
  then show ?case by (simp add: as_and_def as_or_def or_run_first)
next
  case (w_or l u r v w)
  then show ?case
    using or_run_step [where w = w] words_stop(2,3) writes_starts by (simp add: as_and_def as_or_def)
qed

section \<open>The parser on every text\<close>

lemma parse_written:
  assumes "writes 0 ast v" "valid_ast ast"
  shows "parse (pest_filter message) oc v = Inr ast"
proof -
  let ?len = "length v"
  have "as_or oc ?len v ast" using writes_reads [OF assms, of oc ?len] by simp
  then have "expression oc ?len v ast []"
    by (intro expression_or_run) (simp_all add: as_or_def)
  then obtain q where q: "reads ?len False (Ref R_expr) v = Match [q] []" "as_rule q = R_expr"
    "build_expr oc q = Inr ast"
    by (auto simp: expression_def)
  have s: "dropWhile filter_blank v = v"
    using starts_text_blank [OF writes_starts [OF assms(1)], of "[]"] by simp
  have "reads ?len False (Ref R_EOI) ([] @ []) = Match [leaf R_EOI []] []"
    unfolding leaf_def by (rule reads_rule) simp
  then have "reads ?len False (Ref R_filter) (v @ []) = Match [Pair R_filter v [q, leaf R_EOI []]] []"
    using q(1) s by (intro reads_rule) (simp add: peg_parts)
  then show ?thesis using q(2,3) by (simp add: pest_filter_parses parse_def)
qed

lemma parse_filter_text:
  "valid_ast ast \<Longrightarrow> parse (pest_filter message) oc (filter_text ast) = Inr ast"
  using writes_text_at by (simp add: filter_text_def parse_written)

lemma pest_filter_ends: "pest_run filter_grammar R_filter (9 * length input + 9) input \<noteq> OutOfFuel"
  using filter_peg.parses_ends [of "Ref R_filter" "length input" False input] by (simp add: pest_run_def parses_def)



section \<open>One predicate\<close>

lemma and_then_Inr: "and_then r Inr = r"
  by (cases r) simp_all

text \<open>A text that is one predicate is built as it is, whatever the builder makes of it.\<close>

lemma parse_predicate_text:
  assumes "reads (length u) False (Ref R_predicate) u = Match [q] []" "as_rule q = R_predicate"
    and "reads (length u) False (Ref R_not_op) u = NoMatch" "dropWhile filter_blank u = u"
  shows "parse (pest_filter message) oc u = build_predicate oc q"
proof -
  let ?primary = "Pair R_primary u [q]" and ?len = "length u"
  have "reads ?len False (Ref R_primary) (u @ []) = Match [?primary] []"
    using assms(1) by (intro reads_rule) (simp add: peg_parts)
  then have "reads ?len False (Ref R_not_expr) (u @ []) = Match [Pair R_not_expr u [?primary]] []"
    using assms(3) by (intro reads_rule) (simp add: peg_parts)
  then have "reads ?len False (Ref R_and_expr) (u @ []) = Match [Pair R_and_expr u [Pair R_not_expr u [?primary]]] []"
    by (intro reads_rule) (simp add: peg_parts filter_peg.parses_Rep no_keyword no_operand)
  then have "reads ?len False (Ref R_or_expr) (u @ []) =
      Match [Pair R_or_expr u [Pair R_and_expr u [Pair R_not_expr u [?primary]]]] []"
    by (intro reads_rule) (simp add: peg_parts filter_peg.parses_Rep no_operator)
  then have "reads ?len False (Ref R_expr) (u @ []) =
      Match [Pair R_expr u [Pair R_or_expr u [Pair R_and_expr u [Pair R_not_expr u [?primary]]]]] []"
    by (intro reads_rule) simp
  moreover have "reads ?len False (Ref R_EOI) ([] @ []) = Match [Pair R_EOI [] []] []"
    by (rule reads_rule) simp
  ultimately have "reads ?len False (Ref R_filter) (u @ []) = Match [Pair R_filter u
      [Pair R_expr u [Pair R_or_expr u [Pair R_and_expr u [Pair R_not_expr u [?primary]]]], Pair R_EOI [] []]] []"
    using assms(4) by (intro reads_rule) (simp add: peg_parts)
  then show ?thesis
    using assms(2) by (cases "build_predicate oc q") (simp_all add: pest_filter_parses parse_def)
qed

text \<open>The same for the text of one kind, with a direction in front of it.\<close>

lemma parse_kind_text:
  assumes "\<And>len. reads len False kind_alts (c # u) = Match [q] []" "as_rule q \<noteq> R_direction" "\<not> filter_blank c"
    and "\<And>len s. reads len False (Ref R_direction) (c # s) = NoMatch"
    and "\<And>len. reads len False (Ref R_not_op) (c # u) = NoMatch"
  shows "parse (pest_filter message) oc (dir_text dir @ c # u) = build_kind oc dir q"
proof -
  let ?s = "dir_text dir @ c # u"
  have "reads len False (Ref R_predicate) (?s @ []) = Match [Pair R_predicate ?s (dir_pairs dir @ [q])] []" for len
    using assms(1,3,4) by (intro reads_directed) simp_all
  then have "parse (pest_filter message) oc ?s = build_predicate oc (Pair R_predicate ?s (dir_pairs dir @ [q]))"
    using assms(3,5) by (intro parse_predicate_text)
      (cases dir; simp add: filter_peg.parses_Ref [of _ _ R_not_op] keyword_simps)+
  then show ?thesis using assms(2) by (simp add: build_predicate_dir)
qed

text \<open>An address as it is written, read by the rule \<open>ip\<close> whatever follows it.\<close>

definition ip_reads :: "string \<Rightarrow> bool" where
  "ip_reads u \<longleftrightarrow> (\<forall>len t. no_addr t \<longrightarrow> reads len False (Ref R_ip) (u @ t) = Match [leaf R_ip u] t) \<and>
     (\<forall>t. dropWhile filter_blank (u @ t) = u @ t)"

lemma ip_reads_host [simp]: "ip_reads (host_str h)"
  by (simp add: ip_reads_def reads_host)

lemma ip_reads_ipv6:
  assumes "list_all (\<lambda>c. is_hex c \<or> c = CHR '':'') u" "CHR '':'' \<in> set u"
  shows "ip_reads u"
proof -
  have "reads len False (Ref R_ip) (u @ t) = Match [leaf R_ip u] t" if "no_addr t" for len t
    unfolding leaf_def using reads_ipv6_text [OF assms that] by (intro reads_rule) (simp add: filter_peg.parses_Alt)
  moreover have "u \<noteq> []" "\<not> filter_blank (hd u)"
    using assms hex_not_blank by (cases u; auto simp: filter_blank_def)+
  ultimately show ?thesis unfolding ip_reads_def using not_blank_append by blast
qed

lemma ip_reads_dotted:
  assumes "list_all number_text [u1, u2, u3, u4]"
  shows "ip_reads (join_char (CHR ''.'') [u1, u2, u3, u4])"
proof -
  let ?u = "join_char (CHR ''.'') [u1, u2, u3, u4]"
  have "reads len False (Ref R_ip) (?u @ t) = Match [leaf R_ip ?u] t" if "no_addr t" for len t
    unfolding leaf_def using reads_dotted [OF assms that] by (intro reads_rule) (simp add: filter_peg.parses_Alt)
  moreover have "?u \<noteq> []" "\<not> filter_blank (hd ?u)"
    using assms decimal_is_hex hex_not_blank by (cases u1; auto simp: number_text_def)+
  ultimately show ?thesis unfolding ip_reads_def using not_blank_append by blast
qed

lemma ip_reads_plain: "ip_reads u \<Longrightarrow> reads len False (Ref R_ip) u = Match [leaf R_ip u] []"
  "ip_reads u \<Longrightarrow> dropWhile filter_blank u = u"
  unfolding ip_reads_def by (metis append_Nil2 no_addr_def, metis append_Nil2)

lemma parse_host_text:
  assumes "ip_reads u"
  shows "parse (pest_filter message) oc (dir_text dir @ ''host '' @ u) =
    and_then (parse_host_addr u) (\<lambda>a. Inr (Host a dir))"
proof -
  let ?q = "Pair R_host (''host '' @ u) [leaf R_ip u]"
  have "reads len False (Ref R_host) ((''host '' @ u) @ []) = Match [?q] []" for len
    using ip_reads_plain [OF assms] by (intro reads_rule) (simp add: peg_parts keyword_simps)
  then have "reads len False kind_alts (CHR ''h'' # ''ost '' @ u) = Match [?q] []" for len
    using other_keyword(1) [of len u] by (simp add: kind_alts_def filter_peg.parses_Alt)
  from parse_kind_text [OF this, of message oc dir] show ?thesis
    by (simp add: filter_blank_def no_direction filter_peg.parses_Ref [of _ _ R_not_op] keyword_simps
      build_kind_def leaf_def)
qed

lemma reads_greater:
  "reads len False (Ref R_len_expr) ((''greater '' @ show_dec n) @ []) =
     Match [Pair R_len_expr (''greater '' @ show_dec n) [leaf R_number (show_dec n)]] []"
  "reads len False (Ref R_len_expr) ((''less '' @ show_dec n) @ []) =
     Match [Pair R_len_expr (''less '' @ show_dec n) [leaf R_number (show_dec n)]] []"
  using reads_number [of "[]" len n] show_dec_not_blank [of n "[]", unfolded append_Nil2]
  by (intro reads_rule; simp add: peg_parts keyword_simps no_digit_def)+

lemma other_keyword_greater:
  "reads len False (Ref R_proto) (''greater '' @ s) = NoMatch" "reads len False (Ref R_host) (''greater '' @ s) = NoMatch"
  "reads len False (Ref R_port) (''greater '' @ s) = NoMatch" "reads len False (Ref R_portrange) (''greater '' @ s) = NoMatch"
  "reads len False (Ref R_net) (''greater '' @ s) = NoMatch"
  "reads len False (Ref R_proto) (''less '' @ s) = NoMatch" "reads len False (Ref R_host) (''less '' @ s) = NoMatch"
  "reads len False (Ref R_port) (''less '' @ s) = NoMatch" "reads len False (Ref R_portrange) (''less '' @ s) = NoMatch"
  "reads len False (Ref R_net) (''less '' @ s) = NoMatch"
  by (simp_all add: kind_simps keyword_simps)

lemma parse_len_text:
  "parse (pest_filter message) oc (''greater '' @ show_dec (unat n)) = Inr (Len Gt n)"
  "parse (pest_filter message) oc (''less '' @ show_dec (unat n)) = Inr (Len Lt n)"
proof -
  let ?n = "show_dec (unat n)"
  let ?gt = "Pair R_len_expr (''greater '' @ ?n) [leaf R_number ?n]"
  let ?lt = "Pair R_len_expr (''less '' @ ?n) [leaf R_number ?n]"
  have gt: "reads len False kind_alts (CHR ''g'' # ''reater '' @ ?n) = Match [?gt] []" for len
    using other_keyword_greater(1-5) [of len ?n] reads_greater(1) [of len "unat n"]
    by (simp add: kind_alts_def filter_peg.parses_Alt)
  have lt: "reads len False kind_alts (CHR ''l'' # ''ess '' @ ?n) = Match [?lt] []" for len
    using other_keyword_greater(6-10) [of len ?n] reads_greater(2) [of len "unat n"]
    by (simp add: kind_alts_def filter_peg.parses_Alt)
  from parse_kind_text [OF gt, of message oc Any]
  show "parse (pest_filter message) oc (''greater '' @ ?n) = Inr (Len Gt n)"
    by (simp add: filter_peg.parses_Ref [of _ _ R_not_op] filter_peg.parses_Ref [of _ _ R_direction] peg_parts
      keyword_simps build_kinds keyword_expr_def Let_def)
  from parse_kind_text [OF lt, of message oc Any]
  show "parse (pest_filter message) oc (''less '' @ ?n) = Inr (Len Lt n)"
    by (simp add: filter_peg.parses_Ref [of _ _ R_not_op] no_direction keyword_simps build_kinds keyword_expr_def Let_def)
qed

text \<open>A network with the length of its prefix.\<close>

fun prefix_fits :: "HostAddr \<Rightarrow> u8 \<Rightarrow> bool" where
  "prefix_fits (HostV4 a) p \<longleftrightarrow> p \<le> 32"
| "prefix_fits (HostV6 a) p \<longleftrightarrow> p \<le> 128"

lemma parse_net_number:
  assumes "ip_reads u"
  shows "parse (pest_filter message) oc (dir_text dir @ ''net '' @ u @ ''/'' @ show_dec n) =
    build_kind oc dir (Pair R_net (''net '' @ u @ ''/'' @ show_dec n)
      [leaf R_ip u, Pair R_netmask (''/'' @ show_dec n) [leaf R_number (show_dec n)]])"
proof -
  let ?n = "show_dec n"
  let ?kind = "''net '' @ u @ ''/'' @ ?n" and ?mask = "Pair R_netmask (''/'' @ ?n) [leaf R_number ?n]"
  let ?q = "Pair R_net ?kind [leaf R_ip u, ?mask]"
  have addr: "no_addr (''/'' @ s)" for s by (simp add: no_addr_def to_digit_def Let_def)
  have mask: "reads len False (Ref R_netmask) ((''/'' @ ?n) @ []) = Match [?mask] []" for len
    using reads_number [of "[]" len n] show_dec_not_blank [of n "[]", unfolded append_Nil2]
    by (intro reads_rule) (simp add: peg_parts no_digit_def)
  have "reads len False (Ref R_net) (?kind @ []) = Match [?q] []" for len
    using assms addr mask [of len]
    by (intro reads_rule) (simp add: ip_reads_def peg_parts keyword_simps)
  then have "reads len False kind_alts (CHR ''n'' # ''et '' @ u @ ''/'' @ ?n) = Match [?q] []" for len
    using other_keyword(5-8) [of len "u @ ''/'' @ ?n"]
    by (simp add: kind_alts_def filter_peg.parses_Alt)
  from parse_kind_text [OF this, of message oc dir] show ?thesis
    by (simp add: filter_blank_def no_direction filter_peg.parses_Ref [of _ _ R_not_op] keyword_simps)
qed

lemma parse_net_text:
  assumes "ip_reads u" "parse_host_addr u = Inr h" "prefix_fits h p"
  shows "parse (pest_filter message) oc (dir_text dir @ ''net '' @ u @ ''/'' @ show_dec (unat p)) =
    and_then (combine_net oc h (Prefix p)) (\<lambda>net. Inr (Net net dir))"
  unfolding parse_net_number [OF assms(1)] using assms(2,3)
  by (cases h) (simp_all add: build_kind_def parse_net_def parse_netmask_def leaf_def parse_number_leaf leD)

definition prefix_text :: "Direction \<Rightarrow> HostAddr \<Rightarrow> u8 \<Rightarrow> string" where
  "prefix_text dir h p = dir_text dir @ ''net '' @ host_str h @ ''/'' @ show_dec (unat p)"

lemma parse_prefix_text:
  "prefix_fits h p \<Longrightarrow> parse (pest_filter message) oc (prefix_text dir h p) =
    and_then (combine_net oc h (Prefix p)) (\<lambda>net. Inr (Net net dir))"
  unfolding prefix_text_def by (rule parse_net_text) (simp_all add: parse_host_str)



end
