(* ===== verification/Filter_Errors.thy ===== *)
theory Filter_Errors
  imports Filter_Text
begin

text \<open>
  Numbers that do not fit, from the text of a filter to the error: ports, port ranges and prefix lengths.
\<close>

section \<open>Texts with any numbers\<close>

lemma parse_port_number:
  "parse (pest_filter message) oc (dir_text dir @ ''port '' @ show_dec n) =
     build_kind oc dir (Pair R_port (''port '' @ show_dec n) [leaf R_number (show_dec n)])"
proof -
  let ?q = "Pair R_port (''port '' @ show_dec n) [leaf R_number (show_dec n)]"
  have "reads len False kind_alts (CHR ''p'' # ''ort '' @ show_dec n) = Match [?q] []" for len
    using reads_kind_port [of "[]" len n] other_keyword(2,3) [of len "'' '' @ show_dec n"]
    by (simp add: kind_alts_def filter_peg.parses_Alt)
  from parse_kind_text [OF this, of message oc dir] show ?thesis
    by (simp add: filter_blank_def no_direction filter_peg.parses_Ref [of _ _ R_not_op] keyword_simps)
qed

lemma parse_portrange_numbers:
  "parse (pest_filter message) oc (dir_text dir @ ''portrange '' @ show_dec lo @ ''-'' @ show_dec hi) =
     build_kind oc dir (Pair R_portrange (''portrange '' @ show_dec lo @ ''-'' @ show_dec hi)
       [leaf R_number (show_dec lo), leaf R_number (show_dec hi)])"
proof -
  let ?q = "Pair R_portrange (''portrange '' @ show_dec lo @ ''-'' @ show_dec hi)
    [leaf R_number (show_dec lo), leaf R_number (show_dec hi)]"
  have "reads len False kind_alts (CHR ''p'' # ''ortrange '' @ show_dec lo @ ''-'' @ show_dec hi) = Match [?q] []" for len
    using reads_kind_portrange [of "[]" len lo hi]
      other_keyword(2,3) [of len "''range '' @ show_dec lo @ ''-'' @ show_dec hi"]
      other_keyword(4) [of len "show_dec lo @ ''-'' @ show_dec hi"]
    by (simp add: kind_alts_def filter_peg.parses_Alt)
  from parse_kind_text [OF this, of message oc dir] show ?thesis
    by (simp add: filter_blank_def no_direction filter_peg.parses_Ref [of _ _ R_not_op] keyword_simps)
qed

lemma parse_shown:
  "parse_u16 (show_dec n) = (if n \<le> 65535 then Inr (of_nat n) else Inl PosOverflow)"
  "parse_u8 (show_dec n) = (if n \<le> 255 then Inr (of_nat n) else Inl PosOverflow)"
  by (simp_all add: parse_u16_def parse_u8_def show_dec_def from_str_radix_show)

section \<open>What the errors are\<close>

definition too_large :: string where
  "too_large = ''number too large to fit in target type''"

fun prefix_bound :: "HostAddr \<Rightarrow> nat" where
  "prefix_bound (HostV4 a) = 32"
| "prefix_bound (HostV6 a) = 128"

fun prefix_error :: "HostAddr \<Rightarrow> string" where
  "prefix_error (HostV4 a) = ''IPv4 prefix length must be <= 32''"
| "prefix_error (HostV6 a) = ''IPv6 prefix length must be <= 128''"

lemma port_number:
  "parse (pest_filter message) oc (dir_text dir @ ''port '' @ show_dec n) =
     (if n \<le> 65535 then Inr (Port (of_nat n) dir) else Inl (ParseError (''invalid port: '' @ too_large)))"
  unfolding parse_port_number by (simp add: build_kind_def build_port_def leaf_def parse_shown too_large_def)

lemma portrange_numbers:
  assumes "lo \<le> 65535" "hi \<le> 65535"
  shows "parse (pest_filter message) oc (dir_text dir @ ''portrange '' @ show_dec lo @ ''-'' @ show_dec hi) =
     (if lo \<le> hi then Inr (PortRange (of_nat lo) (of_nat hi) dir)
      else Inl (ParseError ''portrange start port is greater than end port''))"
proof -
  have "unat (of_nat lo :: u16) = lo" "unat (of_nat hi :: u16) = hi"
    using assms by (simp_all add: unat_of_nat)
  then have "(of_nat hi :: u16) < of_nat lo \<longleftrightarrow> hi < lo" by (simp add: word_less_nat_alt)
  then show ?thesis unfolding parse_portrange_numbers using assms
    by (simp add: build_kind_def build_portrange_def parse_number_def leaf_def parse_shown)
qed

lemma prefix_too_long:
  assumes "prefix_bound h < n"
  shows "parse (pest_filter message) oc (dir_text dir @ ''net '' @ host_str h @ ''/'' @ show_dec n) =
    Inl (ParseError (if n \<le> 255 then prefix_error h else ''invalid prefix length: '' @ too_large))"
proof -
  have "prefix_bound h < unat (of_nat n :: u8)" if "n \<le> 255" using that assms by (simp add: unat_of_nat)
  then have "n \<le> 255 \<Longrightarrow> (case h of HostV4 _ \<Rightarrow> 32 | HostV6 _ \<Rightarrow> 128) < (of_nat n :: u8)"
    by (cases h) (simp_all add: word_less_nat_alt)
  then show ?thesis unfolding parse_net_number [OF ip_reads_host] using parse_host_str [of h]
    by (cases h) (simp_all add: build_kind_def parse_net_def parse_netmask_def leaf_def parse_shown too_large_def)
qed

text \<open>
  C35. A number that does not fit is reported, whatever its size and in every build: a port from 65536 on,
  a port range whose start is above its end, a prefix longer than the address; and all ports, all ranges in
  order are accepted.
\<close>

theorem bad_numbers_reported:
  assumes "follows_grammar pest_parse"
  shows "parse pest_parse oc (dir_text dir @ ''port '' @ show_dec n) =
      (if n \<le> 65535 then Inr (Port (of_nat n) dir) else Inl (ParseError (''invalid port: '' @ too_large))) \<and>
    (lo \<le> 65535 \<and> hi \<le> 65535 \<longrightarrow>
      parse pest_parse oc (dir_text dir @ ''portrange '' @ show_dec lo @ ''-'' @ show_dec hi) =
      (if lo \<le> hi then Inr (PortRange (of_nat lo) (of_nat hi) dir)
       else Inl (ParseError ''portrange start port is greater than end port''))) \<and>
    (prefix_bound h < k \<longrightarrow>
      parse pest_parse oc (dir_text dir @ ''net '' @ host_str h @ ''/'' @ show_dec k) =
      Inl (ParseError (if k \<le> 255 then prefix_error h else ''invalid prefix length: '' @ too_large)))"
proof -
  obtain message where m: "pest_parse = pest_filter message" using follows_grammar_filter [OF assms] .
  show ?thesis unfolding m using port_number portrange_numbers prefix_too_long by blast
qed

theorem bad_numbers_reported_witness:
  "parse (pest_filter (\<lambda>_. ''no'')) True ''portrange 20-10'' =
     Inl (ParseError ''portrange start port is greater than end port'') \<and>
   parse (pest_filter (\<lambda>_. ''no'')) True ''src net 10.0.0.0/33'' = Inl (ParseError ''IPv4 prefix length must be <= 32'')"
proof -
  let ?p = "pest_filter (\<lambda>_. ''no'')"
  have n: "show_dec 20 = ''20''" "show_dec 10 = ''10''" "show_dec 33 = ''33''"
    "host_str (HostV4 (Ipv4Addr 0x0A000000)) = ''10.0.0.0''"
    by code_simp+
  show ?thesis
    using bad_numbers_reported [OF pest_filter_follows [of "\<lambda>_. ''no''"], where oc = True and dir = Any and lo = 20 and hi = 10]
      bad_numbers_reported [OF pest_filter_follows [of "\<lambda>_. ''no''"],
        where oc = True and dir = Src and h = "HostV4 (Ipv4Addr 0x0A000000)" and k = 33]
    unfolding n by simp
qed

end
