(* ===== verification/Parser_Tests.thy ===== *)
theory Parser_Tests
  imports Filter_Text
begin

text \<open>
  The unit tests of the filter parser on the model: the module \<open>tests\<close> of
  \<^verbatim>\<open>crates/netdump-filter/src/lib.rs\<close>. Each test is the conjunction of its assertions about a parser \<open>p\<close>,
  and holds of \<open>parse\<close> over the parser of the grammar.
\<close>

section \<open>The tests\<close>

type_synonym parser = "string \<Rightarrow> FilterAst outcome"

definition is_err :: "'a outcome \<Rightarrow> bool" where
  "is_err r \<longleftrightarrow> (case r of Inl (ParseError _) \<Rightarrow> True | _ \<Rightarrow> False)"

text \<open>The text of the error; a panic or a success has none.\<close>

definition err_text :: "'a outcome \<Rightarrow> string option" where
  "err_text r = (case r of Inl (ParseError e) \<Rightarrow> Some e | _ \<Rightarrow> None)"

fun contains :: "string \<Rightarrow> string \<Rightarrow> bool" where
  "contains [] w \<longleftrightarrow> w = []"
| "contains (c # s) w \<longleftrightarrow> starts_with (c # s) w \<or> contains s w"

definition parse_simple_proto :: "parser \<Rightarrow> bool" where
  "parse_simple_proto p \<longleftrightarrow>
     p ''tcp'' = Inr (Proto Tcp)"

definition parse_host :: "parser \<Rightarrow> bool" where
  "parse_host p \<longleftrightarrow>
     p ''host 192.168.1.1'' = Inr (Host (HostV4 (Ipv4Addr_new 192 168 1 1)) Any)"

definition parse_src_host_ipv6 :: "parser \<Rightarrow> bool" where
  "parse_src_host_ipv6 p \<longleftrightarrow>
     p ''src host fe80::1'' = Inr (Host (HostV6 (Ipv6Addr_new [0xfe80, 0, 0, 0, 0, 0, 0, 1])) Src)"

definition parse_port :: "parser \<Rightarrow> bool" where
  "parse_port p \<longleftrightarrow>
     p ''port 80'' = Inr (Port 80 Any)"

definition parse_src_port :: "parser \<Rightarrow> bool" where
  "parse_src_port p \<longleftrightarrow>
     p ''src port 443'' = Inr (Port 443 Src)"

definition parse_portrange :: "parser \<Rightarrow> bool" where
  "parse_portrange p \<longleftrightarrow>
     p ''portrange 1000-2000'' = Inr (PortRange 1000 2000 Any)"

definition parse_net_ipv4 :: "parser \<Rightarrow> bool" where
  "parse_net_ipv4 p \<longleftrightarrow>
     p ''net 192.168.0.0/16'' =
       Inr (Net (NetV4 (Ipv4Addr_new 192 168 0 0) (Ipv4Addr_new 255 255 0 0)) Any)"

definition parse_net_ipv6 :: "parser \<Rightarrow> bool" where
  "parse_net_ipv6 p \<longleftrightarrow>
     p ''src net fe80::/10'' =
       Inr (Net (NetV6 (Ipv6Addr_new [0xfe80, 0, 0, 0, 0, 0, 0, 0]) (Ipv6Addr_new [0xffc0, 0, 0, 0, 0, 0, 0, 0])) Src)"

definition parse_ether_host_test :: "parser \<Rightarrow> bool" where
  "parse_ether_host_test p \<longleftrightarrow>
     p ''ether host aa:bb:cc:dd:ee:ff'' = Inr (EtherHost [0xaa, 0xbb, 0xcc, 0xdd, 0xee, 0xff] Any)"

definition parse_line_protocol_shortcuts :: "parser \<Rightarrow> bool" where
  "parse_line_protocol_shortcuts p \<longleftrightarrow>
     p ''ip'' = Inr (Proto Ip) \<and>
     p ''ip6'' = Inr (Proto Ip6) \<and>
     p ''arp'' = Inr (Proto Arp) \<and>
     p ''rarp'' = Inr (Proto Rarp) \<and>
     p ''icmp'' = Inr (Proto Icmp) \<and>
     p ''icmp6'' = Inr (Proto Icmp6)"

definition parse_and_expression :: "parser \<Rightarrow> bool" where
  "parse_and_expression p \<longleftrightarrow>
     p ''tcp and port 80'' = Inr (And (Proto Tcp) (Port 80 Any))"

definition parse_or_expression :: "parser \<Rightarrow> bool" where
  "parse_or_expression p \<longleftrightarrow>
     p ''tcp or udp'' = Inr (Or (Proto Tcp) (Proto Udp))"

definition parse_not_expression :: "parser \<Rightarrow> bool" where
  "parse_not_expression p \<longleftrightarrow>
     p ''not arp'' = Inr (Not' (Proto Arp))"

definition parse_parens_precedence :: "parser \<Rightarrow> bool" where
  "parse_parens_precedence p \<longleftrightarrow>
     p ''tcp and (port 80 or port 443)'' = Inr (And (Proto Tcp) (Or (Port 80 Any) (Port 443 Any)))"

definition parse_len_shortcuts :: "parser \<Rightarrow> bool" where
  "parse_len_shortcuts p \<longleftrightarrow>
     p ''greater 100'' = Inr (Len Gt 100) \<and>
     p ''less 50'' = Inr (Len Lt 50) \<and>
     p ''len >= 64'' = Inr (Len Ge 64)"

definition parse_error_empty :: "parser \<Rightarrow> bool" where
  "parse_error_empty p \<longleftrightarrow>
     is_err (p [])"

definition parse_error_invalid_proto :: "parser \<Rightarrow> bool" where
  "parse_error_invalid_proto p \<longleftrightarrow>
     err_text (p ''unknown_proto'') \<notin> {None, Some []}"

definition parse_error_invalid_port :: "parser \<Rightarrow> bool" where
  "parse_error_invalid_port p \<longleftrightarrow>
     (case err_text (p ''port 99999'') of Some e \<Rightarrow> contains e ''invalid port'' | None \<Rightarrow> False)"

definition parse_error_invalid_ip :: "parser \<Rightarrow> bool" where
  "parse_error_invalid_ip p \<longleftrightarrow>
     err_text (p ''host 999.999.999.999'') \<notin> {None, Some []}"

section \<open>The tests hold\<close>

lemmas parse_tests = parse_simple_proto_def parse_host_def parse_src_host_ipv6_def parse_port_def parse_src_port_def parse_portrange_def parse_net_ipv4_def parse_net_ipv6_def parse_ether_host_test_def parse_line_protocol_shortcuts_def parse_and_expression_def parse_or_expression_def parse_not_expression_def parse_parens_precedence_def parse_len_shortcuts_def parse_error_empty_def parse_error_invalid_proto_def parse_error_invalid_port_def parse_error_invalid_ip_def

lemma shown_numbers:
  "show_dec 80 = ''80''" "show_dec 443 = ''443''" "show_dec 100 = ''100''" "show_dec 50 = ''50''" "show_dec 64 = ''64''"
  "show_dec 1000 = ''1000''" "show_dec 2000 = ''2000''" "show_dec 16 = ''16''" "show_dec 10 = ''10''"
  by code_simp+

lemma addresses:
  "Ipv4Addr_new 192 168 1 1 = Ipv4Addr 0xC0A80101" "Ipv4Addr_new 192 168 0 0 = Ipv4Addr 0xC0A80000"
  "Ipv4Addr_new 255 255 0 0 = Ipv4Addr 0xFFFF0000" "Ipv4Addr_new 192 168 1 100 = Ipv4Addr 0xC0A80164"
  "Ipv6Addr_new [0xfe80, 0, 0, 0, 0, 0, 0, 1] = Ipv6Addr 0xFE800000000000000000000000000001"
  "Ipv6Addr_new [0xfe80, 0, 0, 0, 0, 0, 0, 0] = Ipv6Addr 0xFE800000000000000000000000000000"
  "Ipv6Addr_new [0xffc0, 0, 0, 0, 0, 0, 0, 0] = Ipv6Addr 0xFFC00000000000000000000000000000"
  by (simp_all add: Ipv4Addr_new_def Ipv6Addr_new_def)

text \<open>The texts that are the text of the expression.\<close>

lemma tests_of_texts:
  fixes message oc
  defines "p \<equiv> parse (pest_filter message) oc"
  shows "parse_simple_proto p" "parse_host p" "parse_port p" "parse_src_port p" "parse_portrange p"
    "parse_ether_host_test p" "parse_line_protocol_shortcuts p" "parse_and_expression p" "parse_or_expression p"
    "parse_not_expression p" "parse_parens_precedence p"
proof -
  have p: "p (filter_text ast) = Inr ast" if "valid_ast ast" for ast
    using parse_filter_text [OF that] by (simp add: p_def)
  have w: "filter_text (Host (HostV4 (Ipv4Addr_new 192 168 1 1)) Any) = ''host 192.168.1.1''"
    "filter_text (EtherHost [0xaa, 0xbb, 0xcc, 0xdd, 0xee, 0xff] Any) = ''ether host aa:bb:cc:dd:ee:ff''"
    unfolding addresses by code_simp+
  show "parse_host p" "parse_ether_host_test p"
    using p [of "Host (HostV4 (Ipv4Addr_new 192 168 1 1)) Any"] p [of "EtherHost [0xaa, 0xbb, 0xcc, 0xdd, 0xee, 0xff] Any"]
    by (simp_all only: w) (simp_all add: parse_tests valid_ast_def)
  note texts = filter_text_def predicate_text_def parens_def shown_numbers valid_ast_def parse_tests
  show "parse_simple_proto p" using p [of "Proto Tcp"] by (simp add: texts)
  show "parse_port p" using p [of "Port 80 Any"] by (simp add: texts)
  show "parse_src_port p" using p [of "Port 443 Src"] by (simp add: texts)
  show "parse_portrange p" using p [of "PortRange 1000 2000 Any"] by (simp add: texts)
  show "parse_line_protocol_shortcuts p"
    using p [of "Proto Ip"] p [of "Proto Ip6"] p [of "Proto Arp"] p [of "Proto Rarp"] p [of "Proto Icmp"] p [of "Proto Icmp6"]
    by (simp add: texts)
  show "parse_and_expression p" using p [of "And (Proto Tcp) (Port 80 Any)"] by (simp add: texts)
  show "parse_or_expression p" using p [of "Or (Proto Tcp) (Proto Udp)"] by (simp add: texts)
  show "parse_not_expression p" using p [of "Not' (Proto Arp)"] by (simp add: texts)
  show "parse_parens_precedence p"
    using p [of "And (Proto Tcp) (Or (Port 80 Any) (Port 443 Any))"] by (simp add: texts)
qed

text \<open>The other texts: a short IPv6 address, prefix lengths, \<open>greater\<close> and \<open>less\<close>, and errors.\<close>

lemmas read_simps = parse_with_def read_ipv6_addr_def read_groups.simps [of 8 0] read_groups.simps [of 8 "Suc 0"]
  read_groups.simps [of 6 0] read_groups.simps [of 6 "Suc 0"] read_groups.simps [of 7 0] read_separator_def
  read_number_def to_digit_def Let_def no_dot_no_ipv4 ipv6_of_groups_def

lemma replicate_zeros: "replicate 6 z = [z, z, z, z, z, z]" "replicate 7 z = [z, z, z, z, z, z, z]"
  by (simp_all add: eval_nat_numeral)

lemma parse_fe80:
  "parse_host_addr ''fe80::1'' = Inr (HostV6 (Ipv6Addr 0xFE800000000000000000000000000001))"
  "parse_host_addr ''fe80::'' = Inr (HostV6 (Ipv6Addr 0xFE800000000000000000000000000000))"
  by (simp_all add: parse_host_addr_def no_dot_parse_ipv4 parse_ipv6_def read_simps replicate_zeros)

lemma ip_reads_fe80: "ip_reads ''fe80::1''" "ip_reads ''fe80::''"
  by (rule ip_reads_ipv6; simp add: to_digit_def Let_def)+

lemma shown_prefix: "prefix_text Any (HostV4 (Ipv4Addr 0xC0A80000)) 16 = ''net 192.168.0.0/16''"
  by code_simp

lemmas mask_simps = mask_eq_exp_minus_1

lemma tests_of_other_texts:
  fixes message oc
  defines "p \<equiv> parse (pest_filter message) oc"
  shows "parse_src_host_ipv6 p" "parse_net_ipv4 p" "parse_net_ipv6 p" "parse_len_shortcuts p"
proof -
  show "parse_src_host_ipv6 p"
    using parse_host_text [OF ip_reads_fe80(1), of message oc Src] by (simp add: p_def parse_tests parse_fe80 addresses)
  show "parse_net_ipv4 p"
    using parse_prefix_text [of "HostV4 (Ipv4Addr 0xC0A80000)" 16 message oc Any]
      shown_prefix(1) by (simp add: p_def parse_tests addresses combine_net_prefix4 mask_simps)
  show "parse_net_ipv6 p"
    using parse_net_text [OF ip_reads_fe80(2) parse_fe80(2), of 10 message oc Src]
    by (simp add: p_def parse_tests addresses combine_net_prefix6 shown_numbers mask_simps)
  have "filter_text (Len Ge 64) = ''len >= 64''" by code_simp
  then have "p ''len >= 64'' = Inr (Len Ge 64)"
    using parse_filter_text [of "Len Ge 64" message oc] by (simp add: p_def valid_ast_def)
  then show "parse_len_shortcuts p"
    using parse_len_text(1) [of message oc 100] parse_len_text(2) [of message oc 50]
    by (simp add: parse_tests p_def shown_numbers)
qed

lemma tests_of_errors:
  fixes message oc
  assumes "\<And>input e. pest_filter message input = Inl e \<Longrightarrow> e \<noteq> []"
  defines "p \<equiv> parse (pest_filter message) oc"
  shows "parse_error_empty p" "parse_error_invalid_proto p" "parse_error_invalid_port p" "parse_error_invalid_ip p"
proof -
  have "pest_run filter_grammar R_filter 9 [] = NoMatch" "pest_run filter_grammar R_filter 126 ''unknown_proto'' = NoMatch"
    by code_simp+
  then show "parse_error_empty p" "parse_error_invalid_proto p"
    using assms(1) [of "''unknown_proto''"]
    by (simp_all add: p_def parse_tests parse_def pest_filter_def is_err_def err_text_def)
  have overflow: "parse_u16 ''99999'' = Inl PosOverflow"
    by (simp add: parse_u16_def from_str_radix_def to_digit_def Let_def)
  let ?q = "Pair R_port ''port 99999'' [leaf R_number ''99999'']"
  have "reads len False (Ref R_number) (''99999'' @ []) = Match [leaf R_number ''99999''] []" for len
    unfolding leaf_def using reads_digits [of "''99999''" "[]" len]
    by (intro reads_rule) (simp add: no_digit_def to_digit_def Let_def)
  then have "reads len False (Ref R_port) (''port 99999'' @ []) = Match [?q] []" for len
    by (intro reads_rule) (simp add: peg_parts keyword_simps)
  then have "reads len False kind_alts (CHR ''p'' # ''ort 99999'') = Match [?q] []" for len
    using other_keyword(2,3) [of len "'' 99999''"]
    by (simp add: kind_alts_def filter_peg.parses_Alt)
  from parse_kind_text [OF this, of message oc Any] show "parse_error_invalid_port p"
    using overflow
    by (simp add: filter_blank_def no_direction filter_peg.parses_Ref [of _ _ R_not_op] keyword_simps
      p_def parse_tests build_kind_def build_port_def leaf_def err_text_def)
  have bad: "parse_host_addr ''999.999.999.999'' = Inl (ParseError ''invalid IP address: 999.999.999.999'')"
    by (simp add: parse_host_addr_def parse_ipv4_def parse_ipv6_def read_simps read_ipv4_addr_def read_ipv4_group_def)
  have "ip_reads (join_char (CHR ''.'') [''999'', ''999'', ''999'', ''999''])"
    by (rule ip_reads_dotted) (simp add: number_text_def to_digit_def Let_def)
  from parse_host_text [OF this, of message oc Any] show "parse_error_invalid_ip p"
    by (simp add: p_def parse_tests bad err_text_def)
qed

section \<open>Together\<close>

definition parser_tests :: "parser \<Rightarrow> bool" where
  "parser_tests p \<longleftrightarrow>
     parse_simple_proto p \<and> parse_host p \<and> parse_src_host_ipv6 p \<and>
     parse_port p \<and> parse_src_port p \<and> parse_portrange p \<and>
     parse_net_ipv4 p \<and> parse_net_ipv6 p \<and> parse_ether_host_test p \<and>
     parse_line_protocol_shortcuts p \<and> parse_and_expression p \<and> parse_or_expression p \<and>
     parse_not_expression p \<and> parse_parens_precedence p \<and> parse_len_shortcuts p \<and>
     parse_error_empty p \<and> parse_error_invalid_proto p \<and> parse_error_invalid_port p \<and>
     parse_error_invalid_ip p"

text \<open>All of them; the last but one also relies on pest's messages not being empty.\<close>

lemma parser_tests_hold:
  assumes "follows_grammar pest_parse" "\<And>input e. pest_parse input = Inl e \<Longrightarrow> e \<noteq> []"
  shows "parser_tests (parse pest_parse oc)"
proof -
  obtain message where m: "pest_parse = pest_filter message" using follows_grammar_filter [OF assms(1)] .
  have "e \<noteq> []" if "pest_filter message input = Inl e" for input e
    using assms(2) that unfolding m by blast
  from tests_of_errors [of message, OF this] show ?thesis
    unfolding parser_tests_def m by (simp add: tests_of_texts tests_of_other_texts)
qed

end
