(* ===== verification/Bpf_Types.thy ===== *)
theory Bpf_Types
  imports Prelude
begin

text \<open>
  The instruction set of \<^verbatim>\<open>crates/netdump-filter/src/types.rs\<close>: the instruction record, the opcode
  constants, and the constructor functions the compiler uses.
\<close>

section \<open>Instructions\<close>

record Instruction =
  i_code :: u16
  i_jt :: u8
  i_jf :: u8
  i_k :: u32

definition Instruction_new :: "u16 \<Rightarrow> u8 \<Rightarrow> u8 \<Rightarrow> u32 \<Rightarrow> Instruction" where
  [bpf_defs]: "Instruction_new code jt jf k = \<lparr>i_code = code, i_jt = jt, i_jf = jf, i_k = k\<rparr>"

section \<open>Opcode constants\<close>

definition BPF_LD :: u16 where [bpf_defs]: "BPF_LD = 0x00"
definition BPF_LDX :: u16 where [bpf_defs]: "BPF_LDX = 0x01"
definition BPF_ST :: u16 where [bpf_defs]: "BPF_ST = 0x02"
definition BPF_STX :: u16 where [bpf_defs]: "BPF_STX = 0x03"
definition BPF_ALU :: u16 where [bpf_defs]: "BPF_ALU = 0x04"
definition BPF_JMP :: u16 where [bpf_defs]: "BPF_JMP = 0x05"
definition BPF_RET :: u16 where [bpf_defs]: "BPF_RET = 0x06"
definition BPF_MISC :: u16 where [bpf_defs]: "BPF_MISC = 0x07"

definition BPF_W :: u16 where [bpf_defs]: "BPF_W = 0x00"
definition BPF_H :: u16 where [bpf_defs]: "BPF_H = 0x08"
definition BPF_B :: u16 where [bpf_defs]: "BPF_B = 0x10"

definition BPF_IMM :: u16 where [bpf_defs]: "BPF_IMM = 0x00"
definition BPF_ABS :: u16 where [bpf_defs]: "BPF_ABS = 0x20"
definition BPF_IND :: u16 where [bpf_defs]: "BPF_IND = 0x40"
definition BPF_MEM :: u16 where [bpf_defs]: "BPF_MEM = 0x60"
definition BPF_LEN :: u16 where [bpf_defs]: "BPF_LEN = 0x80"
definition BPF_MSH :: u16 where [bpf_defs]: "BPF_MSH = 0xa0"

definition BPF_ADD :: u16 where [bpf_defs]: "BPF_ADD = 0x00"
definition BPF_SUB :: u16 where [bpf_defs]: "BPF_SUB = 0x10"
definition BPF_MUL :: u16 where [bpf_defs]: "BPF_MUL = 0x20"
definition BPF_DIV :: u16 where [bpf_defs]: "BPF_DIV = 0x30"
definition BPF_OR :: u16 where [bpf_defs]: "BPF_OR = 0x40"
definition BPF_AND :: u16 where [bpf_defs]: "BPF_AND = 0x50"
definition BPF_LSH :: u16 where [bpf_defs]: "BPF_LSH = 0x60"
definition BPF_RSH :: u16 where [bpf_defs]: "BPF_RSH = 0x70"
definition BPF_NEG :: u16 where [bpf_defs]: "BPF_NEG = 0x80"
definition BPF_MOD :: u16 where [bpf_defs]: "BPF_MOD = 0x90"
definition BPF_XOR :: u16 where [bpf_defs]: "BPF_XOR = 0xa0"

definition BPF_JA :: u16 where [bpf_defs]: "BPF_JA = 0x00"
definition BPF_JEQ :: u16 where [bpf_defs]: "BPF_JEQ = 0x10"
definition BPF_JGT :: u16 where [bpf_defs]: "BPF_JGT = 0x20"
definition BPF_JGE :: u16 where [bpf_defs]: "BPF_JGE = 0x30"
definition BPF_JSET :: u16 where [bpf_defs]: "BPF_JSET = 0x40"

definition BPF_K :: u16 where [bpf_defs]: "BPF_K = 0x00"
definition BPF_X :: u16 where [bpf_defs]: "BPF_X = 0x08"

definition BPF_TAX :: u16 where [bpf_defs]: "BPF_TAX = 0x00"
definition BPF_TXA :: u16 where [bpf_defs]: "BPF_TXA = 0x80"

definition CBPF_ACCEPT :: u32 where [bpf_defs]: "CBPF_ACCEPT = 0xFFFF"
definition CBPF_REJECT :: u32 where [bpf_defs]: "CBPF_REJECT = 0"

section \<open>Instruction constructors\<close>

definition ld_abs_h :: "u32 \<Rightarrow> Instruction" where
  [bpf_defs]: "ld_abs_h k = Instruction_new (BPF_LD OR BPF_H OR BPF_ABS) 0 0 k"

definition ld_abs_b :: "u32 \<Rightarrow> Instruction" where
  [bpf_defs]: "ld_abs_b k = Instruction_new (BPF_LD OR BPF_B OR BPF_ABS) 0 0 k"

definition ld_abs_w :: "u32 \<Rightarrow> Instruction" where
  [bpf_defs]: "ld_abs_w k = Instruction_new (BPF_LD OR BPF_W OR BPF_ABS) 0 0 k"

definition ld_ind_h :: "u32 \<Rightarrow> Instruction" where
  [bpf_defs]: "ld_ind_h k = Instruction_new (BPF_LD OR BPF_H OR BPF_IND) 0 0 k"

definition ldx_msh_b :: "u32 \<Rightarrow> Instruction" where
  [bpf_defs]: "ldx_msh_b k = Instruction_new (BPF_LDX OR BPF_B OR BPF_MSH) 0 0 k"

definition jeq :: "u32 \<Rightarrow> Instruction" where
  [bpf_defs]: "jeq k = Instruction_new (BPF_JMP OR BPF_JEQ OR BPF_K) 0 0 k"

definition jgt :: "u32 \<Rightarrow> Instruction" where
  [bpf_defs]: "jgt k = Instruction_new (BPF_JMP OR BPF_JGT OR BPF_K) 0 0 k"

definition jge :: "u32 \<Rightarrow> Instruction" where
  [bpf_defs]: "jge k = Instruction_new (BPF_JMP OR BPF_JGE OR BPF_K) 0 0 k"

definition ret_k :: "u32 \<Rightarrow> Instruction" where
  [bpf_defs]: "ret_k k = Instruction_new (BPF_RET OR BPF_K) 0 0 k"

end
