(* ===== verification/Assembler.thy ===== *)
theory Assembler
  imports Bpf_Types
begin

text \<open>
  The label assembler of \<^verbatim>\<open>crates/netdump-filter/src/assembler.rs\<close>. Methods that take \<open>&mut self\<close> are
  state-monad actions on the assembler record; \<open>resolve\<close>, which consumes the assembler, is a
  function of it. The \<open>expect\<close>s, the \<open>assert!\<close> and the slice index of \<open>resolve\<close> are values of
  \<open>Panic\<close>.
\<close>

type_synonym LabelId = nat

record Assembler =
  insts :: "Instruction list"
  labels :: "LabelId \<rightharpoonup> nat"
  pending :: "(nat \<times> bool \<times> LabelId) list"
  next_label :: LabelId

definition Assembler_new :: Assembler where
  "Assembler_new = \<lparr>insts = [], labels = Map.empty, pending = [], next_label = 0\<rparr>"

definition new_label :: "(Assembler, LabelId) state" where
  "new_label = State (\<lambda>s. (next_label s, s\<lparr>next_label := next_label s + 1\<rparr>))"

definition next_index :: "(Assembler, nat) state" where
  "next_index = State (\<lambda>s. (length (insts s), s))"

definition emit :: "Instruction \<Rightarrow> (Assembler, nat) state" where
  "emit inst = State (\<lambda>s. (length (insts s), s\<lparr>insts := insts s @ [inst]\<rparr>))"

definition emit_jump ::
  "Instruction \<Rightarrow> LabelId \<Rightarrow> LabelId \<Rightarrow> (Assembler, nat) state" where
  "emit_jump inst true_label false_label =
     State (\<lambda>s. let idx = length (insts s) in
       (idx, s\<lparr>pending := pending s @ [(idx, True, true_label), (idx, False, false_label)],
               insts := insts s @ [inst]\<rparr>))"

definition place_label :: "LabelId \<Rightarrow> nat \<Rightarrow> (Assembler, unit) state" where
  "place_label label index = State (\<lambda>s. ((), s\<lparr>labels := (labels s)(label \<mapsto> index)\<rparr>))"

text \<open>The idiom \<open>asm.place_label(l, asm.next_index())\<close>.\<close>

abbreviation place_here :: "LabelId \<Rightarrow> (Assembler, unit) state" where
  "place_here label \<equiv> do { i \<leftarrow> next_index; place_label label i }"

datatype Panic =
    UnresolvedLabel LabelId
  | BackwardJump nat nat
  | OffsetTooLarge nat
  | IndexOutOfBounds nat

fun resolve_loop ::
  "(LabelId \<rightharpoonup> nat) \<Rightarrow> (nat \<times> bool \<times> LabelId) list \<Rightarrow> Instruction list
     \<Rightarrow> Panic + Instruction list" where
  "resolve_loop ls [] is = Inr is"
| "resolve_loop ls ((idx, is_jt, label) # rest) is =
     (case ls label of
        None \<Rightarrow> Inl (UnresolvedLabel label)
      | Some target \<Rightarrow>
          if target < idx + 1 then Inl (BackwardJump idx target)
          else let offset = target - (idx + 1) in
            if \<not> offset \<le> 255 then Inl (OffsetTooLarge offset)
            else if \<not> idx < length is then Inl (IndexOutOfBounds idx)
            else if is_jt then
              resolve_loop ls rest (is[idx := (is ! idx)\<lparr>i_jt := of_nat offset\<rparr>])
            else
              resolve_loop ls rest (is[idx := (is ! idx)\<lparr>i_jf := of_nat offset\<rparr>]))"

definition resolve :: "Assembler \<Rightarrow> Panic + Instruction list" where
  "resolve asm = resolve_loop (labels asm) (pending asm) (insts asm)"

section \<open>Effect of the operations\<close>

lemma run_new_label [asm_simps]:
  "run_state new_label s = (next_label s, s\<lparr>next_label := next_label s + 1\<rparr>)"
  by (simp add: new_label_def)

lemma run_next_index [asm_simps]: "run_state next_index s = (length (insts s), s)"
  by (simp add: next_index_def)

lemma run_emit [asm_simps]:
  "run_state (emit inst) s = (length (insts s), s\<lparr>insts := insts s @ [inst]\<rparr>)"
  by (simp add: emit_def)

lemma run_emit_jump [asm_simps]:
  "run_state (emit_jump inst t f) s =
     (length (insts s),
      s\<lparr>pending := pending s @ [(length (insts s), True, t), (length (insts s), False, f)],
        insts := insts s @ [inst]\<rparr>)"
  by (simp add: emit_jump_def Let_def)

lemma run_place_label [asm_simps]:
  "run_state (place_label l i) s = ((), s\<lparr>labels := (labels s)(l \<mapsto> i)\<rparr>)"
  by (simp add: place_label_def)

end
