(* ===== verification/Core_Types.thy ===== *)
theory Core_Types
  imports Std_Net
begin

text \<open>
  \<^verbatim>\<open>crates/netdump-core/src/lib.rs\<close>: packet metadata, the shared error type, and the protocol
  constants every other crate uses.
\<close>

section \<open>Packets and errors\<close>

record PacketMeta =
  ts_sec :: u64
  ts_usec :: u64
  meta_ifindex :: "32 word"
  cap_len :: nat
  orig_len :: nat

definition PacketMeta_new :: "u64 \<Rightarrow> u64 \<Rightarrow> 32 word \<Rightarrow> nat \<Rightarrow> nat \<Rightarrow> PacketMeta" where
  "PacketMeta_new sec usec ifindex cap orig =
     \<lparr>ts_sec = sec, ts_usec = usec, meta_ifindex = ifindex, cap_len = cap, orig_len = orig\<rparr>"

record Packet =
  pkt_meta :: PacketMeta
  pkt_data :: packet_bytes

definition Packet_new :: "PacketMeta \<Rightarrow> packet_bytes \<Rightarrow> Packet" where
  "Packet_new m d = \<lparr>pkt_meta = m, pkt_data = d\<rparr>"

datatype NetdumpError = Io string | Parse string | VmError string | Unsupported string

fun NetdumpError_fmt :: "NetdumpError \<Rightarrow> string" where
  "NetdumpError_fmt (Io s) = ''io error: '' @ s"
| "NetdumpError_fmt (Parse s) = ''parse error: '' @ s"
| "NetdumpError_fmt (VmError s) = ''vm error: '' @ s"
| "NetdumpError_fmt (Unsupported s) = ''unsupported: '' @ s"

section \<open>Protocol constants\<close>

definition ETHERTYPE_IP :: u16 where [bpf_defs]: "ETHERTYPE_IP = 0x0800"
definition ETHERTYPE_ARP :: u16 where [bpf_defs]: "ETHERTYPE_ARP = 0x0806"
definition ETHERTYPE_RARP :: u16 where [bpf_defs]: "ETHERTYPE_RARP = 0x8035"
definition ETHERTYPE_IPV6 :: u16 where [bpf_defs]: "ETHERTYPE_IPV6 = 0x86dd"

definition IPPROTO_TCP :: u8 where [bpf_defs]: "IPPROTO_TCP = 6"
definition IPPROTO_UDP :: u8 where [bpf_defs]: "IPPROTO_UDP = 17"
definition IPPROTO_ICMP :: u8 where [bpf_defs]: "IPPROTO_ICMP = 1"
definition IPPROTO_ICMPV6 :: u8 where [bpf_defs]: "IPPROTO_ICMPV6 = 58"

end
