(* ===== verification/Compiler.thy ===== *)
theory Compiler
  imports Assembler Filter_Ast Core_Types
begin

text \<open>
  The code generator of \<^verbatim>\<open>crates/netdump-filter/src/compiler.rs\<close>. Every function that takes
  \<open>asm: &mut Assembler\<close> is an action of the state monad over the assembler record, with the
  statements of the Rust body in their order; \<open>compile\<close> runs \<open>compile_node\<close> on a fresh assembler,
  appends the two return instructions and resolves the labels.
\<close>

section \<open>Addresses as 32-bit words\<close>

definition ipv6_words :: "Ipv6Addr \<Rightarrow> u32 list" where
  "ipv6_words addr =
     (let octets = ipv6_octets addr in
      [u32_from_be_bytes (octets ! 0) (octets ! 1) (octets ! 2) (octets ! 3),
       u32_from_be_bytes (octets ! 4) (octets ! 5) (octets ! 6) (octets ! 7),
       u32_from_be_bytes (octets ! 8) (octets ! 9) (octets ! 10) (octets ! 11),
       u32_from_be_bytes (octets ! 12) (octets ! 13) (octets ! 14) (octets ! 15)])"

section \<open>Protocols\<close>

definition check_ethertype :: "u16 \<Rightarrow> LabelId \<Rightarrow> LabelId \<Rightarrow> (Assembler, unit) state" where
  "check_ethertype ethertype accept reject = do {
     emit (ld_abs_h 12);
     emit_jump (jeq (ucast ethertype)) accept reject;
     State_Monad.return ()
   }"

text \<open>
  The \<open>match\<close> of \<open>compile_transport_proto\<close>; \<open>None\<close> is its \<open>unreachable!()\<close> arm, which
  \<open>compile_proto\<close> never takes (\<open>compile_proto_reachable\<close> below).
\<close>

definition transport_number :: "Protocol \<Rightarrow> u32 option" where
  "transport_number proto =
     (case proto of
        Tcp \<Rightarrow> Some (ucast IPPROTO_TCP)
      | Udp \<Rightarrow> Some (ucast IPPROTO_UDP)
      | _ \<Rightarrow> None)"

definition compile_transport_proto ::
  "Protocol \<Rightarrow> LabelId \<Rightarrow> LabelId \<Rightarrow> (Assembler, unit) state" where
  "compile_transport_proto proto accept reject =
     (case transport_number proto of
        None \<Rightarrow> State_Monad.return ()
      | Some proto_num \<Rightarrow> do {
          emit (ld_abs_h 12);
          ipv4_label \<leftarrow> new_label;
          check_v6 \<leftarrow> new_label;
          emit_jump (jeq (ucast ETHERTYPE_IP)) ipv4_label check_v6;
          place_here check_v6;
          ipv6_label \<leftarrow> new_label;
          emit_jump (jeq (ucast ETHERTYPE_IPV6)) ipv6_label reject;
          place_here ipv6_label;
          emit (ld_abs_b 20);
          emit_jump (jeq proto_num) accept reject;
          place_here ipv4_label;
          emit (ld_abs_b 23);
          emit_jump (jeq proto_num) accept reject;
          State_Monad.return ()
        })"

definition compile_icmpv4 :: "LabelId \<Rightarrow> LabelId \<Rightarrow> (Assembler, unit) state" where
  "compile_icmpv4 accept reject = do {
     emit (ld_abs_h 12);
     proto_check \<leftarrow> new_label;
     emit_jump (jeq (ucast ETHERTYPE_IP)) proto_check reject;
     place_here proto_check;
     emit (ld_abs_b 23);
     emit_jump (jeq (ucast IPPROTO_ICMP)) accept reject;
     State_Monad.return ()
   }"

definition compile_icmpv6 :: "LabelId \<Rightarrow> LabelId \<Rightarrow> (Assembler, unit) state" where
  "compile_icmpv6 accept reject = do {
     emit (ld_abs_h 12);
     proto_check \<leftarrow> new_label;
     emit_jump (jeq (ucast ETHERTYPE_IPV6)) proto_check reject;
     place_here proto_check;
     emit (ld_abs_b 20);
     emit_jump (jeq (ucast IPPROTO_ICMPV6)) accept reject;
     State_Monad.return ()
   }"

definition compile_proto :: "Protocol \<Rightarrow> LabelId \<Rightarrow> LabelId \<Rightarrow> (Assembler, unit) state" where
  "compile_proto proto accept reject =
     (case proto of
        Ip \<Rightarrow> check_ethertype ETHERTYPE_IP accept reject
      | Ip6 \<Rightarrow> check_ethertype ETHERTYPE_IPV6 accept reject
      | Arp \<Rightarrow> check_ethertype ETHERTYPE_ARP accept reject
      | Rarp \<Rightarrow> check_ethertype ETHERTYPE_RARP accept reject
      | Tcp \<Rightarrow> compile_transport_proto proto accept reject
      | Udp \<Rightarrow> compile_transport_proto proto accept reject
      | Icmp \<Rightarrow> compile_icmpv4 accept reject
      | Icmp6 \<Rightarrow> compile_icmpv6 accept reject)"

section \<open>Hosts\<close>

definition compile_ipv4_host ::
  "Ipv4Addr \<Rightarrow> Direction \<Rightarrow> LabelId \<Rightarrow> LabelId \<Rightarrow> (Assembler, unit) state" where
  "compile_ipv4_host addr dir accept reject = do {
     let addr_u32 = u32_from_ipv4 addr;
     emit (ld_abs_h 12);
     ip_label \<leftarrow> new_label;
     emit_jump (jeq (ucast ETHERTYPE_IP)) ip_label reject;
     place_here ip_label;
     (case dir of
        Any \<Rightarrow> do {
          emit (ld_abs_w 26);
          dst_check \<leftarrow> new_label;
          emit_jump (jeq addr_u32) accept dst_check;
          place_here dst_check;
          emit (ld_abs_w 30);
          emit_jump (jeq addr_u32) accept reject;
          State_Monad.return ()
        }
      | Src \<Rightarrow> do {
          emit (ld_abs_w 26);
          emit_jump (jeq addr_u32) accept reject;
          State_Monad.return ()
        }
      | Dst \<Rightarrow> do {
          emit (ld_abs_w 30);
          emit_jump (jeq addr_u32) accept reject;
          State_Monad.return ()
        })
   }"

text \<open>
  The loop of \<open>check_ipv6_addr_at\<close> over \<open>words.iter().enumerate()\<close>: \<open>i\<close> is the index of the first
  remaining word and \<open>n\<close> is \<open>words.len()\<close>.
\<close>

fun check_ipv6_addr_loop ::
  "nat \<Rightarrow> nat \<Rightarrow> u32 \<Rightarrow> u32 list \<Rightarrow> LabelId \<Rightarrow> LabelId \<Rightarrow> (Assembler, unit) state" where
  "check_ipv6_addr_loop n i offset [] accept reject = State_Monad.return ()"
| "check_ipv6_addr_loop n i offset (word # words) accept reject = do {
     emit (ld_abs_w (offset + of_nat i * 4));
     (if i = n - 1 then do {
        emit_jump (jeq word) accept reject;
        State_Monad.return ()
      } else do {
        next \<leftarrow> new_label;
        emit_jump (jeq word) next reject;
        place_here next
      });
     check_ipv6_addr_loop n (i + 1) offset words accept reject
   }"

definition check_ipv6_addr_at ::
  "u32 \<Rightarrow> u32 list \<Rightarrow> LabelId \<Rightarrow> LabelId \<Rightarrow> (Assembler, unit) state" where
  "check_ipv6_addr_at offset words accept reject =
     check_ipv6_addr_loop (length words) 0 offset words accept reject"

definition compile_ipv6_host ::
  "Ipv6Addr \<Rightarrow> Direction \<Rightarrow> LabelId \<Rightarrow> LabelId \<Rightarrow> (Assembler, unit) state" where
  "compile_ipv6_host addr dir accept reject = do {
     let words = ipv6_words addr;
     emit (ld_abs_h 12);
     ip6_label \<leftarrow> new_label;
     emit_jump (jeq (ucast ETHERTYPE_IPV6)) ip6_label reject;
     place_here ip6_label;
     (case dir of
        Any \<Rightarrow> do {
          dst_check \<leftarrow> new_label;
          check_ipv6_addr_at 22 words accept dst_check;
          place_here dst_check;
          check_ipv6_addr_at 38 words accept reject
        }
      | Src \<Rightarrow> check_ipv6_addr_at 22 words accept reject
      | Dst \<Rightarrow> check_ipv6_addr_at 38 words accept reject)
   }"

definition compile_host ::
  "HostAddr \<Rightarrow> Direction \<Rightarrow> LabelId \<Rightarrow> LabelId \<Rightarrow> (Assembler, unit) state" where
  "compile_host addr dir accept reject =
     (case addr of
        HostV4 a \<Rightarrow> compile_ipv4_host a dir accept reject
      | HostV6 a \<Rightarrow> compile_ipv6_host a dir accept reject)"

section \<open>Ports\<close>

definition compare_port_abs ::
  "u32 \<Rightarrow> u32 \<Rightarrow> u32 \<Rightarrow> Direction \<Rightarrow> LabelId \<Rightarrow> LabelId \<Rightarrow> (Assembler, unit) state" where
  "compare_port_abs src_off dst_off port dir accept reject =
     (case dir of
        Any \<Rightarrow> do {
          emit (ld_abs_h src_off);
          dst_check \<leftarrow> new_label;
          emit_jump (jeq port) accept dst_check;
          place_here dst_check;
          emit (ld_abs_h dst_off);
          emit_jump (jeq port) accept reject;
          State_Monad.return ()
        }
      | Src \<Rightarrow> do {
          emit (ld_abs_h src_off);
          emit_jump (jeq port) accept reject;
          State_Monad.return ()
        }
      | Dst \<Rightarrow> do {
          emit (ld_abs_h dst_off);
          emit_jump (jeq port) accept reject;
          State_Monad.return ()
        })"

definition compare_port_ind ::
  "u32 \<Rightarrow> u32 \<Rightarrow> u32 \<Rightarrow> Direction \<Rightarrow> LabelId \<Rightarrow> LabelId \<Rightarrow> (Assembler, unit) state" where
  "compare_port_ind src_off dst_off port dir accept reject =
     (case dir of
        Any \<Rightarrow> do {
          emit (ld_ind_h src_off);
          dst_check \<leftarrow> new_label;
          emit_jump (jeq port) accept dst_check;
          place_here dst_check;
          emit (ld_ind_h dst_off);
          emit_jump (jeq port) accept reject;
          State_Monad.return ()
        }
      | Src \<Rightarrow> do {
          emit (ld_ind_h src_off);
          emit_jump (jeq port) accept reject;
          State_Monad.return ()
        }
      | Dst \<Rightarrow> do {
          emit (ld_ind_h dst_off);
          emit_jump (jeq port) accept reject;
          State_Monad.return ()
        })"

definition check_transport_and_compare_ports ::
  "u32 \<Rightarrow> u32 \<Rightarrow> u32 \<Rightarrow> Direction \<Rightarrow> LabelId \<Rightarrow> LabelId \<Rightarrow> (Assembler, unit) state" where
  "check_transport_and_compare_ports src_off dst_off port dir accept reject = do {
     emit (ld_abs_b 20);
     udp_check \<leftarrow> new_label;
     port_check \<leftarrow> new_label;
     emit_jump (jeq (ucast IPPROTO_TCP)) port_check udp_check;
     place_here udp_check;
     emit_jump (jeq (ucast IPPROTO_UDP)) port_check reject;
     place_here port_check;
     compare_port_abs src_off dst_off port dir accept reject
   }"

definition compile_port ::
  "u16 \<Rightarrow> Direction \<Rightarrow> LabelId \<Rightarrow> LabelId \<Rightarrow> (Assembler, unit) state" where
  "compile_port port dir accept reject = do {
     let port_u32 = ucast port;
     emit (ld_abs_h 12);
     ipv4_label \<leftarrow> new_label;
     check_v6 \<leftarrow> new_label;
     emit_jump (jeq (ucast ETHERTYPE_IP)) ipv4_label check_v6;
     place_here check_v6;
     ipv6_label \<leftarrow> new_label;
     emit_jump (jeq (ucast ETHERTYPE_IPV6)) ipv6_label reject;
     place_here ipv6_label;
     check_transport_and_compare_ports 54 56 port_u32 dir accept reject;
     place_here ipv4_label;
     emit (ld_abs_b 23);
     udp_check \<leftarrow> new_label;
     port_check \<leftarrow> new_label;
     emit_jump (jeq (ucast IPPROTO_TCP)) port_check udp_check;
     place_here udp_check;
     emit_jump (jeq (ucast IPPROTO_UDP)) port_check reject;
     place_here port_check;
     emit (ldx_msh_b 14);
     compare_port_ind 14 16 port_u32 dir accept reject
   }"

section \<open>Port ranges\<close>

definition compare_portrange_abs ::
  "u32 \<Rightarrow> u32 \<Rightarrow> u32 \<Rightarrow> u32 \<Rightarrow> Direction \<Rightarrow> LabelId \<Rightarrow> LabelId
     \<Rightarrow> (Assembler, unit) state" where
  "compare_portrange_abs src_off dst_off start end' dir accept reject =
     (case dir of
        Any \<Rightarrow> do {
          emit (ld_abs_h src_off);
          src_in \<leftarrow> new_label;
          emit_jump (jge start) src_in reject;
          place_here src_in;
          src_out \<leftarrow> new_label;
          emit_jump (jgt end') src_out accept;
          place_here src_out;
          emit (ld_abs_h dst_off);
          dst_in \<leftarrow> new_label;
          emit_jump (jge start) dst_in reject;
          place_here dst_in;
          emit_jump (jgt end') reject accept;
          State_Monad.return ()
        }
      | Src \<Rightarrow> do {
          emit (ld_abs_h src_off);
          in_range \<leftarrow> new_label;
          emit_jump (jge start) in_range reject;
          place_here in_range;
          emit_jump (jgt end') reject accept;
          State_Monad.return ()
        }
      | Dst \<Rightarrow> do {
          emit (ld_abs_h dst_off);
          in_range \<leftarrow> new_label;
          emit_jump (jge start) in_range reject;
          place_here in_range;
          emit_jump (jgt end') reject accept;
          State_Monad.return ()
        })"

definition compare_portrange_ind ::
  "u32 \<Rightarrow> u32 \<Rightarrow> u32 \<Rightarrow> u32 \<Rightarrow> Direction \<Rightarrow> LabelId \<Rightarrow> LabelId
     \<Rightarrow> (Assembler, unit) state" where
  "compare_portrange_ind src_off dst_off start end' dir accept reject =
     (case dir of
        Any \<Rightarrow> do {
          emit (ld_ind_h src_off);
          src_in \<leftarrow> new_label;
          emit_jump (jge start) src_in reject;
          place_here src_in;
          src_out \<leftarrow> new_label;
          emit_jump (jgt end') src_out accept;
          place_here src_out;
          emit (ld_ind_h dst_off);
          dst_in \<leftarrow> new_label;
          emit_jump (jge start) dst_in reject;
          place_here dst_in;
          emit_jump (jgt end') reject accept;
          State_Monad.return ()
        }
      | Src \<Rightarrow> do {
          emit (ld_ind_h src_off);
          in_range \<leftarrow> new_label;
          emit_jump (jge start) in_range reject;
          place_here in_range;
          emit_jump (jgt end') reject accept;
          State_Monad.return ()
        }
      | Dst \<Rightarrow> do {
          emit (ld_ind_h dst_off);
          in_range \<leftarrow> new_label;
          emit_jump (jge start) in_range reject;
          place_here in_range;
          emit_jump (jgt end') reject accept;
          State_Monad.return ()
        })"

definition check_transport_and_compare_portrange ::
  "u32 \<Rightarrow> u32 \<Rightarrow> u32 \<Rightarrow> u32 \<Rightarrow> Direction \<Rightarrow> LabelId \<Rightarrow> LabelId
     \<Rightarrow> (Assembler, unit) state" where
  "check_transport_and_compare_portrange src_off dst_off start end' dir accept reject = do {
     emit (ld_abs_b 20);
     udp_check \<leftarrow> new_label;
     port_check \<leftarrow> new_label;
     emit_jump (jeq (ucast IPPROTO_TCP)) port_check udp_check;
     place_here udp_check;
     emit_jump (jeq (ucast IPPROTO_UDP)) port_check reject;
     place_here port_check;
     compare_portrange_abs src_off dst_off start end' dir accept reject
   }"

definition compile_port_range ::
  "u16 \<Rightarrow> u16 \<Rightarrow> Direction \<Rightarrow> LabelId \<Rightarrow> LabelId \<Rightarrow> (Assembler, unit) state" where
  "compile_port_range start end' dir accept reject = do {
     let start_u32 = ucast start;
     let end_u32 = ucast end';
     emit (ld_abs_h 12);
     ipv4_label \<leftarrow> new_label;
     check_v6 \<leftarrow> new_label;
     emit_jump (jeq (ucast ETHERTYPE_IP)) ipv4_label check_v6;
     place_here check_v6;
     ipv6_label \<leftarrow> new_label;
     emit_jump (jeq (ucast ETHERTYPE_IPV6)) ipv6_label reject;
     place_here ipv6_label;
     check_transport_and_compare_portrange 54 56 start_u32 end_u32 dir accept reject;
     place_here ipv4_label;
     emit (ld_abs_b 23);
     udp_check \<leftarrow> new_label;
     port_check \<leftarrow> new_label;
     emit_jump (jeq (ucast IPPROTO_TCP)) port_check udp_check;
     place_here udp_check;
     emit_jump (jeq (ucast IPPROTO_UDP)) port_check reject;
     place_here port_check;
     emit (ldx_msh_b 14);
     compare_portrange_ind 14 16 start_u32 end_u32 dir accept reject
   }"

section \<open>MAC addresses\<close>

text \<open>The closure \<open>check_at\<close> of \<open>compile_ether_host\<close>, with the values it captures.\<close>

definition ether_check_at ::
  "u32 \<Rightarrow> u32 \<Rightarrow> u32 \<Rightarrow> LabelId \<Rightarrow> LabelId \<Rightarrow> (Assembler, unit) state" where
  "ether_check_at high low offset accept reject = do {
     high_ok \<leftarrow> new_label;
     emit (ld_abs_w offset);
     emit_jump (jeq high) high_ok reject;
     place_here high_ok;
     emit (ld_abs_h (offset + 4));
     emit_jump (jeq low) accept reject;
     State_Monad.return ()
   }"

definition compile_ether_host ::
  "u8 list \<Rightarrow> Direction \<Rightarrow> LabelId \<Rightarrow> LabelId \<Rightarrow> (Assembler, unit) state" where
  "compile_ether_host addr dir accept reject = do {
     let high = u32_from_be_bytes (addr ! 0) (addr ! 1) (addr ! 2) (addr ! 3);
     let low = ucast (u16_from_be_bytes (addr ! 4) (addr ! 5));
     (case dir of
        Any \<Rightarrow> do {
          src_check \<leftarrow> new_label;
          ether_check_at high low 0 accept src_check;
          place_here src_check;
          ether_check_at high low 6 accept reject
        }
      | Src \<Rightarrow> ether_check_at high low 6 accept reject
      | Dst \<Rightarrow> ether_check_at high low 0 accept reject)
   }"

section \<open>Networks\<close>

text \<open>The closure \<open>check_addr\<close> of \<open>compile_ipv4_net\<close>, with the values it captures.\<close>

definition ipv4_net_check_addr ::
  "u32 \<Rightarrow> u32 \<Rightarrow> u32 \<Rightarrow> LabelId \<Rightarrow> LabelId \<Rightarrow> (Assembler, unit) state" where
  "ipv4_net_check_addr mask_u32 net_u32 offset accept reject = do {
     emit (ld_abs_w offset);
     emit (Instruction_new (BPF_ALU OR BPF_AND OR BPF_K) 0 0 mask_u32);
     emit_jump (jeq net_u32) accept reject;
     State_Monad.return ()
   }"

definition compile_ipv4_net ::
  "Ipv4Addr \<Rightarrow> Ipv4Addr \<Rightarrow> Direction \<Rightarrow> LabelId \<Rightarrow> LabelId \<Rightarrow> (Assembler, unit) state" where
  "compile_ipv4_net addr msk dir accept reject = do {
     let net_u32 = u32_from_ipv4 addr AND u32_from_ipv4 msk;
     let mask_u32 = u32_from_ipv4 msk;
     emit (ld_abs_h 12);
     ip_label \<leftarrow> new_label;
     emit_jump (jeq (ucast ETHERTYPE_IP)) ip_label reject;
     place_here ip_label;
     (case dir of
        Any \<Rightarrow> do {
          dst_check \<leftarrow> new_label;
          ipv4_net_check_addr mask_u32 net_u32 26 accept dst_check;
          place_here dst_check;
          ipv4_net_check_addr mask_u32 net_u32 30 accept reject
        }
      | Src \<Rightarrow> ipv4_net_check_addr mask_u32 net_u32 26 accept reject
      | Dst \<Rightarrow> ipv4_net_check_addr mask_u32 net_u32 30 accept reject)
   }"

text \<open>The loop of \<open>check_ipv6_net_at\<close> over the zipped and enumerated words.\<close>

fun check_ipv6_net_loop ::
  "nat \<Rightarrow> nat \<Rightarrow> u32 \<Rightarrow> (u32 \<times> u32) list \<Rightarrow> LabelId \<Rightarrow> LabelId
     \<Rightarrow> (Assembler, unit) state" where
  "check_ipv6_net_loop n i offset [] accept reject = State_Monad.return ()"
| "check_ipv6_net_loop n i offset ((addr_word, mask_word) # words) accept reject = do {
     emit (ld_abs_w (offset + of_nat i * 4));
     emit (Instruction_new (BPF_ALU OR BPF_AND OR BPF_K) 0 0 mask_word);
     (if i = n - 1 then do {
        emit_jump (jeq addr_word) accept reject;
        State_Monad.return ()
      } else do {
        next \<leftarrow> new_label;
        emit_jump (jeq addr_word) next reject;
        place_here next
      });
     check_ipv6_net_loop n (i + 1) offset words accept reject
   }"

definition check_ipv6_net_at ::
  "u32 \<Rightarrow> u32 list \<Rightarrow> u32 list \<Rightarrow> LabelId \<Rightarrow> LabelId \<Rightarrow> (Assembler, unit) state" where
  "check_ipv6_net_at offset addr_words mask_words accept reject =
     check_ipv6_net_loop (length addr_words) 0 offset (zip addr_words mask_words) accept reject"

definition compile_ipv6_net ::
  "Ipv6Addr \<Rightarrow> Ipv6Addr \<Rightarrow> Direction \<Rightarrow> LabelId \<Rightarrow> LabelId \<Rightarrow> (Assembler, unit) state" where
  "compile_ipv6_net addr msk dir accept reject = do {
     let addr_words = ipv6_words addr;
     let mask_words = ipv6_words msk;
     emit (ld_abs_h 12);
     ip6_label \<leftarrow> new_label;
     emit_jump (jeq (ucast ETHERTYPE_IPV6)) ip6_label reject;
     place_here ip6_label;
     (case dir of
        Any \<Rightarrow> do {
          dst_check \<leftarrow> new_label;
          check_ipv6_net_at 22 addr_words mask_words accept dst_check;
          place_here dst_check;
          check_ipv6_net_at 38 addr_words mask_words accept reject
        }
      | Src \<Rightarrow> check_ipv6_net_at 22 addr_words mask_words accept reject
      | Dst \<Rightarrow> check_ipv6_net_at 38 addr_words mask_words accept reject)
   }"

definition compile_net ::
  "NetAddr \<Rightarrow> Direction \<Rightarrow> LabelId \<Rightarrow> LabelId \<Rightarrow> (Assembler, unit) state" where
  "compile_net addr dir accept reject =
     (case addr of
        NetV4 a m \<Rightarrow> compile_ipv4_net a m dir accept reject
      | NetV6 a m \<Rightarrow> compile_ipv6_net a m dir accept reject)"

section \<open>Packet length\<close>

definition compile_len ::
  "RelOp \<Rightarrow> u32 \<Rightarrow> LabelId \<Rightarrow> LabelId \<Rightarrow> (Assembler, unit) state" where
  "compile_len op' len accept reject = do {
     emit (Instruction_new (BPF_LD OR BPF_LEN OR BPF_W) 0 0 0);
     (case op' of
        Eq \<Rightarrow> emit_jump (jeq len) accept reject
      | Ne \<Rightarrow> emit_jump (jeq len) reject accept
      | Gt \<Rightarrow> emit_jump (jgt len) accept reject
      | Ge \<Rightarrow> emit_jump (jge len) accept reject
      | Lt \<Rightarrow> emit_jump (jge len) reject accept
      | Le \<Rightarrow> emit_jump (jgt len) reject accept);
     State_Monad.return ()
   }"

section \<open>Expressions and whole programs\<close>

fun compile_node :: "FilterAst \<Rightarrow> LabelId \<Rightarrow> LabelId \<Rightarrow> (Assembler, unit) state" where
  "compile_node (And left right) accept reject = do {
     mid \<leftarrow> new_label;
     compile_node left mid reject;
     place_here mid;
     compile_node right accept reject
   }"
| "compile_node (Or left right) accept reject = do {
     mid \<leftarrow> new_label;
     compile_node left accept mid;
     place_here mid;
     compile_node right accept reject
   }"
| "compile_node (Not' inner) accept reject = compile_node inner reject accept"
| "compile_node (Proto proto) accept reject = compile_proto proto accept reject"
| "compile_node (Host addr dir) accept reject = compile_host addr dir accept reject"
| "compile_node (Port port dir) accept reject = compile_port port dir accept reject"
| "compile_node (PortRange start end' dir) accept reject =
     compile_port_range start end' dir accept reject"
| "compile_node (EtherHost addr dir) accept reject = compile_ether_host addr dir accept reject"
| "compile_node (Net addr dir) accept reject = compile_net addr dir accept reject"
| "compile_node (Len op' len) accept reject = compile_len op' len accept reject"

definition compile_asm :: "FilterAst \<Rightarrow> (Assembler, unit) state" where
  "compile_asm ast = do {
     accept \<leftarrow> new_label;
     reject \<leftarrow> new_label;
     compile_node ast accept reject;
     place_here accept;
     emit (ret_k CBPF_ACCEPT);
     place_here reject;
     emit (ret_k CBPF_REJECT);
     State_Monad.return ()
   }"

definition compile :: "FilterAst \<Rightarrow> Panic + Instruction list" where
  "compile ast = resolve (snd (run_state (compile_asm ast) Assembler_new))"

lemma compile_proto_reachable:
  "proto = Tcp \<or> proto = Udp \<Longrightarrow> transport_number proto \<noteq> None"
  by (auto simp: transport_number_def)

end
