(* ===== verification/Code_Blocks.thy ===== *)
theory Code_Blocks
  imports Assembler
begin

text \<open>
  Label-free code: a reference view of what the assembler is asked to emit. A block is a list of
  instructions in which every conditional jump names its targets relatively: \<open>Acc\<close> and \<open>Rej\<close> leave
  the block, \<open>Rel k\<close> skips \<open>k\<close> items of the rest of the block. Blocks compose by conjunction,
  disjunction, negation and case distinction without labels or back-patching. The relation
  \<open>emits\<close> says that a labelled assembler action produces a block, and \<open>resolve_block\<close> that
  resolving its labels yields exactly the flattened block, or the panic of the first jump that is
  out of range.
\<close>

section \<open>Blocks and their combinators\<close>

datatype target = Acc | Rej | Rel nat

datatype item = Op Instruction | Jmp Instruction target target

type_synonym block = "item list"

fun item_inst :: "item \<Rightarrow> Instruction" where
  "item_inst (Op i) = i"
| "item_inst (Jmp i t f) = i"

text \<open>\<open>retarget ta tr B\<close> redirects the exits of \<open>B\<close>; \<open>ta\<close> and \<open>tr\<close> are given at the end of \<open>B\<close>.\<close>

fun move_target :: "target \<Rightarrow> target \<Rightarrow> nat \<Rightarrow> target \<Rightarrow> target" where
  "move_target ta tr n Acc = (case ta of Rel k \<Rightarrow> Rel (n + k) | _ \<Rightarrow> ta)"
| "move_target ta tr n Rej = (case tr of Rel k \<Rightarrow> Rel (n + k) | _ \<Rightarrow> tr)"
| "move_target ta tr n (Rel k) = Rel k"

fun retarget :: "target \<Rightarrow> target \<Rightarrow> block \<Rightarrow> block" where
  "retarget ta tr [] = []"
| "retarget ta tr (Op i # B) = Op i # retarget ta tr B"
| "retarget ta tr (Jmp i t f # B) =
     Jmp i (move_target ta tr (length B) t) (move_target ta tr (length B) f) # retarget ta tr B"

definition and_block :: "block \<Rightarrow> block \<Rightarrow> block" where
  "and_block B C = retarget (Rel 0) Rej B @ C"

definition or_block :: "block \<Rightarrow> block \<Rightarrow> block" where
  "or_block B C = retarget Acc (Rel 0) B @ C"

definition not_block :: "block \<Rightarrow> block" where
  "not_block B = retarget Rej Acc B"

text \<open>\<open>ite_block B C D\<close>: on \<open>B\<close> go to \<open>C\<close>, else to \<open>D\<close>, with \<open>D\<close> laid out first.\<close>

definition ite_block :: "block \<Rightarrow> block \<Rightarrow> block \<Rightarrow> block" where
  "ite_block B C D = retarget (Rel (length D)) (Rel 0) B @ D @ C"

lemma length_retarget [simp]: "length (retarget ta tr B) = length B"
  by (induction ta tr B rule: retarget.induct) auto

lemma map_inst_retarget [simp]: "map item_inst (retarget ta tr B) = map item_inst B"
  by (induction ta tr B rule: retarget.induct) auto

lemma length_blocks [simp]:
  "length (and_block B C) = length B + length C"
  "length (or_block B C) = length B + length C"
  "length (not_block B) = length B"
  "length (ite_block B C D) = length B + length D + length C"
  by (simp_all add: and_block_def or_block_def not_block_def ite_block_def)

section \<open>Flattening: relative offsets in the instructions\<close>

fun offset_of :: "nat \<Rightarrow> target \<Rightarrow> nat" where
  "offset_of n Acc = n"
| "offset_of n Rej = n + 1"
| "offset_of n (Rel k) = k"

fun flatten :: "block \<Rightarrow> Instruction list" where
  "flatten [] = []"
| "flatten (Op i # B) = i # flatten B"
| "flatten (Jmp i t f # B) =
     i\<lparr>i_jt := of_nat (offset_of (length B) t), i_jf := of_nat (offset_of (length B) f)\<rparr>
       # flatten B"

lemma length_flatten [simp]: "length (flatten B) = length B"
  by (induction B rule: flatten.induct) auto

text \<open>The first jump offset that does not fit in a byte, in the order the assembler checks them.\<close>

fun first_far :: "block \<Rightarrow> nat option" where
  "first_far [] = None"
| "first_far (Op i # B) = first_far B"
| "first_far (Jmp i t f # B) =
     (if offset_of (length B) t > 255 then Some (offset_of (length B) t)
      else if offset_of (length B) f > 255 then Some (offset_of (length B) f)
      else first_far B)"

definition link :: "block \<Rightarrow> Instruction list \<Rightarrow> Panic + Instruction list" where
  "link B epilogue =
     (case first_far B of None \<Rightarrow> Inr (flatten B @ epilogue) | Some d \<Rightarrow> Inl (OffsetTooLarge d))"

text \<open>
  A well-formed block leaves only through \<open>Acc\<close> and \<open>Rej\<close>: relative jumps land inside the block
  and its last item is a jump.
\<close>

fun wf_target :: "nat \<Rightarrow> target \<Rightarrow> bool" where
  "wf_target n (Rel k) \<longleftrightarrow> k < n"
| "wf_target n _ \<longleftrightarrow> True"

fun wf_block :: "block \<Rightarrow> bool" where
  "wf_block [] \<longleftrightarrow> False"
| "wf_block (Op i # B) \<longleftrightarrow> wf_block B"
| "wf_block (Jmp i t f # B) \<longleftrightarrow>
     wf_target (length B) t \<and> wf_target (length B) f \<and> (B = [] \<or> wf_block B)"

lemma wf_block_nonempty: "wf_block B \<Longrightarrow> B \<noteq> []"
  by auto

lemma wf_target_move:
  "wf_target n t \<Longrightarrow> wf_target c ta \<Longrightarrow> wf_target c tr \<Longrightarrow> wf_target (n + c) (move_target ta tr n t)"
  by (cases t) (auto split: target.splits)

text \<open>
  Redirected exits may point into the code that follows, of length \<open>c\<close>; with no code after it the
  exits stay exits.
\<close>

lemma wf_retarget_append:
  assumes "wf_block B" "wf_target (length C) ta" "wf_target (length C) tr" "C = [] \<or> wf_block C"
  shows "wf_block (retarget ta tr B @ C)"
  using assms
proof (induction B rule: wf_block.induct)
  case (3 i t f B)
  then show ?case
    using wf_target_move [of "length B" _ "length C" ta tr] by (cases "B = []") auto
qed auto

lemma wf_append: "wf_block B \<Longrightarrow> wf_block C \<Longrightarrow> wf_block (B @ C)"
proof (induction B rule: wf_block.induct)
  case (3 i t f B)
  then show ?case by (cases t; cases f) auto
qed auto

lemma wf_blocks [simp, intro]:
  assumes "wf_block B" "wf_block C"
  shows "wf_block (and_block B C)" "wf_block (or_block B C)"
  using assms wf_block_nonempty [of C]
  by (auto simp: and_block_def or_block_def intro!: wf_retarget_append)

lemma wf_not_block [simp, intro]: "wf_block B \<Longrightarrow> wf_block (not_block B)"
  using wf_retarget_append [of B "[]" Rej Acc] by (simp add: not_block_def)

lemma wf_ite_block [simp, intro]:
  "wf_block B \<Longrightarrow> wf_block C \<Longrightarrow> wf_block D \<Longrightarrow> wf_block (ite_block B C D)"
  unfolding ite_block_def
  by (rule wf_retarget_append) (auto intro: wf_append dest: wf_block_nonempty)

lemma first_far_small:
  "wf_block B \<Longrightarrow> length B \<le> 255 \<Longrightarrow> first_far B = None"
proof (induction B rule: first_far.induct)
  case (3 i t f B)
  then show ?case by (cases t; cases f) auto
qed auto

section \<open>Emission\<close>

text \<open>
  \<open>links L a r i B ps\<close>: the pending entries \<open>ps\<close> are those of the jumps of \<open>B\<close> laid out from index
  \<open>i\<close>, where \<open>a\<close> and \<open>r\<close> are the labels of the exits and \<open>L\<close> holds the labels placed inside.
\<close>

fun denotes :: "(LabelId \<rightharpoonup> nat) \<Rightarrow> LabelId \<Rightarrow> LabelId \<Rightarrow> nat \<Rightarrow> target \<Rightarrow> LabelId \<Rightarrow> bool" where
  "denotes L a r j Acc l \<longleftrightarrow> l = a"
| "denotes L a r j Rej l \<longleftrightarrow> l = r"
| "denotes L a r j (Rel k) l \<longleftrightarrow> L l = Some (j + k)"

fun links ::
  "(LabelId \<rightharpoonup> nat) \<Rightarrow> LabelId \<Rightarrow> LabelId \<Rightarrow> nat \<Rightarrow> block \<Rightarrow> (nat \<times> bool \<times> LabelId) list \<Rightarrow> bool"
where
  "links L a r i [] ps \<longleftrightarrow> ps = []"
| "links L a r i (Op x # B) ps \<longleftrightarrow> links L a r (i + 1) B ps"
| "links L a r i (Jmp x t f # B) ps \<longleftrightarrow>
     (\<exists>lt lf ps'. ps = (i, True, lt) # (i, False, lf) # ps' \<and>
        denotes L a r (i + 1) t lt \<and> denotes L a r (i + 1) f lf \<and> links L a r (i + 1) B ps')"

lemma denotes_mono: "denotes L a r j t l \<Longrightarrow> L \<subseteq>\<^sub>m L' \<Longrightarrow> denotes L' a r j t l"
  by (cases t) (auto simp: map_le_def dom_def)

lemma links_mono: "links L a r i B ps \<Longrightarrow> L \<subseteq>\<^sub>m L' \<Longrightarrow> links L' a r i B ps"
proof (induction B arbitrary: i ps)
  case (Cons x B)
  then show ?case by (cases x) (auto intro: denotes_mono)
qed simp

lemma links_append:
  "links L a r i B ps \<Longrightarrow> links L a r (i + length B) C qs \<Longrightarrow> links L a r i (B @ C) (ps @ qs)"
proof (induction B arbitrary: i ps)
  case (Cons x B)
  then show ?case by (cases x) (auto simp: add.assoc)
qed simp

lemma denotes_move:
  assumes "denotes L0 a0 r0 j t l" "L0 \<subseteq>\<^sub>m L"
    and "denotes L a r (j + n) ta a0" "denotes L a r (j + n) tr r0"
  shows "denotes L a r j (move_target ta tr n t) l"
  using assms
  by (cases t) (auto split: target.splits simp: map_le_def dom_def add.assoc)

lemma links_retarget:
  assumes "links L0 a0 r0 i B ps" "L0 \<subseteq>\<^sub>m L"
    and "denotes L a r (i + length B) ta a0" "denotes L a r (i + length B) tr r0"
  shows "links L a r i (retarget ta tr B) ps"
  using assms
proof (induction B arbitrary: i ps)
  case (Cons x B)
  then show ?case by (cases x) (auto intro!: denotes_move simp: add.assoc)
qed simp

definition emitted ::
  "Assembler \<Rightarrow> LabelId \<Rightarrow> LabelId \<Rightarrow> block \<Rightarrow> Assembler \<Rightarrow> bool" where
  "emitted s a r B s' \<longleftrightarrow>
     insts s' = insts s @ map item_inst B \<and>
     (\<exists>ps. pending s' = pending s @ ps \<and>
        links (labels s' |` {next_label s..<next_label s'}) a r (length (insts s)) B ps) \<and>
     next_label s \<le> next_label s' \<and>
     (\<forall>l < next_label s. labels s' l = labels s l)"

definition emits :: "(LabelId \<Rightarrow> LabelId \<Rightarrow> (Assembler, unit) state) \<Rightarrow> block \<Rightarrow> bool" where
  "emits m B \<longleftrightarrow> (\<forall>s a r. emitted s a r B (snd (run_state (m a r) s)))"

lemma emitsD: "emits m B \<Longrightarrow> emitted s a r B (snd (run_state (m a r) s))"
  by (simp add: emits_def)

text \<open>
  Sequencing: a block whose exits are \<open>a'\<close> and \<open>r'\<close>, of which at most the fresh label \<open>mid\<close> is new,
  then the placement of \<open>mid\<close>, then a second block.
\<close>

lemma emitted_seq:
  assumes B: "emitted s1 a' r' B s2" and C: "emitted s3 a r C s4"
    and s1: "s1 = s\<lparr>next_label := next_label s + 1\<rparr>" and mid: "mid = next_label s"
    and s3: "s3 = s2\<lparr>labels := (labels s2)(mid \<mapsto> length (insts s2))\<rparr>"
    and ta: "ta = Rel 0 \<and> a' = mid \<or> ta = Acc \<and> a' = a"
    and tr: "tr = Rel 0 \<and> r' = mid \<or> tr = Rej \<and> r' = r"
  shows "emitted s a r (retarget ta tr B @ C) s4"
proof -
  let ?i = "length (insts s)" and ?L = "labels s4 |` {next_label s..<next_label s4}"
  from B s1 obtain ps where i2: "insts s2 = insts s @ map item_inst B"
    and ps: "pending s2 = pending s @ ps"
    and lB: "links (labels s2 |` {next_label s + 1..<next_label s2}) a' r' ?i B ps"
    and n2: "next_label s + 1 \<le> next_label s2"
    and f2: "\<forall>l < next_label s + 1. labels s2 l = labels s l"
    by (auto simp: emitted_def)
  from C s3 obtain qs where i4: "insts s4 = insts s2 @ map item_inst C"
    and qs: "pending s4 = pending s2 @ qs"
    and lC: "links (labels s4 |` {next_label s2..<next_label s4}) a r (length (insts s2)) C qs"
    and n4: "next_label s2 \<le> next_label s4"
    and f4: "\<forall>l < next_label s2. labels s4 l = ((labels s2)(mid \<mapsto> length (insts s2))) l"
    by (auto simp: emitted_def)
  have end_B: "length (insts s2) = ?i + length B" using i2 by simp
  have Lmid: "?L mid = Some (?i + length B)"
    using f4 n2 n4 mid end_B by (simp add: restrict_map_def)
  have sub2: "labels s2 |` {next_label s + 1..<next_label s2} \<subseteq>\<^sub>m ?L"
    using f4 n4 mid by (auto simp: map_le_def restrict_map_def dom_def split: if_splits)
  have sub4: "labels s4 |` {next_label s2..<next_label s4} \<subseteq>\<^sub>m ?L"
    using n2 by (auto simp: map_le_def restrict_map_def dom_def split: if_splits)
  have "links ?L a r ?i (retarget ta tr B) ps"
    using lB sub2 by (rule links_retarget) (use Lmid ta tr in auto)
  moreover have "links ?L a r (?i + length (retarget ta tr B)) C qs"
    using links_mono [OF lC sub4] end_B by simp
  ultimately have "links ?L a r ?i (retarget ta tr B @ C) (ps @ qs)"
    by (rule links_append)
  then show ?thesis
    unfolding emitted_def using i2 i4 ps qs n2 n4 f2 f4 mid by simp
qed

lemma emits_seq:
  assumes "emits m1 B" "emits m2 C"
    and "\<And>a r mid. ta = Rel 0 \<and> ea a mid = mid \<or> ta = Acc \<and> ea a mid = a"
    and "\<And>a r mid. tr = Rel 0 \<and> er r mid = mid \<or> tr = Rej \<and> er r mid = r"
  shows "emits (\<lambda>a r. do { mid \<leftarrow> new_label; m1 (ea a mid) (er r mid); place_here mid; m2 a r })
           (retarget ta tr B @ C)"
  unfolding emits_def
proof (intro allI)
  fix s :: Assembler and a r :: LabelId
  define s1 where "s1 = s\<lparr>next_label := next_label s + 1\<rparr>"
  define s2 where "s2 = snd (run_state (m1 (ea a (next_label s)) (er r (next_label s))) s1)"
  define s3 where "s3 = s2\<lparr>labels := (labels s2)(next_label s \<mapsto> length (insts s2))\<rparr>"
  have run: "snd (run_state (do { mid \<leftarrow> new_label; m1 (ea a mid) (er r mid); place_here mid; m2 a r }) s)
      = snd (run_state (m2 a r) s3)"
    by (simp add: asm_simps s1_def s2_def s3_def split: prod.splits)
  show "emitted s a r (retarget ta tr B @ C)
      (snd (run_state (do { mid \<leftarrow> new_label; m1 (ea a mid) (er r mid); place_here mid; m2 a r }) s))"
    unfolding run
  proof (rule emitted_seq [OF _ _ s1_def refl s3_def])
    show "emitted s1 (ea a (next_label s)) (er r (next_label s)) B s2"
      using assms(1) by (simp add: s2_def emitsD)
    show "emitted s3 a r C (snd (run_state (m2 a r) s3))"
      using assms(2) by (rule emitsD)
  qed (use assms(3,4) in blast)+
qed

lemma emits_and:
  "emits m1 B \<Longrightarrow> emits m2 C \<Longrightarrow>
   emits (\<lambda>a r. do { mid \<leftarrow> new_label; m1 mid r; place_here mid; m2 a r }) (and_block B C)"
  unfolding and_block_def
  using emits_seq [where ea = "\<lambda>a mid. mid" and er = "\<lambda>r mid. r" and ta = "Rel 0" and tr = Rej]
  by simp

lemma emits_or:
  "emits m1 B \<Longrightarrow> emits m2 C \<Longrightarrow>
   emits (\<lambda>a r. do { mid \<leftarrow> new_label; m1 a mid; place_here mid; m2 a r }) (or_block B C)"
  unfolding or_block_def
  using emits_seq [where ea = "\<lambda>a mid. a" and er = "\<lambda>r mid. mid" and ta = Acc and tr = "Rel 0"]
  by simp

lemma emits_not: "emits m B \<Longrightarrow> emits (\<lambda>a r. m r a) (not_block B)"
  unfolding emits_def emitted_def not_block_def
  by simp (meson denotes.simps links_retarget map_le_refl)

section \<open>Resolution\<close>

lemma resolve_block:
  assumes "links L a r (length pre) B ps"
    and "L a = Some (length pre + length B)" "L r = Some (length pre + length B + 1)"
  shows "resolve_loop L ps (pre @ map item_inst B @ post) =
     (case first_far B of
        None \<Rightarrow> Inr (pre @ flatten B @ post) | Some d \<Rightarrow> Inl (OffsetTooLarge d))"
  using assms
proof (induction B arbitrary: pre ps)
  case (Cons x B)
  show ?case
  proof (cases x)
    case (Op i)
    then show ?thesis using Cons.IH [of "pre @ [i]" ps] Cons.prems
      by (simp split: option.splits)
  next
    case (Jmp i t f)
    from Cons.prems Jmp obtain lt lf ps' where
      ps: "ps = (length pre, True, lt) # (length pre, False, lf) # ps'"
      and t: "denotes L a r (length pre + 1) t lt" and f: "denotes L a r (length pre + 1) f lf"
      and ps': "links L a r (length pre + 1) B ps'"
      by auto
    let ?j = "i\<lparr>i_jt := of_nat (offset_of (length B) t), i_jf := of_nat (offset_of (length B) f)\<rparr>"
    have lt: "L lt = Some (length pre + 1 + offset_of (length B) t)"
      using t Cons.prems by (cases t) (auto simp: add.assoc)
    have lf: "L lf = Some (length pre + 1 + offset_of (length B) f)"
      using f Cons.prems by (cases f) (auto simp: add.assoc)
    have IH: "resolve_loop L ps' ((pre @ [?j]) @ map item_inst B @ post) =
      (case first_far B of
         None \<Rightarrow> Inr ((pre @ [?j]) @ flatten B @ post) | Some d \<Rightarrow> Inl (OffsetTooLarge d))"
      by (rule Cons.IH) (use ps' Cons.prems in auto)
    show ?thesis
      using lt lf IH by (auto simp: ps Jmp Let_def split: option.splits)
  qed
qed simp

end
