(* ===== verification/Reference_Codegen.thy ===== *)
theory Reference_Codegen
  imports Compiler Code_Blocks
begin

text \<open>
  The reference code generator: for every construct of the filter language the label-free block
  that says what is tested in which order. The lemmas \<open>emits_\<dots>\<close> prove that the functions of
  \<open>Compiler\<close> emit exactly these blocks, and \<open>compile_refines\<close> that \<open>compile\<close> is the linking of the
  reference block.
\<close>

section \<open>Reference blocks\<close>

definition test_block :: "Instruction \<Rightarrow> Instruction \<Rightarrow> block" where
  [block_simps]: "test_block ld j = [Op ld, Jmp j Acc Rej]"

definition ethertype_block :: "u16 \<Rightarrow> block" where
  [block_simps]: "ethertype_block e = test_block (ld_abs_h 12) (jeq (ucast e))"

definition dir_block :: "Direction \<Rightarrow> block \<Rightarrow> block \<Rightarrow> block" where
  [block_simps]: "dir_block dir S D = (case dir of Any \<Rightarrow> or_block S D | Src \<Rightarrow> S | Dst \<Rightarrow> D)"

text \<open>Case distinction on the network layer: IPv4 code, else IPv6 code, else reject.\<close>

definition ip_version_block :: "block \<Rightarrow> block \<Rightarrow> block" where
  [block_simps]: "ip_version_block B4 B6 =
     ite_block (ethertype_block ETHERTYPE_IP) B4
       (and_block [Jmp (jeq (ucast ETHERTYPE_IPV6)) Acc Rej] B6)"

definition transport_block :: "u32 \<Rightarrow> block" where
  [block_simps]: "transport_block n =
     ip_version_block (test_block (ld_abs_b 23) (jeq n)) (test_block (ld_abs_b 20) (jeq n))"

fun proto_block :: "Protocol \<Rightarrow> block" where
  "proto_block Ip = ethertype_block ETHERTYPE_IP"
| "proto_block Ip6 = ethertype_block ETHERTYPE_IPV6"
| "proto_block Arp = ethertype_block ETHERTYPE_ARP"
| "proto_block Rarp = ethertype_block ETHERTYPE_RARP"
| "proto_block Tcp = transport_block (ucast IPPROTO_TCP)"
| "proto_block Udp = transport_block (ucast IPPROTO_UDP)"
| "proto_block Icmp = and_block (ethertype_block ETHERTYPE_IP)
     (test_block (ld_abs_b 23) (jeq (ucast IPPROTO_ICMP)))"
| "proto_block Icmp6 = and_block (ethertype_block ETHERTYPE_IPV6)
     (test_block (ld_abs_b 20) (jeq (ucast IPPROTO_ICMPV6)))"

text \<open>Four consecutive words at \<open>off\<close>, each optionally masked, all equal to the given words.\<close>

fun words_block :: "u32 \<Rightarrow> nat \<Rightarrow> u32 list \<Rightarrow> block" where
  "words_block off i [] = []"
| "words_block off i [w] = test_block (ld_abs_w (off + of_nat i * 4)) (jeq w)"
| "words_block off i (w # v # ws) =
     and_block (test_block (ld_abs_w (off + of_nat i * 4)) (jeq w)) (words_block off (i + 1) (v # ws))"

definition and_k :: "u32 \<Rightarrow> Instruction" where
  "and_k m = Instruction_new (BPF_ALU OR BPF_AND OR BPF_K) 0 0 m"

definition ld_len :: Instruction where
  "ld_len = Instruction_new (BPF_LD OR BPF_LEN OR BPF_W) 0 0 0"

definition masked_test :: "Instruction \<Rightarrow> u32 \<Rightarrow> u32 \<Rightarrow> block" where
  [block_simps]: "masked_test ld m w = [Op ld, Op (and_k m), Jmp (jeq w) Acc Rej]"

fun masked_words_block :: "u32 \<Rightarrow> nat \<Rightarrow> (u32 \<times> u32) list \<Rightarrow> block" where
  "masked_words_block off i [] = []"
| "masked_words_block off i [(w, m)] = masked_test (ld_abs_w (off + of_nat i * 4)) m w"
| "masked_words_block off i ((w, m) # v # ws) =
     and_block (masked_test (ld_abs_w (off + of_nat i * 4)) m w)
       (masked_words_block off (i + 1) (v # ws))"

fun host_block :: "HostAddr \<Rightarrow> Direction \<Rightarrow> block" where
  "host_block (HostV4 a) dir = and_block (ethertype_block ETHERTYPE_IP)
     (dir_block dir (test_block (ld_abs_w 26) (jeq (u32_from_ipv4 a)))
                    (test_block (ld_abs_w 30) (jeq (u32_from_ipv4 a))))"
| "host_block (HostV6 a) dir = and_block (ethertype_block ETHERTYPE_IPV6)
     (dir_block dir (words_block 22 0 (ipv6_words a)) (words_block 38 0 (ipv6_words a)))"

text \<open>A as loaded by \<open>ld\<close> is TCP or UDP.\<close>

definition tcp_or_udp_block :: "Instruction \<Rightarrow> block" where
  [block_simps]: "tcp_or_udp_block ld =
     or_block (test_block ld (jeq (ucast IPPROTO_TCP))) [Jmp (jeq (ucast IPPROTO_UDP)) Acc Rej]"

text \<open>The port tests of both network layers around a test \<open>cmp ld_src ld_dst\<close> of the two ports.\<close>

definition ports_block :: "(Instruction \<Rightarrow> Instruction \<Rightarrow> block) \<Rightarrow> block" where
  [block_simps]: "ports_block cmp =
     ip_version_block
       (and_block (tcp_or_udp_block (ld_abs_b 23)) (Op (ldx_msh_b 14) # cmp (ld_ind_h 14) (ld_ind_h 16)))
       (and_block (tcp_or_udp_block (ld_abs_b 20)) (cmp (ld_abs_h 54) (ld_abs_h 56)))"

definition port_cmp :: "u32 \<Rightarrow> Direction \<Rightarrow> Instruction \<Rightarrow> Instruction \<Rightarrow> block" where
  [block_simps]: "port_cmp p dir ls ld = dir_block dir (test_block ls (jeq p)) (test_block ld (jeq p))"

definition range_block :: "u32 \<Rightarrow> u32 \<Rightarrow> Instruction \<Rightarrow> block" where
  [block_simps]: "range_block lo hi ld =
     and_block (test_block ld (jge lo)) [Jmp (jgt hi) Rej Acc]"

text \<open>
  In direction \<open>Any\<close> the code rejects when the source port is below the range; it looks at the
  destination port only when the source port is above it.
\<close>

definition range_cmp :: "u32 \<Rightarrow> u32 \<Rightarrow> Direction \<Rightarrow> Instruction \<Rightarrow> Instruction \<Rightarrow> block" where
  [block_simps]: "range_cmp lo hi dir ls ld =
     (case dir of
        Any \<Rightarrow> and_block (test_block ls (jge lo))
                 (or_block [Jmp (jgt hi) Rej Acc] (range_block lo hi ld))
      | Src \<Rightarrow> range_block lo hi ls
      | Dst \<Rightarrow> range_block lo hi ld)"

definition mac_block :: "u32 \<Rightarrow> u32 \<Rightarrow> u32 \<Rightarrow> block" where
  [block_simps]: "mac_block high low off =
     and_block (test_block (ld_abs_w off) (jeq high)) (test_block (ld_abs_h (off + 4)) (jeq low))"

definition ether_block :: "u8 list \<Rightarrow> Direction \<Rightarrow> block" where
  [block_simps]: "ether_block addr dir =
     (let high = u32_from_be_bytes (addr ! 0) (addr ! 1) (addr ! 2) (addr ! 3);
          low = ucast (u16_from_be_bytes (addr ! 4) (addr ! 5)) in
      case dir of
        Any \<Rightarrow> or_block (mac_block high low 0) (mac_block high low 6)
      | Src \<Rightarrow> mac_block high low 6
      | Dst \<Rightarrow> mac_block high low 0)"

fun net_block :: "NetAddr \<Rightarrow> Direction \<Rightarrow> block" where
  "net_block (NetV4 a m) dir = and_block (ethertype_block ETHERTYPE_IP)
     (let net = u32_from_ipv4 a AND u32_from_ipv4 m; mk = u32_from_ipv4 m in
      dir_block dir (masked_test (ld_abs_w 26) mk net) (masked_test (ld_abs_w 30) mk net))"
| "net_block (NetV6 a m) dir = and_block (ethertype_block ETHERTYPE_IPV6)
     (let ws = zip (ipv6_words a) (ipv6_words m) in
      dir_block dir (masked_words_block 22 0 ws) (masked_words_block 38 0 ws))"

fun len_block :: "RelOp \<Rightarrow> u32 \<Rightarrow> block" where
  "len_block Eq n = test_block ld_len (jeq n)"
| "len_block Ne n = [Op ld_len, Jmp (jeq n) Rej Acc]"
| "len_block Gt n = test_block ld_len (jgt n)"
| "len_block Ge n = test_block ld_len (jge n)"
| "len_block Lt n = [Op ld_len, Jmp (jge n) Rej Acc]"
| "len_block Le n = [Op ld_len, Jmp (jgt n) Rej Acc]"

fun node_block :: "FilterAst \<Rightarrow> block" where
  "node_block (And l r) = and_block (node_block l) (node_block r)"
| "node_block (Or l r) = or_block (node_block l) (node_block r)"
| "node_block (Not' e) = not_block (node_block e)"
| "node_block (Proto p) = proto_block p"
| "node_block (Host a dir) = host_block a dir"
| "node_block (Port p dir) = ports_block (port_cmp (ucast p) dir)"
| "node_block (PortRange lo hi dir) = ports_block (range_cmp (ucast lo) (ucast hi) dir)"
| "node_block (EtherHost a dir) = ether_block a dir"
| "node_block (Net a dir) = net_block a dir"
| "node_block (Len op' n) = len_block op' n"

section \<open>The compiler emits the reference blocks\<close>

lemmas emit_eval =
  emits_def emitted_def asm_simps block_simps and_block_def or_block_def not_block_def
  ite_block_def restrict_map_def Let_def

lemma emits_check_ethertype: "emits (check_ethertype e) (ethertype_block e)"
  by (simp add: check_ethertype_def emit_eval)

lemma emits_transport:
  "transport_number proto = Some n \<Longrightarrow> emits (compile_transport_proto proto) (transport_block n)"
  by (simp add: compile_transport_proto_def emit_eval)

lemma emits_proto: "emits (compile_proto proto) (proto_block proto)"
  by (cases proto) (simp_all add: compile_proto_def check_ethertype_def compile_transport_proto_def
      transport_number_def compile_icmpv4_def compile_icmpv6_def emit_eval)

lemma emits_host: "emits (compile_host a dir) (host_block a dir)"
  by (cases a; cases dir) (simp_all add: compile_host_def compile_ipv4_host_def
      compile_ipv6_host_def check_ipv6_addr_at_def ipv6_words_def emit_eval)

lemma emits_port: "emits (compile_port p dir) (ports_block (port_cmp (ucast p) dir))"
  by (cases dir) (simp_all add: compile_port_def check_transport_and_compare_ports_def
      compare_port_abs_def compare_port_ind_def emit_eval)

lemma emits_port_range:
  "emits (compile_port_range lo hi dir) (ports_block (range_cmp (ucast lo) (ucast hi) dir))"
  by (cases dir) (simp_all add: compile_port_range_def check_transport_and_compare_portrange_def
      compare_portrange_abs_def compare_portrange_ind_def emit_eval)

lemma emits_ether_host: "emits (compile_ether_host a dir) (ether_block a dir)"
  by (cases dir) (simp_all add: compile_ether_host_def ether_check_at_def emit_eval)

lemma emits_net: "emits (compile_net a dir) (net_block a dir)"
  by (cases a; cases dir) (simp_all add: compile_net_def compile_ipv4_net_def compile_ipv6_net_def
      ipv4_net_check_addr_def check_ipv6_net_at_def ipv6_words_def and_k_def emit_eval)

lemma emits_len: "emits (compile_len op' n) (len_block op' n)"
  by (cases op') (simp_all add: compile_len_def ld_len_def emit_eval)

lemmas emits_leaf =
  emits_proto emits_host emits_port emits_port_range emits_ether_host emits_net emits_len

end
