(* ===== verification/Vm.thy ===== *)
theory Vm
  imports Bpf_Types
begin

text \<open>
  The classic-BPF interpreter of \<^verbatim>\<open>crates/netdump-cbpf/src/vm.rs\<close>. One iteration of the \<open>while\<close> loop is
  \<open>vm_step\<close>, whose result says whether the code executes \<open>return\<close> or goes round the loop again;
  the loop is \<open>exec_loop\<close>, and \<open>Vm_exec\<close> starts it in the initial state. The loop is a
  \<^theory_text>\<open>partial_function\<close>: \<open>None\<close> means that it does not return, and the theorems below
  show for which programs that cannot happen.
\<close>

section \<open>Packet reads\<close>

definition read_u8 :: "packet_bytes \<Rightarrow> nat \<Rightarrow> u8" where
  "read_u8 packet offset = (if offset < length packet then packet ! offset else 0)"

definition read_u16 :: "packet_bytes \<Rightarrow> nat \<Rightarrow> u16" where
  "read_u16 packet offset =
     (if offset + 2 > length packet then 0
      else u16_from_be_bytes (packet ! offset) (packet ! (offset + 1)))"

definition read_u32 :: "packet_bytes \<Rightarrow> nat \<Rightarrow> u32" where
  "read_u32 packet offset =
     (if offset + 4 > length packet then 0
      else u32_from_be_bytes (packet ! offset) (packet ! (offset + 1))
             (packet ! (offset + 2)) (packet ! (offset + 3)))"

section \<open>Machine state and one iteration of the loop\<close>

record vm_state =
  pc :: nat
  reg_a :: u32
  reg_x :: u32
  mem :: "u32 list"

definition vm_init :: vm_state where
  "vm_init = \<lparr>pc = 0, reg_a = 0, reg_x = 0, mem = replicate 16 0\<rparr>"

datatype vm_outcome = Continue vm_state | Return bool

text \<open>
  \<open>wrapping_shl\<close> and \<open>wrapping_shr\<close> of Rust reduce the shift amount modulo the bit width.
\<close>

definition wrapping_shl_u32 :: "u32 \<Rightarrow> u32 \<Rightarrow> u32" where
  "wrapping_shl_u32 a n = push_bit (unat n mod 32) a"

definition wrapping_shr_u32 :: "u32 \<Rightarrow> u32 \<Rightarrow> u32" where
  "wrapping_shr_u32 a n = drop_bit (unat n mod 32) a"

definition mem_index :: "Instruction \<Rightarrow> nat" where
  "mem_index inst = unat (i_k inst mod 16)"

text \<open>The three loads by operand size; \<open>None\<close> is the \<open>_ => return false\<close> arm.\<close>

definition load_sized :: "u16 \<Rightarrow> packet_bytes \<Rightarrow> nat \<Rightarrow> u32 option" where
  "load_sized size' packet off =
     (if size' = BPF_B then Some (ucast (read_u8 packet off))
      else if size' = BPF_H then Some (ucast (read_u16 packet off))
      else if size' = BPF_W then Some (read_u32 packet off)
      else None)"

definition step_ld :: "packet_bytes \<Rightarrow> Instruction \<Rightarrow> vm_state \<Rightarrow> vm_outcome" where
  "step_ld packet inst s =
     (let size' = i_code inst AND 0x18; mode = i_code inst AND 0xE0 in
      if mode = BPF_IMM then Continue (s\<lparr>reg_a := i_k inst\<rparr>)
      else if mode = BPF_ABS then
        (case load_sized size' packet (unat (i_k inst)) of
           Some v \<Rightarrow> Continue (s\<lparr>reg_a := v\<rparr>) | None \<Rightarrow> Return False)
      else if mode = BPF_IND then
        (case load_sized size' packet (unat (reg_x s) + unat (i_k inst)) of
           Some v \<Rightarrow> Continue (s\<lparr>reg_a := v\<rparr>) | None \<Rightarrow> Return False)
      else if mode = BPF_MEM then Continue (s\<lparr>reg_a := mem s ! mem_index inst\<rparr>)
      else if mode = BPF_LEN then Continue (s\<lparr>reg_a := of_nat (length packet)\<rparr>)
      else Return False)"

definition step_ldx :: "packet_bytes \<Rightarrow> Instruction \<Rightarrow> vm_state \<Rightarrow> vm_outcome" where
  "step_ldx packet inst s =
     (let mode = i_code inst AND 0xE0 in
      if mode = BPF_IMM then Continue (s\<lparr>reg_x := i_k inst\<rparr>)
      else if mode = BPF_MSH then
        Continue (s\<lparr>reg_x := ucast (read_u8 packet (unat (i_k inst)) AND 0x0f) * 4\<rparr>)
      else if mode = BPF_MEM then Continue (s\<lparr>reg_x := mem s ! mem_index inst\<rparr>)
      else Return False)"

text \<open>The ALU: \<open>None\<close> is an arm that executes \<open>return false\<close>.\<close>

definition alu :: "u16 \<Rightarrow> u32 \<Rightarrow> u32 \<Rightarrow> u32 option" where
  "alu op' a k =
     (if op' = BPF_ADD then Some (a + k)
      else if op' = BPF_SUB then Some (a - k)
      else if op' = BPF_MUL then Some (a * k)
      else if op' = BPF_DIV then (if k = 0 then None else Some (a div k))
      else if op' = BPF_OR then Some (a OR k)
      else if op' = BPF_AND then Some (a AND k)
      else if op' = BPF_LSH then Some (wrapping_shl_u32 a k)
      else if op' = BPF_RSH then Some (wrapping_shr_u32 a k)
      else if op' = BPF_MOD then (if k = 0 then None else Some (a mod k))
      else if op' = BPF_XOR then Some (a XOR k)
      else if op' = BPF_NEG then Some (- a)
      else None)"

definition jump_cond :: "u16 \<Rightarrow> u32 \<Rightarrow> u32 \<Rightarrow> bool option" where
  "jump_cond op' a k =
     (if op' = BPF_JEQ then Some (a = k)
      else if op' = BPF_JGT then Some (a > k)
      else if op' = BPF_JGE then Some (a \<ge> k)
      else if op' = BPF_JSET then Some (a AND k \<noteq> 0)
      else None)"

definition step_jmp :: "Instruction \<Rightarrow> vm_state \<Rightarrow> vm_outcome" where
  "step_jmp inst s =
     (let op' = i_code inst AND 0xf0 in
      if op' = BPF_JA then Continue (s\<lparr>pc := wrapping_add_usize (pc s) (unat (i_k inst))\<rparr>)
      else case jump_cond op' (reg_a s) (i_k inst) of
        None \<Rightarrow> Return False
      | Some cond \<Rightarrow>
          Continue (s\<lparr>pc := wrapping_add_usize (pc s)
                              (if cond then unat (i_jt inst) else unat (i_jf inst))\<rparr>))"

definition step_misc :: "Instruction \<Rightarrow> vm_state \<Rightarrow> vm_outcome" where
  "step_misc inst s =
     (let op' = i_code inst AND 0xf0 in
      if op' = BPF_TAX then Continue (s\<lparr>reg_x := reg_a s\<rparr>)
      else if op' = BPF_TXA then Continue (s\<lparr>reg_a := reg_x s\<rparr>)
      else Return False)"

text \<open>The body of the loop, entered with \<open>pc\<close> already advanced past \<open>inst\<close>.\<close>

definition vm_step :: "packet_bytes \<Rightarrow> Instruction \<Rightarrow> vm_state \<Rightarrow> vm_outcome" where
  "vm_step packet inst s =
     (let class' = i_code inst AND 0x07 in
      if class' = BPF_LD then step_ld packet inst s
      else if class' = BPF_LDX then step_ldx packet inst s
      else if class' = BPF_ST then Continue (s\<lparr>mem := (mem s)[mem_index inst := reg_a s]\<rparr>)
      else if class' = BPF_STX then Continue (s\<lparr>mem := (mem s)[mem_index inst := reg_x s]\<rparr>)
      else if class' = BPF_ALU then
        (case alu (i_code inst AND 0xf0) (reg_a s) (i_k inst) of
           Some v \<Rightarrow> Continue (s\<lparr>reg_a := v\<rparr>) | None \<Rightarrow> Return False)
      else if class' = BPF_JMP then step_jmp inst s
      else if class' = BPF_MISC then step_misc inst s
      else if class' = BPF_RET then
        Return ((if i_code inst AND 0x08 = BPF_K then i_k inst else reg_x s) \<noteq> 0)
      else Return False)"

section \<open>The loop\<close>

partial_function (option) exec_loop ::
  "Instruction list \<Rightarrow> packet_bytes \<Rightarrow> vm_state \<Rightarrow> bool option" where
  "exec_loop program packet s =
     (if pc s < length program then
        (case vm_step packet (program ! pc s) (s\<lparr>pc := pc s + 1\<rparr>) of
           Return b \<Rightarrow> Some b
         | Continue s' \<Rightarrow> exec_loop program packet s')
      else Some False)"

definition Vm_exec :: "Instruction list \<Rightarrow> packet_bytes \<Rightarrow> bool option" where
  "Vm_exec program packet = exec_loop program packet vm_init"

section \<open>Single steps\<close>

lemma mem_index_less: "mem_index inst < 16"
  by (simp add: mem_index_def unat_mod)

text \<open>
  A step keeps the scratch memory at its 16 words, so that \<open>mem[(inst.k % 16) as usize]\<close> never
  indexes out of bounds.
\<close>

lemmas step_defs = vm_step_def step_ld_def step_ldx_def step_jmp_def step_misc_def Let_def

lemma vm_step_mem: "vm_step packet inst s = Continue s' \<Longrightarrow> length (mem s') = length (mem s)"
  by (auto simp: step_defs split: if_splits option.splits)

text \<open>
  Jumps only go forward: with \<open>pc\<close> far enough below \<open>2 ^ 64\<close> nothing wraps, and the next
  instruction is at most \<open>2 ^ 32\<close> further on.
\<close>

lemma wrapping_add_bounds:
  "p \<le> 2 ^ 63 \<Longrightarrow> n < 2 ^ 32 \<Longrightarrow> p \<le> wrapping_add_usize p n \<and> wrapping_add_usize p n < p + 2 ^ 32"
  by (simp add: wrapping_add_usize_def)

lemma vm_step_pc:
  assumes "vm_step packet inst s = Continue s'" "pc s \<le> 2 ^ 63"
  shows "pc s \<le> pc s' \<and> pc s' < pc s + 2 ^ 32"
proof -
  have "pc s' = pc s \<or> pc s' = wrapping_add_usize (pc s) (unat (i_k inst)) \<or>
      pc s' = wrapping_add_usize (pc s) (unat (i_jt inst)) \<or>
      pc s' = wrapping_add_usize (pc s) (unat (i_jf inst))"
    using assms(1) by (auto simp: step_defs split: if_splits option.splits)
  moreover have "unat (i_k inst) < 2 ^ 32" "unat (i_jt inst) < 2 ^ 32" "unat (i_jf inst) < 2 ^ 32"
    by simp_all
  ultimately show ?thesis
    using wrapping_add_bounds [OF assms(2)] by (elim disjE) simp_all
qed

section \<open>Runs of the loop\<close>

text \<open>\<open>vm_iterate n\<close>: the loop goes round \<open>n\<close> times, from the state at its head to a state at its head.\<close>

inductive vm_iterate ::
  "Instruction list \<Rightarrow> packet_bytes \<Rightarrow> nat \<Rightarrow> vm_state \<Rightarrow> vm_state \<Rightarrow> bool"
  for program :: "Instruction list" and packet :: packet_bytes
where
  iterate_0: "vm_iterate program packet 0 s s"
| iterate_Suc: "vm_iterate program packet n s s' \<Longrightarrow> pc s' < length program \<Longrightarrow>
     vm_step packet (program ! pc s') (s'\<lparr>pc := pc s' + 1\<rparr>) = Continue s'' \<Longrightarrow>
     vm_iterate program packet (Suc n) s s''"

inductive_cases vm_iterate_SucE: "vm_iterate program packet (Suc n) s s'"

text \<open>A program is at most \<open>isize::MAX\<close> bytes of eight-byte instructions long.\<close>

definition vec_len_ok :: "Instruction list \<Rightarrow> bool" where
  "vec_len_ok program \<longleftrightarrow> length program < 2 ^ 60"

lemma vm_iterate_mem:
  "vm_iterate program packet n s s' \<Longrightarrow> length (mem s') = length (mem s)"
  by (induction rule: vm_iterate.induct) (auto dest: vm_step_mem)

lemma vm_iterate_pc:
  "vm_iterate program packet n s s' \<Longrightarrow> vec_len_ok program \<Longrightarrow> pc s + n \<le> pc s'"
proof (induction rule: vm_iterate.induct)
  case (iterate_Suc n s s' s'')
  then have "pc s' + 1 \<le> pc s''"
    using vm_step_pc [OF iterate_Suc.hyps(3)] by (simp add: vec_len_ok_def)
  with iterate_Suc show ?case by simp
qed simp

text \<open>Every iteration starts inside the program: at most \<open>length program\<close> of them are possible.\<close>

lemma vm_iterate_bound:
  assumes "vm_iterate program packet n s s'" "vec_len_ok program"
  shows "n \<le> length program"
  using assms(1)
proof cases
  case (iterate_Suc n' s1)
  then have "pc s + n' \<le> pc s1" using assms(2) by (auto dest: vm_iterate_pc)
  with iterate_Suc show ?thesis by simp
qed simp

lemma exec_loop_returns:
  "vec_len_ok program \<Longrightarrow> \<exists>b. exec_loop program packet s = Some b"
proof (induction "length program - pc s" arbitrary: s rule: less_induct)
  case less
  show ?case
  proof (cases "pc s < length program")
    case True
    show ?thesis
    proof (cases "vm_step packet (program ! pc s) (s\<lparr>pc := pc s + 1\<rparr>)")
      case (Continue s')
      have "pc s < pc s'"
        using vm_step_pc [OF Continue] True less.prems by (simp add: vec_len_ok_def)
      then have "length program - pc s' < length program - pc s" using True by arith
      then obtain b where "exec_loop program packet s' = Some b"
        using less.hyps less.prems by blast
      with True Continue show ?thesis by (subst exec_loop.simps) simp
    next
      case (Return b)
      with True show ?thesis by (subst exec_loop.simps) simp
    qed
  next
    case False
    then show ?thesis by (subst exec_loop.simps) auto
  qed
qed

text \<open>The loop's value is that of any state it reaches.\<close>

lemma exec_loop_iterate:
  "vm_iterate program packet n s s' \<Longrightarrow> exec_loop program packet s = exec_loop program packet s'"
proof (induction rule: vm_iterate.induct)
  case (iterate_Suc n s s' s'')
  then show ?case by (subst (asm) (2) exec_loop.simps) simp
qed simp

section \<open>Programs that never fall off the end\<close>

text \<open>
  The jump discipline the Linux kernel demands of a classic-BPF program: it is not empty, ends in
  a \<open>RET\<close>, and every jump lands on an instruction of the program.
\<close>

definition jumps_inside :: "nat \<Rightarrow> nat \<Rightarrow> Instruction \<Rightarrow> bool" where
  "jumps_inside len i inst \<longleftrightarrow>
     (i_code inst AND 0x07 = BPF_JMP \<longrightarrow>
        (if i_code inst AND 0xf0 = BPF_JA then i + 1 + unat (i_k inst) < len
         else i + 1 + unat (i_jt inst) < len \<and> i + 1 + unat (i_jf inst) < len))"

definition jump_safe :: "Instruction list \<Rightarrow> bool" where
  "jump_safe program \<longleftrightarrow>
     program \<noteq> [] \<and> i_code (last program) AND 0x07 = BPF_RET \<and>
     (\<forall>i < length program. jumps_inside (length program) i (program ! i))"

lemma vm_step_ret: "i_code inst AND 0x07 = BPF_RET \<Longrightarrow> vm_step packet inst s \<noteq> Continue s'"
  by (simp add: vm_step_def bpf_defs)

lemma jump_safe_step:
  assumes safe: "jump_safe program" and len: "vec_len_ok program" and pc: "pc s < length program"
    and step: "vm_step packet (program ! pc s) (s\<lparr>pc := pc s + 1\<rparr>) = Continue s'"
  shows "pc s' < length program"
proof -
  let ?i = "program ! pc s"
  have notret: "pc s \<noteq> length program - 1"
    using vm_step_ret [of ?i] step safe by (auto simp: jump_safe_def last_conv_nth)
  have inside: "jumps_inside (length program) (pc s) ?i" using safe pc by (simp add: jump_safe_def)
  have small: "wrapping_add_usize (Suc (pc s)) n = Suc (pc s) + n" if "n < 4294967296" for n
    using pc len that by (simp add: vec_len_ok_def wrapping_add_usize_small)
  show ?thesis
  proof (cases "i_code ?i AND 0x07 = BPF_JMP")
    case True
    then show ?thesis
      using step inside small
      by (auto simp: vm_step_def step_jmp_def jumps_inside_def bpf_defs Let_def
          split: if_splits option.splits)
  next
    case False
    then have "pc s' = pc s + 1"
      using step by (auto simp: step_defs split: if_splits option.splits)
    with pc notret show ?thesis by simp
  qed
qed

lemma jump_safe_iterate:
  "vm_iterate program packet n s s' \<Longrightarrow> jump_safe program \<Longrightarrow> vec_len_ok program \<Longrightarrow>
   pc s < length program \<Longrightarrow> pc s' < length program"
  by (induction rule: vm_iterate.induct) (auto intro: jump_safe_step)

section \<open>Properties of the interpreter\<close>

text \<open>
  C13. The interpreter returns on every program and every packet, after at most as many rounds of
  its loop as the program has instructions: jumps only go forward.
\<close>

theorem vm_terminates:
  assumes "vec_len_ok program"
  shows "(\<exists>b. Vm_exec program packet = Some b) \<and>
    (\<forall>n s. vm_iterate program packet n vm_init s \<longrightarrow> n \<le> length program)"
  using exec_loop_returns [OF assms] vm_iterate_bound [OF _ assms] by (auto simp: Vm_exec_def)

theorem vm_terminates_witness:
  "\<exists>b. Vm_exec [Instruction_new (BPF_JMP OR BPF_JA) 0 0 4294967295] [1, 2, 3] = Some b"
  using vm_terminates [of "[Instruction_new (BPF_JMP OR BPF_JA) 0 0 4294967295]" "[1, 2, 3]"]
  by (simp add: vec_len_ok_def)



end
