(* ===== verification/Block_Semantics.thy ===== *)
theory Block_Semantics
  imports Code_Blocks Vm
begin

text \<open>
  What a block decides: \<open>bout pkt B r\<close> evaluates a block on a packet from the registers \<open>r\<close> and
  returns the exit it takes and the registers there. The main lemma, \<open>exec_loop_block\<close>, says that
  the virtual machine on the flattened block, wherever it stands in a program, decides the same.
\<close>

section \<open>Registers, straight-line instructions and branches\<close>

type_synonym regs = "u32 \<times> u32 \<times> u32 list"

definition state_of :: "nat \<Rightarrow> regs \<Rightarrow> vm_state" where
  "state_of p r = \<lparr>pc = p, reg_a = fst r, reg_x = fst (snd r), mem = snd (snd r)\<rparr>"

definition regs_of :: "vm_state \<Rightarrow> regs" where
  "regs_of s = (reg_a s, reg_x s, mem s)"

lemma state_of_sel [simp]:
  "pc (state_of p r) = p" "reg_a (state_of p r) = fst r"
  "reg_x (state_of p r) = fst (snd r)" "mem (state_of p r) = snd (snd r)"
  "(state_of p r)\<lparr>pc := q\<rparr> = state_of q r" "regs_of (state_of p r) = r"
  by (simp_all add: state_of_def regs_of_def)

lemma state_of_upd [simp]:
  "(state_of p (a, x, m))\<lparr>reg_a := a'\<rparr> = state_of p (a', x, m)"
  "(state_of p (a, x, m))\<lparr>reg_x := x'\<rparr> = state_of p (a, x', m)"
  by (simp_all add: state_of_def)

definition exec_op :: "packet_bytes \<Rightarrow> Instruction \<Rightarrow> regs \<Rightarrow> regs" where
  "exec_op pkt i r =
     (case vm_step pkt i (state_of 0 r) of Continue s \<Rightarrow> regs_of s | Return _ \<Rightarrow> r)"

definition taken :: "Instruction \<Rightarrow> u32 \<Rightarrow> bool" where
  "taken i a = (jump_cond (i_code i AND 0xf0) a (i_k i) = Some True)"

definition plain :: "Instruction \<Rightarrow> bool" where
  "plain i \<longleftrightarrow> i_code i AND 0x07 \<noteq> BPF_JMP \<and>
     (\<forall>pkt p r. vm_step pkt i (state_of p r) = Continue (state_of p (exec_op pkt i r)))"

definition branch :: "Instruction \<Rightarrow> bool" where
  "branch i \<longleftrightarrow> i_code i AND 0xf0 \<noteq> BPF_JA \<and>
     (\<forall>pkt p r t f. vm_step pkt (i\<lparr>i_jt := t, i_jf := f\<rparr>) (state_of p r) =
        Continue (state_of (wrapping_add_usize p (if taken i (fst r) then unat t else unat f)) r))"

lemma plainD:
  "plain i \<Longrightarrow> vm_step pkt i (state_of p r) = Continue (state_of p (exec_op pkt i r))"
  unfolding plain_def by blast

lemma branchD:
  "branch i \<Longrightarrow> vm_step pkt (i\<lparr>i_jt := t, i_jf := f\<rparr>) (state_of p r) =
     Continue (state_of (wrapping_add_usize p (if taken i (fst r) then unat t else unat f)) r)"
  unfolding branch_def by blast

fun code_ok :: "block \<Rightarrow> bool" where
  "code_ok [] \<longleftrightarrow> True"
| "code_ok (Op i # B) \<longleftrightarrow> plain i \<and> code_ok B"
| "code_ok (Jmp i t f # B) \<longleftrightarrow> branch i \<and> code_ok B"

lemma code_ok_append [simp]: "code_ok (B @ C) \<longleftrightarrow> code_ok B \<and> code_ok C"
  by (induction B rule: code_ok.induct) auto

lemma code_ok_retarget [simp]: "code_ok (retarget ta tr B) \<longleftrightarrow> code_ok B"
  by (induction ta tr B rule: retarget.induct) auto

lemma code_ok_blocks [simp]:
  "code_ok (and_block B C) \<longleftrightarrow> code_ok B \<and> code_ok C"
  "code_ok (or_block B C) \<longleftrightarrow> code_ok B \<and> code_ok C"
  "code_ok (not_block B) \<longleftrightarrow> code_ok B"
  "code_ok (ite_block B C D) \<longleftrightarrow> code_ok B \<and> code_ok D \<and> code_ok C"
  by (auto simp: and_block_def or_block_def not_block_def ite_block_def)

section \<open>Evaluation of blocks\<close>

function bout :: "packet_bytes \<Rightarrow> block \<Rightarrow> regs \<Rightarrow> bool \<times> regs" where
  "bout pkt [] r = (True, r)"
| "bout pkt (Op i # B) r = bout pkt B (exec_op pkt i r)"
| "bout pkt (Jmp i t f # B) r =
     (case (if taken i (fst r) then t else f) of
        Acc \<Rightarrow> (True, r) | Rej \<Rightarrow> (False, r) | Rel k \<Rightarrow> bout pkt (drop k B) r)"
  by pat_completeness auto
termination by (relation "measure (\<lambda>(pkt, B, r). length B)") auto

text \<open>Where control goes after a block whose exits were redirected into the code \<open>C\<close> behind it.\<close>

definition exit_to :: "packet_bytes \<Rightarrow> block \<Rightarrow> target \<Rightarrow> regs \<Rightarrow> bool \<times> regs" where
  "exit_to pkt C t r =
     (case t of Acc \<Rightarrow> (True, r) | Rej \<Rightarrow> (False, r) | Rel k \<Rightarrow> bout pkt (drop k C) r)"

lemma exit_to_simps [simp]:
  "exit_to pkt C Acc r = (True, r)" "exit_to pkt C Rej r = (False, r)"
  "exit_to pkt C (Rel k) r = bout pkt (drop k C) r"
  by (simp_all add: exit_to_def)

lemma drop_retarget: "drop k (retarget ta tr B) = retarget ta tr (drop k B)"
proof (induction ta tr B arbitrary: k rule: retarget.induct)
  case (2 ta tr i B)
  then show ?case by (cases k) auto
next
  case (3 ta tr i t f B)
  then show ?case by (cases k) auto
qed simp

lemma wf_block_drop: "wf_block B \<Longrightarrow> k < length B \<Longrightarrow> wf_block (drop k B)"
proof (induction B arbitrary: k rule: wf_block.induct)
  case (2 i B)
  then show ?case by (cases k) auto
next
  case (3 i t f B)
  then show ?case by (cases k) auto
qed simp

lemma bout_retarget:
  assumes "wf_block B"
  shows "bout pkt (retarget ta tr B @ C) r =
    (case bout pkt B r of (b, r') \<Rightarrow> exit_to pkt C (if b then ta else tr) r')"
  using assms
proof (induction pkt B r rule: bout.induct)
  case (3 pkt i t f B r)
  let ?t = "if taken i (fst r) then t else f"
  have moved: "(if taken i (fst r) then move_target ta tr (length B) t
      else move_target ta tr (length B) f) = move_target ta tr (length B) ?t"
    by simp
  show ?case
  proof (cases ?t)
    case (Rel k)
    then have "wf_target (length B) (Rel k)" using "3.prems" by (cases "taken i (fst r)") auto
    then have "k < length B" "wf_block (drop k B)"
      using "3.prems" by (auto intro: wf_block_drop)
    then show ?thesis
      using "3.IH" [OF Rel] Rel by (simp add: moved drop_retarget)
  qed (simp_all add: moved exit_to_def split: target.split)
qed auto

lemma bout_append: "wf_block B \<Longrightarrow> bout pkt (B @ C) r = bout pkt B r"
proof (induction pkt B r rule: bout.induct)
  case (3 pkt i t f B r)
  let ?t = "if taken i (fst r) then t else f"
  show ?case
  proof (cases ?t)
    case (Rel k)
    then have "wf_target (length B) (Rel k)" using "3.prems" by (cases "taken i (fst r)") auto
    then have "k < length B" "wf_block (drop k B)"
      using "3.prems" by (auto intro: wf_block_drop)
    then show ?thesis using "3.IH" [OF Rel] Rel by simp
  qed simp_all
qed auto

lemma bout_and [block_simps]:
  "wf_block B \<Longrightarrow> bout pkt (and_block B C) r =
     (case bout pkt B r of (b, r') \<Rightarrow> if b then bout pkt C r' else (False, r'))"
  by (simp add: and_block_def bout_retarget split: prod.split)

lemma bout_or [block_simps]:
  "wf_block B \<Longrightarrow> bout pkt (or_block B C) r =
     (case bout pkt B r of (b, r') \<Rightarrow> if b then (True, r') else bout pkt C r')"
  by (simp add: or_block_def bout_retarget split: prod.split)

lemma bout_not [block_simps]:
  "wf_block B \<Longrightarrow> bout pkt (not_block B) r = (case bout pkt B r of (b, r') \<Rightarrow> (\<not> b, r'))"
  using bout_retarget [of B pkt Rej Acc "[]" r] by (simp add: not_block_def split: prod.split)

lemma bout_ite [block_simps]:
  "wf_block B \<Longrightarrow> wf_block D \<Longrightarrow> bout pkt (ite_block B C D) r =
     (case bout pkt B r of (b, r') \<Rightarrow> if b then bout pkt C r' else bout pkt D r')"
  by (simp add: ite_block_def bout_retarget bout_append split: prod.split)

section \<open>The machine on flattened blocks\<close>

lemma flatten_drop: "flatten (drop k B) = drop k (flatten B)"
proof (induction B arbitrary: k rule: flatten.induct)
  case (2 i B)
  then show ?case by (cases k) auto
next
  case (3 i t f B)
  then show ?case by (cases k) auto
qed simp

lemma first_far_drop: "first_far B = None \<Longrightarrow> first_far (drop k B) = None"
proof (induction B arbitrary: k rule: first_far.induct)
  case (2 i B)
  then show ?case by (cases k) auto
next
  case (3 i t f B)
  then show ?case by (cases k) (auto split: if_splits)
qed simp

lemma code_ok_drop: "code_ok B \<Longrightarrow> code_ok (drop k B)"
proof (induction B arbitrary: k rule: code_ok.induct)
  case (2 i B)
  then show ?case by (cases k) auto
next
  case (3 i t f B)
  then show ?case by (cases k) auto
qed simp

lemma exec_loop_nth:
  "program = pre @ i # post \<Longrightarrow> vm_step pkt i (state_of (length pre + 1) r) = Continue s' \<Longrightarrow>
   exec_loop program pkt (state_of (length pre) r) = exec_loop program pkt s'"
  by (subst exec_loop.simps) simp

lemma exec_loop_ret:
  "program = pre @ ret_k k # post \<Longrightarrow>
   exec_loop program pkt (state_of (length pre) r) = Some (k \<noteq> 0)"
  by (subst exec_loop.simps) (simp add: vm_step_def bpf_defs)

lemma exec_loop_block:
  assumes "P = pre @ flatten B @ [ret_k CBPF_ACCEPT, ret_k CBPF_REJECT]"
    and "wf_block B" "code_ok B" "first_far B = None" "length P < 2 ^ 64"
  shows "exec_loop P pkt (state_of (length pre) r) = Some (fst (bout pkt B r))"
  using assms
proof (induction pkt B r arbitrary: pre rule: bout.induct)
  case (2 pkt i B r)
  have "exec_loop P pkt (state_of (length pre) r) =
      exec_loop P pkt (state_of (length (pre @ [i])) (exec_op pkt i r))"
    using "2.prems" by (intro exec_loop_nth) (auto simp: plainD)
  also have "\<dots> = Some (fst (bout pkt B (exec_op pkt i r)))"
    using "2.prems" by (intro "2.IH") auto
  finally show ?case by simp
next
  case (3 pkt i t f B r)
  let ?t = "if taken i (fst r) then t else f"
  let ?i = "i\<lparr>i_jt := of_nat (offset_of (length B) t), i_jf := of_nat (offset_of (length B) f)\<rparr>"
  let ?post = "[ret_k CBPF_ACCEPT, ret_k CBPF_REJECT]"
  let ?off = "offset_of (length B) ?t"
  have far: "offset_of (length B) t \<le> 255" "offset_of (length B) f \<le> 255"
    using "3.prems"(4) by (auto split: if_splits)
  have P: "P = pre @ ?i # flatten B @ ?post" using "3.prems"(1) by simp
  have wf: "wf_target (length B) ?t" using "3.prems"(2) by auto
  then have "length pre + 1 + ?off < 2 ^ 64"
    using "3.prems"(5) P by (cases ?t) auto
  then have pc: "wrapping_add_usize (length pre + 1)
      (if taken i (fst r) then unat (i_jt ?i) else unat (i_jf ?i)) = length pre + 1 + ?off"
    using far by (auto simp: wrapping_add_usize_small unat_of_nat)
  have step: "exec_loop P pkt (state_of (length pre) r) =
      exec_loop P pkt (state_of (length pre + 1 + ?off) r)"
    using "3.prems"(3) pc by (intro exec_loop_nth [OF P]) (auto simp: branchD split: if_splits)
  show ?case
  proof (cases ?t)
    case Acc
    have "exec_loop P pkt (state_of (length (pre @ ?i # flatten B)) r) = Some (CBPF_ACCEPT \<noteq> 0)"
      by (rule exec_loop_ret) (simp add: P)
    then show ?thesis using Acc step by (simp add: CBPF_ACCEPT_def)
  next
    case Rej
    have "exec_loop P pkt (state_of (length (pre @ ?i # flatten B @ [ret_k CBPF_ACCEPT])) r)
        = Some (CBPF_REJECT \<noteq> 0)"
      by (rule exec_loop_ret) (simp add: P)
    then show ?thesis using Rej step by (simp add: CBPF_REJECT_def)
  next
    case (Rel k)
    then have k: "k < length B" and "B \<noteq> []" using wf by auto
    have split: "flatten B @ ?post = take k (flatten B) @ flatten (drop k B) @ ?post"
      by (metis append_assoc append_take_drop_id flatten_drop)
    have "exec_loop P pkt (state_of (length (pre @ ?i # take k (flatten B))) r)
        = Some (fst (bout pkt (drop k B) r))"
    proof (rule "3.IH" [OF Rel])
      show "P = (pre @ ?i # take k (flatten B)) @ flatten (drop k B) @ ?post"
        using P split by simp
      show "wf_block (drop k B)" using "3.prems"(2) k by (auto intro: wf_block_drop)
      show "code_ok (drop k B)" using "3.prems"(3) by (auto intro: code_ok_drop)
      show "first_far (drop k B) = None"
        using "3.prems"(4) by (auto intro: first_far_drop split: if_splits)
    qed (use "3.prems"(5) in simp)
    then show ?thesis using Rel step k by simp
  qed
qed auto

text \<open>All jumps of a flattened block land in the block or on one of the two instructions behind it.\<close>

lemma offset_inside:
  assumes "wf_target n t"
  shows "unat (of_nat (offset_of n t) :: u8) < n + 2"
proof -
  have "unat (of_nat (offset_of n t) :: u8) \<le> offset_of n t" by (simp add: unat_of_nat)
  also have "offset_of n t < n + 2" using assms by (cases t) auto
  finally show ?thesis .
qed

lemma flatten_jumps_inside:
  assumes "wf_block B" "code_ok B" "first_far B = None" "i < length B"
  shows "jumps_inside (p + length B + 2) (p + i) (flatten B ! i)"
  using assms
proof (induction B arbitrary: i p rule: flatten.induct)
  case (2 x B)
  then show ?case
    using "2.IH" [of "i - 1" "p + 1"] by (cases i) (auto simp: jumps_inside_def plain_def)
next
  case (3 x t f B)
  show ?case
  proof (cases i)
    case 0
    then show ?thesis
      using 3 offset_inside [of "length B" t] offset_inside [of "length B" f]
      by (auto simp: jumps_inside_def branch_def split: if_splits)
  next
    case (Suc j)
    then show ?thesis
      using 3 "3.IH" [of j "p + 1"] by (cases "B = []") (auto split: if_splits)
  qed
qed simp

lemma jump_safe_flatten:
  assumes "wf_block B" "code_ok B" "first_far B = None"
  shows "jump_safe (flatten B @ [ret_k a, ret_k r])"
  unfolding jump_safe_def
proof (intro conjI allI impI)
  fix i assume i: "i < length (flatten B @ [ret_k a, ret_k r])"
  show "jumps_inside (length (flatten B @ [ret_k a, ret_k r])) i ((flatten B @ [ret_k a, ret_k r]) ! i)"
  proof (cases "i < length B")
    case True
    then show ?thesis
      using flatten_jumps_inside [OF assms True, of 0] by (simp add: nth_append)
  next
    case False
    then have "i = length B \<or> i = length B + 1" using i by auto
    then show ?thesis by (auto simp: nth_append jumps_inside_def bpf_defs)
  qed
qed (simp_all add: bpf_defs)

end
