(* ===== verification/Filter_Semantics.thy ===== *)
theory Filter_Semantics
  imports Reference_Codegen Block_Semantics
begin

text \<open>
  What a filter expression means: \<open>matches ast pkt\<close> is defined on header fields of the packet, with
  no reference to instructions. A field that does not lie inside the packet reads as zero, which
  is the virtual machine's rule for loads.
\<close>

section \<open>Header fields\<close>

definition ethertype :: "packet_bytes \<Rightarrow> u16" where
  "ethertype pkt = read_u16 pkt 12"

definition is_ipv4 :: "packet_bytes \<Rightarrow> bool" where
  "is_ipv4 pkt \<longleftrightarrow> ethertype pkt = ETHERTYPE_IP"

definition is_ipv6 :: "packet_bytes \<Rightarrow> bool" where
  "is_ipv6 pkt \<longleftrightarrow> ethertype pkt = ETHERTYPE_IPV6"

text \<open>The protocol field of IPv4 (byte 23) and the next-header field of IPv6 (byte 20).\<close>

definition ip_protocol :: "packet_bytes \<Rightarrow> u8 option" where
  "ip_protocol pkt =
     (if is_ipv4 pkt then Some (read_u8 pkt 23)
      else if is_ipv6 pkt then Some (read_u8 pkt 20) else None)"

text \<open>Start of the transport header: behind the IPv4 header of IHL words, or at 54 for IPv6.\<close>

definition transport_start :: "packet_bytes \<Rightarrow> nat" where
  "transport_start pkt =
     (if is_ipv4 pkt then 14 + 4 * unat (read_u8 pkt 14 AND 0x0f) else 54)"

definition has_ports :: "packet_bytes \<Rightarrow> bool" where
  "has_ports pkt \<longleftrightarrow> ip_protocol pkt \<in> {Some IPPROTO_TCP, Some IPPROTO_UDP}"

definition src_port_of :: "packet_bytes \<Rightarrow> u16" where
  "src_port_of pkt = read_u16 pkt (transport_start pkt)"

definition dst_port_of :: "packet_bytes \<Rightarrow> u16" where
  "dst_port_of pkt = read_u16 pkt (transport_start pkt + 2)"

text \<open>A 128-bit address field, read as four 32-bit words.\<close>

definition read_ipv6 :: "packet_bytes \<Rightarrow> nat \<Rightarrow> Ipv6Addr" where
  "read_ipv6 pkt off = Ipv6Addr
     (push_bit 96 (ucast (read_u32 pkt off)) OR push_bit 64 (ucast (read_u32 pkt (off + 4)))
      OR push_bit 32 (ucast (read_u32 pkt (off + 8))) OR ucast (read_u32 pkt (off + 12)))"

definition read_ipv4 :: "packet_bytes \<Rightarrow> nat \<Rightarrow> Ipv4Addr" where
  "read_ipv4 pkt off = Ipv4Addr (read_u32 pkt off)"

text \<open>A MAC address field as the machine sees it: a word and a half-word.\<close>

definition mac_at :: "packet_bytes \<Rightarrow> nat \<Rightarrow> u8 list \<Rightarrow> bool" where
  "mac_at pkt off addr \<longleftrightarrow>
     read_u32 pkt off = u32_from_be_bytes (addr ! 0) (addr ! 1) (addr ! 2) (addr ! 3) \<and>
     read_u16 pkt (off + 4) = u16_from_be_bytes (addr ! 4) (addr ! 5)"

section \<open>Meaning of expressions\<close>

definition on_dir :: "Direction \<Rightarrow> bool \<Rightarrow> bool \<Rightarrow> bool" where
  "on_dir dir s d = (case dir of Any \<Rightarrow> s \<or> d | Src \<Rightarrow> s | Dst \<Rightarrow> d)"

fun proto_matches :: "Protocol \<Rightarrow> packet_bytes \<Rightarrow> bool" where
  "proto_matches Ip pkt \<longleftrightarrow> ethertype pkt = ETHERTYPE_IP"
| "proto_matches Ip6 pkt \<longleftrightarrow> ethertype pkt = ETHERTYPE_IPV6"
| "proto_matches Arp pkt \<longleftrightarrow> ethertype pkt = ETHERTYPE_ARP"
| "proto_matches Rarp pkt \<longleftrightarrow> ethertype pkt = ETHERTYPE_RARP"
| "proto_matches Tcp pkt \<longleftrightarrow> ip_protocol pkt = Some IPPROTO_TCP"
| "proto_matches Udp pkt \<longleftrightarrow> ip_protocol pkt = Some IPPROTO_UDP"
| "proto_matches Icmp pkt \<longleftrightarrow> is_ipv4 pkt \<and> read_u8 pkt 23 = IPPROTO_ICMP"
| "proto_matches Icmp6 pkt \<longleftrightarrow> is_ipv6 pkt \<and> read_u8 pkt 20 = IPPROTO_ICMPV6"

fun host_matches :: "HostAddr \<Rightarrow> Direction \<Rightarrow> packet_bytes \<Rightarrow> bool" where
  "host_matches (HostV4 a) dir pkt \<longleftrightarrow>
     is_ipv4 pkt \<and> on_dir dir (read_ipv4 pkt 26 = a) (read_ipv4 pkt 30 = a)"
| "host_matches (HostV6 a) dir pkt \<longleftrightarrow>
     is_ipv6 pkt \<and> on_dir dir (read_ipv6 pkt 22 = a) (read_ipv6 pkt 38 = a)"

text \<open>
  The network test of the code: IPv4 compares the masked field with the masked address, IPv6
  compares the masked field with the address itself.
\<close>

fun net_matches :: "NetAddr \<Rightarrow> Direction \<Rightarrow> packet_bytes \<Rightarrow> bool" where
  "net_matches (NetV4 a m) dir pkt \<longleftrightarrow>
     is_ipv4 pkt \<and>
     on_dir dir (u32_from_ipv4 (read_ipv4 pkt 26) AND u32_from_ipv4 m = u32_from_ipv4 a AND u32_from_ipv4 m)
                (u32_from_ipv4 (read_ipv4 pkt 30) AND u32_from_ipv4 m = u32_from_ipv4 a AND u32_from_ipv4 m)"
| "net_matches (NetV6 a m) dir pkt \<longleftrightarrow>
     is_ipv6 pkt \<and>
     on_dir dir (u128_from_ipv6 (read_ipv6 pkt 22) AND u128_from_ipv6 m = u128_from_ipv6 a)
                (u128_from_ipv6 (read_ipv6 pkt 38) AND u128_from_ipv6 m = u128_from_ipv6 a)"

fun rel_holds :: "RelOp \<Rightarrow> u32 \<Rightarrow> u32 \<Rightarrow> bool" where
  "rel_holds Eq a b \<longleftrightarrow> a = b"
| "rel_holds Ne a b \<longleftrightarrow> a \<noteq> b"
| "rel_holds Gt a b \<longleftrightarrow> a > b"
| "rel_holds Ge a b \<longleftrightarrow> a \<ge> b"
| "rel_holds Lt a b \<longleftrightarrow> a < b"
| "rel_holds Le a b \<longleftrightarrow> a \<le> b"

definition in_range :: "u16 \<Rightarrow> u16 \<Rightarrow> u16 \<Rightarrow> bool" where
  "in_range lo hi p \<longleftrightarrow> lo \<le> p \<and> p \<le> hi"

text \<open>
  A port range in direction \<open>Any\<close> as the code decides it: a source port below the range rejects
  the packet whatever its destination port is.
\<close>

definition range_matches :: "u16 \<Rightarrow> u16 \<Rightarrow> Direction \<Rightarrow> u16 \<Rightarrow> u16 \<Rightarrow> bool" where
  "range_matches lo hi dir sp dp =
     (case dir of
        Any \<Rightarrow> lo \<le> sp \<and> (sp \<le> hi \<or> in_range lo hi dp)
      | Src \<Rightarrow> in_range lo hi sp
      | Dst \<Rightarrow> in_range lo hi dp)"

fun matches :: "FilterAst \<Rightarrow> packet_bytes \<Rightarrow> bool" where
  "matches (And l r) pkt \<longleftrightarrow> matches l pkt \<and> matches r pkt"
| "matches (Or l r) pkt \<longleftrightarrow> matches l pkt \<or> matches r pkt"
| "matches (Not' e) pkt \<longleftrightarrow> \<not> matches e pkt"
| "matches (Proto p) pkt \<longleftrightarrow> proto_matches p pkt"
| "matches (Host a dir) pkt \<longleftrightarrow> host_matches a dir pkt"
| "matches (Port p dir) pkt \<longleftrightarrow>
     has_ports pkt \<and> on_dir dir (src_port_of pkt = p) (dst_port_of pkt = p)"
| "matches (PortRange lo hi dir) pkt \<longleftrightarrow>
     has_ports pkt \<and> range_matches lo hi dir (src_port_of pkt) (dst_port_of pkt)"
| "matches (EtherHost a dir) pkt \<longleftrightarrow> on_dir dir (mac_at pkt 6 a) (mac_at pkt 0 a)"
| "matches (Net a dir) pkt \<longleftrightarrow> net_matches a dir pkt"
| "matches (Len op' n) pkt \<longleftrightarrow> rel_holds op' (of_nat (length pkt)) n"

section \<open>Steps of the instructions the compiler emits\<close>

lemma exec_ld_abs_h [block_simps]:
  "exec_op pkt (ld_abs_h k) (a, x, m) = (ucast (read_u16 pkt (unat k)), x, m)"
  by (simp add: exec_op_def vm_step_def step_ld_def load_sized_def bpf_defs regs_of_def)

lemma exec_ld_abs_b [block_simps]:
  "exec_op pkt (ld_abs_b k) (a, x, m) = (ucast (read_u8 pkt (unat k)), x, m)"
  by (simp add: exec_op_def vm_step_def step_ld_def load_sized_def bpf_defs regs_of_def)

lemma exec_ld_abs_w [block_simps]:
  "exec_op pkt (ld_abs_w k) (a, x, m) = (read_u32 pkt (unat k), x, m)"
  by (simp add: exec_op_def vm_step_def step_ld_def load_sized_def bpf_defs regs_of_def)

lemma exec_ld_ind_h [block_simps]:
  "exec_op pkt (ld_ind_h k) (a, x, m) = (ucast (read_u16 pkt (unat k + unat x)), x, m)"
  by (simp add: add.commute [of "unat k"] exec_op_def vm_step_def step_ld_def load_sized_def bpf_defs regs_of_def)

lemma exec_ldx_msh_b [block_simps]:
  "exec_op pkt (ldx_msh_b k) (a, x, m) = (a, ucast (read_u8 pkt (unat k) AND 0x0f) * 4, m)"
  by (simp add: exec_op_def vm_step_def step_ldx_def bpf_defs regs_of_def)

lemma exec_and_k [block_simps]: "exec_op pkt (and_k w) (a, x, m) = (a AND w, x, m)"
  by (simp add: exec_op_def vm_step_def alu_def bpf_defs regs_of_def and_k_def)

lemma exec_ld_len [block_simps]:
  "exec_op pkt ld_len (a, x, m) = (of_nat (length pkt), x, m)"
  by (simp add: exec_op_def vm_step_def step_ld_def load_sized_def bpf_defs regs_of_def ld_len_def)

lemma taken_jumps [block_simps]:
  "taken (jeq k) a \<longleftrightarrow> a = k" "taken (jgt k) a \<longleftrightarrow> a > k" "taken (jge k) a \<longleftrightarrow> a \<ge> k"
  by (simp_all add: taken_def jump_cond_def bpf_defs)

lemma plain_insts [simp]:
  "plain (ld_abs_h k)" "plain (ld_abs_b k)" "plain (ld_abs_w k)" "plain (ld_ind_h k)"
  "plain (ldx_msh_b k)" "plain (and_k k)" "plain ld_len"
  by (auto simp: plain_def exec_op_def vm_step_def step_ld_def step_ldx_def load_sized_def alu_def
      bpf_defs regs_of_def and_k_def ld_len_def)

lemma branch_insts [simp]: "branch (jeq k)" "branch (jgt k)" "branch (jge k)"
  by (auto simp: branch_def taken_def vm_step_def step_jmp_def jump_cond_def bpf_defs)

end
