(* ===== verification/Block_Generators.thy ===== *)
theory Block_Generators
  imports Block_Semantics
begin

text \<open>
  The contract between the expression level of the compiler and its leaf functions: a code
  generator is an assembler action that emits one well-formed block, for any pair of exit labels,
  and the block decides a predicate on packets whatever the registers hold at its entry.
  Generators compose by the connectives, and the program assembled from one decides its predicate.
\<close>

section \<open>Deciding a predicate\<close>

definition decides :: "block \<Rightarrow> (packet_bytes \<Rightarrow> bool) \<Rightarrow> bool" where
  "decides B P \<longleftrightarrow> (\<forall>pkt r. fst (bout pkt B r) = P pkt)"

lemma decidesI: "(\<And>pkt a x m. fst (bout pkt B (a, x, m)) = P pkt) \<Longrightarrow> decides B P"
  by (simp add: decides_def)

lemma decidesD: "decides B P \<Longrightarrow> fst (bout pkt B r) = P pkt"
  unfolding decides_def by blast

lemmas bout_blocks [simp] = bout_and bout_or bout_not bout_ite

lemma and_decides:
  "wf_block B \<Longrightarrow> decides B P \<Longrightarrow> decides C Q \<Longrightarrow> decides (and_block B C) (\<lambda>pkt. P pkt \<and> Q pkt)"
  unfolding decides_def by (auto split: prod.split) (metis fst_conv)+

lemma or_decides:
  "wf_block B \<Longrightarrow> decides B P \<Longrightarrow> decides C Q \<Longrightarrow> decides (or_block B C) (\<lambda>pkt. P pkt \<or> Q pkt)"
  unfolding decides_def by (auto split: prod.split) (metis fst_conv)+

lemma not_decides: "wf_block B \<Longrightarrow> decides B P \<Longrightarrow> decides (not_block B) (\<lambda>pkt. \<not> P pkt)"
  unfolding decides_def by (auto split: prod.split) (metis fst_conv)+

section \<open>The interface\<close>

locale code_generator =
  fixes gen :: "LabelId \<Rightarrow> LabelId \<Rightarrow> (Assembler, unit) state"
    and blk :: block
    and meaning :: "packet_bytes \<Rightarrow> bool"
  assumes emits: "emits gen blk"
    and wf: "wf_block blk"
    and code: "code_ok blk"
    and decides: "decides blk meaning"
begin

lemma not_generator:
  "code_generator (\<lambda>a r. gen r a) (not_block blk) (\<lambda>pkt. \<not> meaning pkt)"
  using emits wf code decides by unfold_locales (auto intro: emits_not not_decides)

text \<open>
  The whole program: two labels, the generated code, the two returns, the resolution.
\<close>

lemma assembled_is_link:
  "resolve (snd (run_state (do {
       accept \<leftarrow> new_label;
       reject \<leftarrow> new_label;
       gen accept reject;
       place_here accept;
       emit (ret_k CBPF_ACCEPT);
       place_here reject;
       emit (ret_k CBPF_REJECT);
       State_Monad.return ()
     }) Assembler_new)) = link blk [ret_k CBPF_ACCEPT, ret_k CBPF_REJECT]"
  (is "resolve (snd (run_state ?prog Assembler_new)) = link blk ?epi")
proof -
  let ?s0 = "Assembler_new\<lparr>next_label := 2\<rparr>"
  define s1 where "s1 = snd (run_state (gen 0 1) ?s0)"
  have run: "snd (run_state ?prog Assembler_new) =
    s1\<lparr>labels := (labels s1)(0 \<mapsto> length (insts s1), 1 \<mapsto> length (insts s1) + 1),
       insts := insts s1 @ ?epi\<rparr>"
    by (simp add: asm_simps s1_def Assembler_new_def numeral_2_eq_2 split: prod.splits)
  have "emitted ?s0 0 1 blk s1"
    unfolding s1_def by (rule emitsD [OF emits])
  then obtain ps where i: "insts s1 = map item_inst blk" and ps: "pending s1 = ps"
    and l: "links (labels s1 |` {2..<next_label s1}) 0 1 0 blk ps"
    by (auto simp: emitted_def Assembler_new_def)
  let ?L = "(labels s1)(0 \<mapsto> length blk, 1 \<mapsto> length blk + 1)"
  have "labels s1 |` {2..<next_label s1} \<subseteq>\<^sub>m ?L"
    by (auto simp: map_le_def restrict_map_def dom_def split: if_splits)
  then have "links ?L 0 1 (length ([] :: Instruction list)) blk ps"
    using links_mono [OF l] by simp
  then have "resolve_loop ?L ps ([] @ map item_inst blk @ ?epi) =
    (case first_far blk of
       None \<Rightarrow> Inr ([] @ flatten blk @ ?epi) | Some d \<Rightarrow> Inl (OffsetTooLarge d))"
    by (rule resolve_block) auto
  then show ?thesis
    unfolding run by (simp add: resolve_def i ps link_def split: option.split)
qed

lemma linked_vm:
  assumes "link blk [ret_k CBPF_ACCEPT, ret_k CBPF_REJECT] = Inr prog" "vec_len_ok prog"
  shows "Vm_exec prog pkt = Some (meaning pkt)"
proof -
  from assms(1) have far: "first_far blk = None"
    and prog: "prog = flatten blk @ [ret_k CBPF_ACCEPT, ret_k CBPF_REJECT]"
    by (auto simp: link_def split: option.splits)
  have "exec_loop prog pkt (state_of (length ([] :: Instruction list)) (0, 0, replicate 16 0)) =
      Some (fst (bout pkt blk (0, 0, replicate 16 0)))"
    using prog far assms(2) wf code by (intro exec_loop_block) (auto simp: vec_len_ok_def)
  then show ?thesis
    using decides by (simp add: Vm_exec_def vm_init_def state_of_def decidesD)
qed

lemma linked_jump_safe:
  "link blk [ret_k a, ret_k r] = Inr prog \<Longrightarrow> jump_safe prog"
  using wf code by (auto simp: link_def intro: jump_safe_flatten split: option.splits)

lemma linked_small:
  "length blk \<le> 255 \<Longrightarrow> link blk post = Inr (flatten blk @ post)"
  using first_far_small [OF wf] by (simp add: link_def)

end

locale two_generators =
  l: code_generator gen1 blk1 meaning1 + r: code_generator gen2 blk2 meaning2
  for gen1 blk1 meaning1 gen2 blk2 meaning2
begin

lemma and_generator:
  "code_generator (\<lambda>a r. do { mid \<leftarrow> new_label; gen1 mid r; place_here mid; gen2 a r })
     (and_block blk1 blk2) (\<lambda>pkt. meaning1 pkt \<and> meaning2 pkt)"
  by (rule code_generator.intro [OF emits_and [OF l.emits r.emits] _ _ and_decides [OF l.wf l.decides r.decides]])
    (simp_all add: l.wf l.code r.wf r.code)

lemma or_generator:
  "code_generator (\<lambda>a r. do { mid \<leftarrow> new_label; gen1 a mid; place_here mid; gen2 a r })
     (or_block blk1 blk2) (\<lambda>pkt. meaning1 pkt \<or> meaning2 pkt)"
  by (rule code_generator.intro [OF emits_or [OF l.emits r.emits] _ _ or_decides [OF l.wf l.decides r.decides]])
    (simp_all add: l.wf l.code r.wf r.code)

end

end
