(* ===== verification/Compiler_Correct.thy ===== *)
theory Compiler_Correct
  imports Filter_Semantics Block_Generators
begin

text \<open>
  The blocks of the reference generator decide \<open>matches\<close>, and hence so does the virtual machine on
  every program \<open>compile\<close> returns.
\<close>

section \<open>Word facts\<close>

lemma ucast_u16_u32 [simp]:
  "(ucast (a :: u16) :: u32) = ucast b \<longleftrightarrow> a = b"
  "(ucast (a :: u16) :: u32) \<le> ucast b \<longleftrightarrow> a \<le> b"
  "(ucast (a :: u16) :: u32) < ucast b \<longleftrightarrow> a < b"
proof -
  have u: "unat (ucast w :: u32) = unat w" for w :: u16
    by (simp add: unsigned_ucast_eq take_bit_nat_eq_self order_less_le_trans [OF unat_u16_less])
  show "(ucast (a :: u16) :: u32) = ucast b \<longleftrightarrow> a = b"
    by (metis u word_unat_eq_iff)
  show "(ucast (a :: u16) :: u32) \<le> ucast b \<longleftrightarrow> a \<le> b"
    by (simp add: word_le_nat_alt u)
  show "(ucast (a :: u16) :: u32) < ucast b \<longleftrightarrow> a < b"
    by (simp add: word_less_nat_alt u)
qed

lemma ucast_u8_u32 [simp]: "(ucast (a :: u8) :: u32) = ucast b \<longleftrightarrow> a = b"
proof -
  have u: "unat (ucast w :: u32) = unat w" for w :: u8
    by (simp add: unsigned_ucast_eq take_bit_nat_eq_self order_less_le_trans [OF unat_u8_less])
  show ?thesis by (metis u word_unat_eq_iff)
qed

lemma unat_ihl: "unat (ucast (b AND 0x0f :: u8) * 4 :: u32) = 4 * unat (b AND 0x0f)"
proof -
  have "b AND 0x0f \<le> 0x0f" by (rule word_and_le1)
  then have "unat (b AND 0x0f) \<le> 15" by (simp add: word_le_nat_alt)
  then show ?thesis
    by (simp add: unat_word_ariths unsigned_ucast_eq take_bit_nat_eq_self)
qed

section \<open>IPv6 addresses and their four words\<close>

definition word4 :: "nat \<Rightarrow> u128 \<Rightarrow> u32" where
  "word4 i v = ucast (drop_bit (96 - 32 * i) v)"

definition join4 :: "u32 \<Rightarrow> u32 \<Rightarrow> u32 \<Rightarrow> u32 \<Rightarrow> u128" where
  "join4 a b c d =
     push_bit 96 (ucast a) OR push_bit 64 (ucast b) OR push_bit 32 (ucast c) OR ucast d"

lemma word4_join4:
  "word4 0 (join4 a b c d) = a" "word4 1 (join4 a b c d) = b"
  "word4 2 (join4 a b c d) = c" "word4 3 (join4 a b c d) = d"
  by (rule bit_word_eqI; auto simp: word4_def join4_def bit_simps dest: bit_imp_le_length)+

lemma join4_word4: "join4 (word4 0 v) (word4 1 v) (word4 2 v) (word4 3 v) = v"
proof (rule bit_word_eqI)
  fix n
  assume n: "n < LENGTH(128)"
  consider "n < 32" | "32 \<le> n" "n < 64" | "64 \<le> n" "n < 96" | "96 \<le> n" by linarith
  then show "bit (join4 (word4 0 v) (word4 1 v) (word4 2 v) (word4 3 v)) n \<longleftrightarrow> bit v n"
    using n by cases (auto simp: word4_def join4_def bit_simps)
qed

lemma join4_eq_iff:
  "join4 a b c d = v \<longleftrightarrow> a = word4 0 v \<and> b = word4 1 v \<and> c = word4 2 v \<and> d = word4 3 v"
  by (metis join4_word4 word4_join4)

lemma word4_and: "word4 i (v AND w) = word4 i v AND word4 i w"
  by (rule bit_word_eqI) (auto simp: word4_def bit_simps)

lemma from_be_bytes_word4:
  "u32_from_be_bytes (ucast (drop_bit (n + 24) v)) (ucast (drop_bit (n + 16) v))
     (ucast (drop_bit (n + 8) v)) (ucast (drop_bit n v)) = ucast (drop_bit n (v :: u128))"
proof (rule bit_word_eqI)
  fix k
  assume k: "k < LENGTH(32)"
  consider "k < 8" | "8 \<le> k" "k < 16" | "16 \<le> k" "k < 24" | "24 \<le> k" by linarith
  then show "bit (u32_from_be_bytes (ucast (drop_bit (n + 24) v)) (ucast (drop_bit (n + 16) v))
     (ucast (drop_bit (n + 8) v)) (ucast (drop_bit n v))) k \<longleftrightarrow> bit (ucast (drop_bit n v) :: u32) k"
    using k by cases (auto simp: u32_from_be_bytes_def bit_simps add.assoc)
qed

lemma ipv6_words_word4:
  "ipv6_words a = [word4 0 (u128_from_ipv6 a), word4 1 (u128_from_ipv6 a),
                   word4 2 (u128_from_ipv6 a), word4 3 (u128_from_ipv6 a)]"
  using from_be_bytes_word4 [of 96 "u128_from_ipv6 a"] from_be_bytes_word4 [of 64 "u128_from_ipv6 a"]
    from_be_bytes_word4 [of 32 "u128_from_ipv6 a"] from_be_bytes_word4 [of 0 "u128_from_ipv6 a"]
  by (simp add: ipv6_words_def ipv6_octets_def word4_def)

lemma read_ipv6_join4:
  "read_ipv6 pkt off = Ipv6Addr (join4 (read_u32 pkt off) (read_u32 pkt (off + 4))
     (read_u32 pkt (off + 8)) (read_u32 pkt (off + 12)))"
  by (simp add: read_ipv6_def join4_def)

lemma read_ipv6_eq_iff:
  "read_ipv6 pkt off = a \<longleftrightarrow>
     read_u32 pkt off = word4 0 (u128_from_ipv6 a) \<and>
     read_u32 pkt (off + 4) = word4 1 (u128_from_ipv6 a) \<and>
     read_u32 pkt (off + 8) = word4 2 (u128_from_ipv6 a) \<and>
     read_u32 pkt (off + 12) = word4 3 (u128_from_ipv6 a)"
  by (cases a) (simp add: read_ipv6_join4 join4_eq_iff)

lemma masked_ipv6_eq_iff:
  "u128_from_ipv6 (read_ipv6 pkt off) AND m = v \<longleftrightarrow>
     read_u32 pkt off AND word4 0 m = word4 0 v \<and>
     read_u32 pkt (off + 4) AND word4 1 m = word4 1 v \<and>
     read_u32 pkt (off + 8) AND word4 2 m = word4 2 v \<and>
     read_u32 pkt (off + 12) AND word4 3 m = word4 3 v"
  (is "?w AND m = v \<longleftrightarrow> _")
proof -
  have "?w AND m = v \<longleftrightarrow> join4 (word4 0 (?w AND m)) (word4 1 (?w AND m)) (word4 2 (?w AND m))
      (word4 3 (?w AND m)) = v"
    by (simp only: join4_word4)
  then show ?thesis
    by (simp only: join4_eq_iff word4_and) (simp add: read_ipv6_join4 word4_join4 del: One_nat_def)
qed

section \<open>Every reference block is well-formed code\<close>

lemma wf_words: "ws \<noteq> [] \<Longrightarrow> wf_block (words_block off i ws)"
  by (induction off i ws rule: words_block.induct) (auto simp: test_block_def)

lemma wf_masked_words: "ws \<noteq> [] \<Longrightarrow> wf_block (masked_words_block off i ws)"
  by (induction off i ws rule: masked_words_block.induct) (auto simp: masked_test_def)

lemma code_words: "code_ok (words_block off i ws)"
  by (induction off i ws rule: words_block.induct) (auto simp: test_block_def)

lemma code_masked_words: "code_ok (masked_words_block off i ws)"
  by (induction off i ws rule: masked_words_block.induct) (auto simp: masked_test_def)

lemma wf_test [simp]: "wf_block (test_block ld j)" "wf_block (masked_test ld m w)"
  by (simp_all add: test_block_def masked_test_def)

lemma code_test [simp]:
  "code_ok (test_block ld j) \<longleftrightarrow> plain ld \<and> branch j"
  "code_ok (masked_test ld m w) \<longleftrightarrow> plain ld"
  by (simp_all add: test_block_def masked_test_def)

lemma wf_ethertype [simp]: "wf_block (ethertype_block e)" "code_ok (ethertype_block e)"
  by (simp_all add: ethertype_block_def)

lemma wf_dir_block [simp]:
  "wf_block S \<Longrightarrow> wf_block D \<Longrightarrow> wf_block (dir_block dir S D)"
  "code_ok S \<Longrightarrow> code_ok D \<Longrightarrow> code_ok (dir_block dir S D)"
  by (cases dir; simp add: dir_block_def)+

lemma wf_ip_version [simp]:
  "wf_block B \<Longrightarrow> wf_block C \<Longrightarrow> wf_block (ip_version_block B C)"
  "code_ok B \<Longrightarrow> code_ok C \<Longrightarrow> code_ok (ip_version_block B C)"
  by (simp_all add: ip_version_block_def)

lemma wf_tcp_or_udp [simp]:
  "wf_block (tcp_or_udp_block ld)" "code_ok (tcp_or_udp_block ld) \<longleftrightarrow> plain ld"
  by (simp_all add: tcp_or_udp_block_def)

lemma wf_ports [simp]:
  "(\<And>ls ld. wf_block (cmp ls ld)) \<Longrightarrow> wf_block (ports_block cmp)"
  "(\<And>ls ld. plain ls \<Longrightarrow> plain ld \<Longrightarrow> code_ok (cmp ls ld)) \<Longrightarrow> code_ok (ports_block cmp)"
  by (simp_all add: ports_block_def)

lemma wf_port_cmp [simp]:
  "wf_block (port_cmp p dir ls ld)"
  "plain ls \<Longrightarrow> plain ld \<Longrightarrow> code_ok (port_cmp p dir ls ld)"
  by (simp_all add: port_cmp_def)

lemma wf_range [simp]:
  "wf_block (range_block lo hi ld)" "code_ok (range_block lo hi ld) \<longleftrightarrow> plain ld"
  by (simp_all add: range_block_def)

lemma wf_range_cmp [simp]:
  "wf_block (range_cmp lo hi dir ls ld)"
  "plain ls \<Longrightarrow> plain ld \<Longrightarrow> code_ok (range_cmp lo hi dir ls ld)"
  by (cases dir; simp add: range_cmp_def)+

lemma wf_proto: "wf_block (proto_block p)" "code_ok (proto_block p)"
  by (cases p; simp add: transport_block_def)+

lemma wf_host: "wf_block (host_block a dir)" "code_ok (host_block a dir)"
  by (cases a; simp add: wf_words code_words ipv6_words_def Let_def)+

lemma wf_net: "wf_block (net_block a dir)" "code_ok (net_block a dir)"
  by (cases a; simp add: wf_masked_words code_masked_words ipv6_words_def Let_def)+

lemma wf_ether: "wf_block (ether_block a dir)" "code_ok (ether_block a dir)"
  by (cases dir; simp add: ether_block_def mac_block_def Let_def)+

lemma wf_len: "wf_block (len_block op' n)" "code_ok (len_block op' n)"
  by (cases op'; simp)+

lemmas wf_leaf = wf_proto wf_host wf_net wf_ether wf_len

lemma wf_node: "wf_block (node_block ast)" and code_node: "code_ok (node_block ast)"
  by (induction ast) (simp_all add: wf_leaf)

section \<open>What the reference blocks decide\<close>

lemma bout_test [simp]:
  "bout pkt (test_block ld j) r = (taken j (fst (exec_op pkt ld r)), exec_op pkt ld r)"
  by (simp add: test_block_def)

lemma bout_jmp [simp]:
  "bout pkt [Jmp j Acc Rej] r = (taken j (fst r), r)"
  "bout pkt [Jmp j Rej Acc] r = (\<not> taken j (fst r), r)"
  by simp_all

lemma bout_masked_test [simp]:
  "bout pkt (masked_test (ld_abs_w k) m w) (a, x, mm) =
     (read_u32 pkt (unat k) AND m = w, read_u32 pkt (unat k) AND m, x, mm)"
  by (simp add: masked_test_def exec_ld_abs_w exec_and_k taken_jumps)

lemmas exec_ops [simp] = exec_ld_abs_h exec_ld_abs_b exec_ld_abs_w exec_ld_ind_h exec_ldx_msh_b
  exec_and_k exec_ld_len taken_jumps

lemma bout_ethertype [simp]:
  "bout pkt (ethertype_block e) (a, x, m) = (ethertype pkt = e, ucast (ethertype pkt), x, m)"
  by (simp add: ethertype_block_def ethertype_def)

lemma ethertypes_differ [simp]: "ETHERTYPE_IP \<noteq> ETHERTYPE_IPV6" "ETHERTYPE_IPV6 \<noteq> ETHERTYPE_IP"
  by (simp_all add: bpf_defs)

lemma bout_ip_version:
  assumes "wf_block B" "wf_block C"
  shows "bout pkt (ip_version_block B C) (a, x, m) =
    (if is_ipv4 pkt then bout pkt B (ucast (ethertype pkt), x, m)
     else if is_ipv6 pkt then bout pkt C (ucast (ethertype pkt), x, m)
     else (False, ucast (ethertype pkt), x, m))"
  using assms by (auto simp: ip_version_block_def is_ipv4_def is_ipv6_def)

lemma fst_dir_block:
  "wf_block S \<Longrightarrow>
   fst (bout pkt (dir_block dir S D) r) =
     (case dir of Any \<Rightarrow> fst (bout pkt S r) \<or> fst (bout pkt D (snd (bout pkt S r)))
      | Src \<Rightarrow> fst (bout pkt S r) | Dst \<Rightarrow> fst (bout pkt D r))"
  by (cases dir) (auto simp: dir_block_def split: prod.splits)

lemma dir_block_decides:
  assumes "wf_block S" "decides S P" "decides D Q"
  shows "decides (dir_block dir S D) (\<lambda>pkt. on_dir dir (P pkt) (Q pkt))"
  using assms by (cases dir) (auto simp: decides_def [of "dir_block _ _ _"] fst_dir_block on_dir_def
      decidesD)

lemma ethertype_decides: "decides (ethertype_block e) (\<lambda>pkt. ethertype pkt = e)"
  by (rule decidesI) simp

lemma ld_w_decides: "decides (test_block (ld_abs_w k) (jeq w)) (\<lambda>pkt. read_u32 pkt (unat k) = w)"
  by (rule decidesI) simp

lemma masked_decides:
  "decides (masked_test (ld_abs_w k) m w) (\<lambda>pkt. read_u32 pkt (unat k) AND m = w)"
  by (rule decidesI) simp

lemma words_decide:
  "decides (words_block 22 0 (ipv6_words a)) (\<lambda>pkt. read_ipv6 pkt 22 = a)"
  "decides (words_block 38 0 (ipv6_words a)) (\<lambda>pkt. read_ipv6 pkt 38 = a)"
  by (rule decidesI; simp add: ipv6_words_word4 read_ipv6_eq_iff)+

lemma masked_words_decide:
  "decides (masked_words_block 22 0 (zip (ipv6_words a) (ipv6_words m)))
     (\<lambda>pkt. u128_from_ipv6 (read_ipv6 pkt 22) AND u128_from_ipv6 m = u128_from_ipv6 a)"
  "decides (masked_words_block 38 0 (zip (ipv6_words a) (ipv6_words m)))
     (\<lambda>pkt. u128_from_ipv6 (read_ipv6 pkt 38) AND u128_from_ipv6 m = u128_from_ipv6 a)"
  by (rule decidesI; simp add: ipv6_words_word4 masked_ipv6_eq_iff)+

lemma proto_decides: "decides (proto_block p) (proto_matches p)"
  by (rule decidesI)
    (cases p; auto simp: transport_block_def bout_ip_version ip_protocol_def is_ipv4_def is_ipv6_def)

lemma host_decides: "decides (host_block a dir) (host_matches a dir)"
proof (cases a)
  case (HostV4 v)
  have "decides (test_block (ld_abs_w 26) (jeq (u32_from_ipv4 v))) (\<lambda>pkt. read_ipv4 pkt 26 = v)"
    "decides (test_block (ld_abs_w 30) (jeq (u32_from_ipv4 v))) (\<lambda>pkt. read_ipv4 pkt 30 = v)"
    by (rule decidesI; cases v; simp add: read_ipv4_def)+
  then have "decides (host_block a dir)
    (\<lambda>pkt. ethertype pkt = ETHERTYPE_IP \<and> on_dir dir (read_ipv4 pkt 26 = v) (read_ipv4 pkt 30 = v))"
    unfolding HostV4 host_block.simps
    by (intro and_decides dir_block_decides ethertype_decides) simp_all
  then show ?thesis by (simp add: decides_def HostV4 is_ipv4_def)
next
  case (HostV6 v)
  have "decides (host_block a dir)
    (\<lambda>pkt. ethertype pkt = ETHERTYPE_IPV6 \<and> on_dir dir (read_ipv6 pkt 22 = v) (read_ipv6 pkt 38 = v))"
    unfolding HostV6 host_block.simps
    by (intro and_decides dir_block_decides ethertype_decides words_decide)
      (simp_all add: wf_words ipv6_words_word4)
  then show ?thesis by (simp add: decides_def HostV6 is_ipv6_def)
qed

lemma net_decides: "decides (net_block a dir) (net_matches a dir)"
proof (cases a)
  case (NetV4 v m)
  let ?w = "u32_from_ipv4 v AND u32_from_ipv4 m" and ?m = "u32_from_ipv4 m"
  have "decides (net_block a dir) (\<lambda>pkt. ethertype pkt = ETHERTYPE_IP \<and>
      on_dir dir (read_u32 pkt (unat (26 :: u32)) AND ?m = ?w) (read_u32 pkt (unat (30 :: u32)) AND ?m = ?w))"
    unfolding NetV4 net_block.simps Let_def
    by (intro and_decides dir_block_decides ethertype_decides masked_decides) simp_all
  then show ?thesis by (simp add: decides_def NetV4 is_ipv4_def read_ipv4_def)
next
  case (NetV6 v m)
  let ?v = "u128_from_ipv6 v" and ?m = "u128_from_ipv6 m"
  have "decides (net_block a dir) (\<lambda>pkt. ethertype pkt = ETHERTYPE_IPV6 \<and>
      on_dir dir (u128_from_ipv6 (read_ipv6 pkt 22) AND ?m = ?v)
                 (u128_from_ipv6 (read_ipv6 pkt 38) AND ?m = ?v))"
    unfolding NetV6 net_block.simps Let_def
    by (intro and_decides dir_block_decides ethertype_decides masked_words_decide)
      (simp_all add: wf_masked_words ipv6_words_word4)
  then show ?thesis by (simp add: decides_def NetV6 is_ipv6_def)
qed

lemma ports_decides:
  assumes wf: "\<And>ls ld. wf_block (cmp ls ld)"
    and v4: "\<And>pkt a x m. fst (bout pkt (cmp (ld_ind_h 14) (ld_ind_h 16)) (a, x, m)) =
               P (read_u16 pkt (14 + unat x)) (read_u16 pkt (16 + unat x))"
    and v6: "\<And>pkt a x m. fst (bout pkt (cmp (ld_abs_h 54) (ld_abs_h 56)) (a, x, m)) =
               P (read_u16 pkt 54) (read_u16 pkt 56)"
  shows "decides (ports_block cmp) (\<lambda>pkt. has_ports pkt \<and> P (src_port_of pkt) (dst_port_of pkt))"
proof (rule decidesI)
  fix pkt a x m
  have prots: "IPPROTO_TCP \<noteq> IPPROTO_UDP" by (simp add: bpf_defs)
  show "fst (bout pkt (ports_block cmp) (a, x, m)) =
      (has_ports pkt \<and> P (src_port_of pkt) (dst_port_of pkt))"
    using wf prots
    by (simp add: ports_block_def bout_ip_version tcp_or_udp_block_def v4 v6 has_ports_def
        ip_protocol_def src_port_of_def dst_port_of_def transport_start_def unat_ihl is_ipv4_def
        is_ipv6_def)
qed

lemma port_decides:
  "decides (ports_block (port_cmp (ucast p) dir))
     (\<lambda>pkt. has_ports pkt \<and> on_dir dir (src_port_of pkt = p) (dst_port_of pkt = p))"
  by (rule ports_decides) (cases dir; simp add: port_cmp_def dir_block_def on_dir_def)+

lemma port_range_decides:
  "decides (ports_block (range_cmp (ucast lo) (ucast hi) dir))
     (\<lambda>pkt. has_ports pkt \<and> range_matches lo hi dir (src_port_of pkt) (dst_port_of pkt))"
  by (rule ports_decides)
    (cases dir; auto simp: range_cmp_def range_block_def range_matches_def in_range_def not_less)+

lemma ether_decides:
  "decides (ether_block a dir) (\<lambda>pkt. on_dir dir (mac_at pkt 6 a) (mac_at pkt 0 a))"
  by (rule decidesI) (cases dir; auto simp: ether_block_def mac_block_def mac_at_def on_dir_def Let_def)

lemma len_decides: "decides (len_block op' n) (\<lambda>pkt. rel_holds op' (of_nat (length pkt)) n)"
  by (rule decidesI) (cases op'; simp add: not_less not_le)

lemmas leaf_decides = proto_decides host_decides net_decides port_decides port_range_decides
  ether_decides len_decides

section \<open>The code generators of the compiler\<close>

text \<open>
  Each leaf function of the compiler is a code generator for the meaning of its predicate.
\<close>

interpretation proto: code_generator "compile_proto p" "proto_block p" "proto_matches p" for p
  by unfold_locales (simp_all add: emits_leaf wf_leaf leaf_decides)

interpretation host: code_generator "compile_host a dir" "host_block a dir" "host_matches a dir"
  for a dir
  by unfold_locales (simp_all add: emits_leaf wf_leaf leaf_decides)

interpretation port: code_generator "compile_port p dir" "ports_block (port_cmp (ucast p) dir)"
  "\<lambda>pkt. has_ports pkt \<and> on_dir dir (src_port_of pkt = p) (dst_port_of pkt = p)" for p dir
  by unfold_locales (simp_all add: emits_leaf leaf_decides)

interpretation port_range: code_generator "compile_port_range lo hi dir"
  "ports_block (range_cmp (ucast lo) (ucast hi) dir)"
  "\<lambda>pkt. has_ports pkt \<and> range_matches lo hi dir (src_port_of pkt) (dst_port_of pkt)" for lo hi dir
  by unfold_locales (simp_all add: emits_leaf leaf_decides)

interpretation ether: code_generator "compile_ether_host a dir" "ether_block a dir"
  "\<lambda>pkt. on_dir dir (mac_at pkt 6 a) (mac_at pkt 0 a)" for a dir
  by unfold_locales (simp_all add: emits_leaf wf_leaf leaf_decides)

interpretation net: code_generator "compile_net a dir" "net_block a dir" "net_matches a dir" for a dir
  by unfold_locales (simp_all add: emits_leaf wf_leaf leaf_decides)

interpretation len: code_generator "compile_len op' n" "len_block op' n"
  "\<lambda>pkt. rel_holds op' (of_nat (length pkt)) n" for op' n
  by unfold_locales (simp_all add: emits_leaf wf_leaf leaf_decides)

lemma node_generator: "code_generator (compile_node ast) (node_block ast) (matches ast)"
proof (induction ast)
  case (And l r)
  then show ?case
    using two_generators.and_generator [OF two_generators.intro [OF And]] by (simp add: fun_eq_iff)
next
  case (Or l r)
  then show ?case
    using two_generators.or_generator [OF two_generators.intro [OF Or]] by (simp add: fun_eq_iff)
next
  case (Not' e)
  then show ?case
    using code_generator.not_generator [OF Not'] by (simp add: fun_eq_iff)
qed (simp_all add: proto.code_generator_axioms host.code_generator_axioms port.code_generator_axioms
      port_range.code_generator_axioms ether.code_generator_axioms net.code_generator_axioms
      len.code_generator_axioms)

interpretation node: code_generator "compile_node ast" "node_block ast" "matches ast" for ast
  by (rule node_generator)

text \<open>
  The connectives are generators over any two generators; the instance on \<open>compile_node\<close> gives
  the rules for composite expressions.
\<close>

interpretation nodes: two_generators "compile_node l" "node_block l" "matches l"
  "compile_node r" "node_block r" "matches r" for l r
  by (rule two_generators.intro) (rule node_generator)+

section \<open>The whole compiler\<close>

lemma compile_is_link:
  "compile ast = link (node_block ast) [ret_k CBPF_ACCEPT, ret_k CBPF_REJECT]"
  unfolding compile_def compile_asm_def by (rule node.assembled_is_link)

lemma compile_vm:
  "compile ast = Inr prog \<Longrightarrow> vec_len_ok prog \<Longrightarrow> Vm_exec prog pkt = Some (matches ast pkt)"
  unfolding compile_is_link by (rule node.linked_vm)

lemma compile_jump_safe: "compile ast = Inr prog \<Longrightarrow> jump_safe prog"
  unfolding compile_is_link by (rule node.linked_jump_safe)

lemma compile_small:
  "length (node_block ast) \<le> 255 \<Longrightarrow>
   compile ast = Inr (flatten (node_block ast) @ [ret_k CBPF_ACCEPT, ret_k CBPF_REJECT])"
  unfolding compile_is_link by (rule node.linked_small)

lemma compile_length:
  "compile ast = Inr prog \<Longrightarrow> length prog = length (node_block ast) + 2"
  by (auto simp: compile_is_link link_def split: option.splits)

end
