(* ===== verification/Compiler_Limits.thy ===== *)
theory Compiler_Limits
  imports Compiler_Correct
begin

text \<open>
  How much code an expression costs and when that is too much: the block of a predicate has at
  most 26 items, a jump further than 255 items is the one thing the assembler cannot encode, and
  negation only swaps the exits of a block.
\<close>

section \<open>Size of the generated code\<close>

text \<open>The number of predicates of an expression; the largest block of one is 26 items (IPv6 \<open>net\<close>).\<close>

fun predicates :: "FilterAst \<Rightarrow> nat" where
  "predicates (And l r) = predicates l + predicates r"
| "predicates (Or l r) = predicates l + predicates r"
| "predicates (Not' e) = predicates e"
| "predicates _ = 1"

lemma length_dir_block: "length (dir_block dir S D) \<le> length S + length D"
  by (cases dir) (simp_all add: dir_block_def)

lemma length_leaf:
  "length (proto_block p) \<le> 26" "length (host_block a dir) \<le> 26"
  "length (ports_block (port_cmp w dir)) \<le> 26" "length (ports_block (range_cmp lo hi dir)) \<le> 26"
  "length (ether_block mac dir) \<le> 26" "length (net_block n dir) \<le> 26"
  "length (len_block op' k) \<le> 26"
proof -
  show "length (proto_block p) \<le> 26" by (cases p) (simp_all add: block_simps)
  show "length (host_block a dir) \<le> 26"
    by (cases a; cases dir) (simp_all add: block_simps ipv6_words_def Let_def)
  show "length (ports_block (port_cmp w dir)) \<le> 26" by (cases dir) (simp_all add: block_simps)
  show "length (ports_block (range_cmp lo hi dir)) \<le> 26" by (cases dir) (simp_all add: block_simps)
  show "length (ether_block mac dir) \<le> 26" by (cases dir) (simp_all add: block_simps Let_def)
  show "length (net_block n dir) \<le> 26"
    by (cases n; cases dir) (simp_all add: block_simps ipv6_words_def Let_def)
  show "length (len_block op' k) \<le> 26" by (cases op') (simp_all add: block_simps)
qed

lemma length_node_block: "length (node_block ast) \<le> 26 * predicates ast"
  by (induction ast) (simp_all add: length_leaf)

section \<open>Jumps that do not fit\<close>

lemma first_far_large: "first_far B = Some d \<Longrightarrow> d > 255"
  by (induction B rule: first_far.induct) (auto split: if_splits)

lemma first_far_Acc:
  "i < length B \<Longrightarrow> B ! i = Jmp x Acc f \<Longrightarrow> length B > i + 256 \<Longrightarrow> first_far B \<noteq> None"
proof (induction B arbitrary: i rule: first_far.induct)
  case (2 y B)
  then show ?case by (cases i) auto
next
  case (3 y t g B)
  then show ?case by (cases i) auto
qed simp

text \<open>The tree of \<open>host a1 or host a2 or \<dots>\<close>.\<close>

definition or_hosts :: "Ipv4Addr \<Rightarrow> Ipv4Addr list \<Rightarrow> FilterAst" where
  "or_hosts a as = foldl Or (Host (HostV4 a) Any) (map (\<lambda>b. Host (HostV4 b) Any) as)"

lemma nth_or_block:
  "i < length B \<Longrightarrow> B ! i = Jmp x Acc f \<Longrightarrow> \<exists>g. or_block B C ! i = Jmp x Acc g"
proof -
  have "i < length B \<Longrightarrow> B ! i = Jmp x Acc f \<Longrightarrow> \<exists>g. retarget Acc (Rel 0) B ! i = Jmp x Acc g"
  proof (induction B arbitrary: i rule: wf_block.induct)
    case (2 y B)
    then show ?case by (cases i) auto
  next
    case (3 y t f B)
    then show ?case by (cases i) auto
  qed simp
  then show "i < length B \<Longrightarrow> B ! i = Jmp x Acc f \<Longrightarrow> ?thesis"
    by (simp add: or_block_def nth_append)
qed

lemma node_block_or_hosts:
  "length (node_block (or_hosts a as)) = 6 + 6 * length as \<and>
   (\<exists>x g. node_block (or_hosts a as) ! 3 = Jmp x Acc g)"
proof (induction as rule: rev_induct)
  case Nil
  then show ?case
    by (simp add: or_hosts_def block_simps and_block_def or_block_def)
next
  case (snoc b as)
  have "or_hosts a (as @ [b]) = Or (or_hosts a as) (Host (HostV4 b) Any)"
    by (simp add: or_hosts_def)
  moreover from snoc obtain x g where "node_block (or_hosts a as) ! 3 = Jmp x Acc g" by blast
  then obtain g' where "or_block (node_block (or_hosts a as)) (host_block (HostV4 b) Any) ! 3 = Jmp x Acc g'"
    using nth_or_block [of 3 "node_block (or_hosts a as)"] snoc by fastforce
  ultimately show ?case
    using snoc by (auto simp: block_simps)
qed

section \<open>De Morgan at the level of code\<close>

lemma move_target_not:
  "move_target Rej Acc m (move_target ta tr n t) =
   move_target (move_target Rej Acc 0 tr) (move_target Rej Acc 0 ta) n (move_target Rej Acc n' t)"
  by (cases t) (auto split: target.splits)

lemma retarget_append:
  "retarget Rej Acc (B @ C) = retarget Rej Acc B @ retarget Rej Acc C"
proof (induction B rule: wf_block.induct)
  case (3 i t f B)
  then show ?case by (cases t; cases f) auto
qed auto

lemma retarget_not:
  "retarget Rej Acc (retarget ta tr B) =
   retarget (move_target Rej Acc 0 tr) (move_target Rej Acc 0 ta) (retarget Rej Acc B)"
proof (induction B rule: wf_block.induct)
  case (3 i t f B)
  then show ?case by (simp add: move_target_not [where n' = "length B"])
qed auto

lemma not_and_block: "not_block (and_block B C) = or_block (not_block B) (not_block C)"
  by (simp add: not_block_def and_block_def or_block_def retarget_append retarget_not)

lemma not_or_block: "not_block (or_block B C) = and_block (not_block B) (not_block C)"
  by (simp add: not_block_def and_block_def or_block_def retarget_append retarget_not)

lemma not_not_block: "not_block (not_block B) = B"
proof -
  have "move_target Rej Acc m (move_target Rej Acc n t) = t" for m n t
    by (cases t) auto
  then show ?thesis
    unfolding not_block_def by (induction B rule: wf_block.induct) auto
qed

section \<open>The filter as the program runs it\<close>

text \<open>
  Compilation and execution together, as the capture and read loops of the command line use them:
  \<open>None\<close> when the compiler panics or the machine does not return.
\<close>

definition run_filter :: "FilterAst \<Rightarrow> packet_bytes \<Rightarrow> bool option" where
  "run_filter ast pkt = (case compile ast of Inl _ \<Rightarrow> None | Inr prog \<Rightarrow> Vm_exec prog pkt)"

lemma compile_few:
  assumes "predicates ast \<le> 9"
  shows "compile ast = Inr (flatten (node_block ast) @ [ret_k CBPF_ACCEPT, ret_k CBPF_REJECT])"
    "vec_len_ok (flatten (node_block ast) @ [ret_k CBPF_ACCEPT, ret_k CBPF_REJECT])"
proof -
  have "length (node_block ast) \<le> 255" using length_node_block [of ast] assms by linarith
  then show "compile ast = Inr (flatten (node_block ast) @ [ret_k CBPF_ACCEPT, ret_k CBPF_REJECT])"
    "vec_len_ok (flatten (node_block ast) @ [ret_k CBPF_ACCEPT, ret_k CBPF_REJECT])"
    by (simp_all add: compile_small vec_len_ok_def)
qed

lemma run_filter_few: "predicates ast \<le> 9 \<Longrightarrow> run_filter ast pkt = Some (matches ast pkt)"
  by (simp add: run_filter_def compile_few compile_vm [OF compile_few])

end
