(* ===== verification/Vm_Tests.thy ===== *)
theory Vm_Tests
  imports Compiler_Limits Filter_Parser
begin

text \<open>
  The unit tests of the virtual machine on the model: the module \<open>tests\<close> of
  \<^verbatim>\<open>crates/netdump-cbpf/src/lib.rs\<close>, with the helpers that build its packets. A test holds when the machine
  returns on every run, with the verdict the test asserts.
\<close>

section \<open>The virtual machine\<close>

text \<open>The checksum of an IPv4 header: the sum of its 16-bit words with the carries folded back, inverted.\<close>

fun sum_words :: "u8 list \<Rightarrow> u32 \<Rightarrow> u32" where
  "sum_words (a # b # rest) acc = sum_words rest (acc + ucast (u16_from_be_bytes a b))"
| "sum_words _ acc = acc"

lemma fold_carry_less:
  fixes acc :: u32
  assumes "drop_bit 16 acc \<noteq> 0"
  shows "unat ((acc AND 0xFFFF) + drop_bit 16 acc) < unat acc"
proof -
  have lo: "acc AND 0xFFFF = take_bit 16 acc" by (simp add: take_bit_eq_mask mask_numeral)
  have n: "unat (take_bit 16 acc) = unat acc mod 65536" "unat (drop_bit 16 acc) = unat acc div 65536"
    by (simp_all add: unsigned_take_bit_eq take_bit_eq_mod unat_drop_bit_eq drop_bit_eq_div
      unat_mod unat_div)
  have "unat acc < 2 ^ 32" using unat_u32_less [of acc] by simp
  then have "unat acc mod 65536 + unat acc div 65536 < 2 ^ 32" by linarith
  then have "unat ((acc AND 0xFFFF) + drop_bit 16 acc) = unat acc mod 65536 + unat acc div 65536"
    unfolding lo by (subst unat_add_lem [THEN iffD1]) (simp_all add: n)
  moreover have "unat acc div 65536 \<noteq> 0" using assms n(2) by (metis unat_eq_zero)
  ultimately show ?thesis using mult_div_mod_eq [of 65536 "unat acc"] by linarith
qed

function fold_carry :: "u32 \<Rightarrow> u32" where
  "fold_carry acc = (if drop_bit 16 acc \<noteq> 0 then fold_carry ((acc AND 0xFFFF) + drop_bit 16 acc) else acc)"
  by pat_completeness auto
termination by (relation "measure unat") (auto simp: fold_carry_less)

declare fold_carry.simps [simp del]

definition calc_ipv4_checksum :: "u8 list \<Rightarrow> u16" where
  "calc_ipv4_checksum header = NOT (ucast (fold_carry (sum_words header 0)))"

definition u16_to_be_bytes :: "u16 \<Rightarrow> u8 list" where
  "u16_to_be_bytes w = [ucast (drop_bit 8 w), ucast w]"

definition copy_at :: "nat \<Rightarrow> u8 list \<Rightarrow> packet_bytes \<Rightarrow> packet_bytes" where
  "copy_at off bs pkt = take off pkt @ bs @ drop (off + length bs) pkt"

definition build_ip_packet :: "u8 \<Rightarrow> nat \<Rightarrow> u8 list \<Rightarrow> u8 list \<Rightarrow> packet_bytes" where
  "build_ip_packet proto payload_len src_ip dst_ip =
     (let pkt = (replicate (14 + 20 + payload_len) 0)[12 := 0x08, 13 := 0x00, 14 := 0x45];
          pkt = copy_at 16 (u16_to_be_bytes (of_nat (20 + payload_len))) pkt;
          pkt = copy_at 30 dst_ip (copy_at 26 src_ip (pkt[23 := proto]));
          checksum = calc_ipv4_checksum (take 20 (drop 14 pkt))
      in copy_at 24 (u16_to_be_bytes checksum) pkt)"

definition set_tcp_header :: "packet_bytes \<Rightarrow> packet_bytes" where
  "set_tcp_header pkt = pkt[14 + 20 + 12 := 0x50]"

definition set_udp_ports :: "packet_bytes \<Rightarrow> u16 \<Rightarrow> u16 \<Rightarrow> packet_bytes" where
  "set_udp_ports pkt src dst = copy_at 36 (u16_to_be_bytes dst) (copy_at 34 (u16_to_be_bytes src) pkt)"

lemma zeros_34: "replicate (34 + n) z = [z, z, z, z, z, z, z, z, z, z, z, z, z, z, z, z, z, z, z, z, z, z, z, z,
    z, z, z, z, z, z, z, z, z, z] @ replicate n z"
  by (simp add: eval_nat_numeral)

text \<open>What the filters look at in such a packet; the length and the checksum do not matter to them.\<close>

lemma ip_packet_layout:
  assumes "length src = 4" "length dst = 4"
  shows "\<exists>l0 l1 c0 c1. build_ip_packet proto n src dst =
    [0, 0, 0, 0, 0, 0, 0, 0, 0, 0, 0, 0, 8, 0, 0x45, 0, l0, l1, 0, 0, 0, 0, 0, proto, c0, c1] @ src @ dst @ replicate n 0"
proof -
  obtain s0 s1 s2 s3 where s: "src = [s0, s1, s2, s3]" using assms(1) by (auto simp: length_Suc_conv eval_nat_numeral)
  obtain d0 d1 d2 d3 where d: "dst = [d0, d1, d2, d3]" using assms(2) by (auto simp: length_Suc_conv eval_nat_numeral)
  show ?thesis
    by (simp add: build_ip_packet_def copy_at_def u16_to_be_bytes_def Let_def s d zeros_34)
qed

text \<open>The tests of hand-written programs. \<open>Vm::exec\<close> must return, with the verdict that is asserted.\<close>

definition vm_load_ethertype_and_ret :: bool where
  "vm_load_ethertype_and_ret \<longleftrightarrow>
     (let check = (jeq (ucast ETHERTYPE_IP))\<lparr>i_jt := 1, i_jf := 0\<rparr>;
          program = [ld_abs_h 12, check, ret_k CBPF_REJECT, ret_k CBPF_ACCEPT];
          ip_pkt = build_ip_packet IPPROTO_TCP 20 [10, 0, 0, 1] [10, 0, 0, 2];
          non_ip = ip_pkt[12 := 0x08, 13 := 0x06]
      in Vm_exec program ip_pkt = Some True \<and> Vm_exec program non_ip = Some False)"

definition vm_unconditional_jump :: bool where
  "vm_unconditional_jump \<longleftrightarrow>
     (let ja = Instruction_new (BPF_JMP OR BPF_JA OR BPF_K) 0 0 2;
          program = [ld_abs_b 12, ja, ret_k CBPF_REJECT, ret_k CBPF_REJECT, ret_k CBPF_ACCEPT];
          pkt = build_ip_packet IPPROTO_TCP 20 [10, 0, 0, 1] [10, 0, 0, 2]
      in Vm_exec program pkt = Some True)"

definition vm_store_and_transfer :: bool where
  "vm_store_and_transfer \<longleftrightarrow>
     (let program = [
        Instruction_new (BPF_LD OR BPF_IMM OR BPF_W) 0 0 42,
        Instruction_new BPF_ST 0 0 0,
        Instruction_new (BPF_LD OR BPF_IMM OR BPF_W) 0 0 0,
        Instruction_new (BPF_MISC OR BPF_TAX) 0 0 0,
        Instruction_new (BPF_LDX OR BPF_MEM OR BPF_W) 0 0 0,
        Instruction_new (BPF_MISC OR BPF_TXA) 0 0 0,
        ret_k 42]
      in Vm_exec program [] = Some True)"

text \<open>The tests of compiled expressions.\<close>

definition compile_proto_tcp_matches_tcp_only :: bool where
  "compile_proto_tcp_matches_tcp_only \<longleftrightarrow>
     (case compile (Proto Tcp) of
        Inl _ \<Rightarrow> False
      | Inr prog \<Rightarrow>
          Vm_exec prog (set_tcp_header (build_ip_packet IPPROTO_TCP 20 [10, 0, 0, 1] [10, 0, 0, 2])) = Some True \<and>
          Vm_exec prog (build_ip_packet IPPROTO_UDP 8 [10, 0, 0, 1] [10, 0, 0, 2]) = Some False)"

definition compile_host_any_matches_src_or_dst :: bool where
  "compile_host_any_matches_src_or_dst \<longleftrightarrow>
     (case compile (Host (HostV4 (Ipv4Addr_new 192 168 1 100)) Any) of
        Inl _ \<Rightarrow> False
      | Inr prog \<Rightarrow>
          Vm_exec prog (build_ip_packet IPPROTO_TCP 20 [192, 168, 1, 100] [10, 0, 0, 2]) = Some True \<and>
          Vm_exec prog (build_ip_packet IPPROTO_TCP 20 [10, 0, 0, 1] [192, 168, 1, 100]) = Some True \<and>
          Vm_exec prog (build_ip_packet IPPROTO_TCP 20 [10, 0, 0, 1] [10, 0, 0, 2]) = Some False)"

definition compile_port_src_matches_udp_source_port :: bool where
  "compile_port_src_matches_udp_source_port \<longleftrightarrow>
     (case compile (Port 53 Src) of
        Inl _ \<Rightarrow> False
      | Inr prog \<Rightarrow>
          Vm_exec prog (set_udp_ports (build_ip_packet IPPROTO_UDP 8 [10, 0, 0, 1] [10, 0, 0, 2]) 53 12345) = Some True \<and>
          Vm_exec prog (set_udp_ports (build_ip_packet IPPROTO_UDP 8 [10, 0, 0, 1] [10, 0, 0, 2]) 54 12345) = Some False)"

definition compile_parsed_and_or_filter :: "(string \<Rightarrow> FilterAst outcome) \<Rightarrow> bool" where
  "compile_parsed_and_or_filter p \<longleftrightarrow>
     (case p ''tcp and host 192.168.1.1 or udp'' of
        Inl _ \<Rightarrow> False
      | Inr ast \<Rightarrow>
          (case compile ast of
             Inl _ \<Rightarrow> False
           | Inr prog \<Rightarrow>
               Vm_exec prog (set_tcp_header (build_ip_packet IPPROTO_TCP 20 [10, 0, 0, 1] [192, 168, 1, 1])) = Some True \<and>
               Vm_exec prog (build_ip_packet IPPROTO_UDP 8 [10, 0, 0, 1] [10, 0, 0, 2]) = Some True \<and>
               Vm_exec prog (set_tcp_header (build_ip_packet IPPROTO_TCP 20 [10, 0, 0, 1] [10, 0, 0, 2])) = Some False))"

lemmas vm_eval = Vm_exec_def exec_loop.simps vm_init_def vm_step_def step_ld_def step_ldx_def step_jmp_def
  step_misc_def load_sized_def jump_cond_def mem_index_def wrapping_add_usize_def bpf_defs read_u8_def read_u16_def
  u16_from_be_bytes_def

lemma run_programs: "vm_load_ethertype_and_ret" "vm_unconditional_jump" "vm_store_and_transfer"
proof -
  obtain l0 l1 c0 c1 where p: "build_ip_packet IPPROTO_TCP 20 [10, 0, 0, 1] [10, 0, 0, 2] =
      [0, 0, 0, 0, 0, 0, 0, 0, 0, 0, 0, 0, 8, 0, 0x45, 0, l0, l1, 0, 0, 0, 0, 0, IPPROTO_TCP, c0, c1] @
      [10, 0, 0, 1] @ [10, 0, 0, 2] @ replicate 20 0"
    using ip_packet_layout [of "[10, 0, 0, 1]" "[10, 0, 0, 2]" IPPROTO_TCP 20] by auto
  show "vm_load_ethertype_and_ret"
    unfolding vm_load_ethertype_and_ret_def p
    by (simp add: Let_def vm_eval)
  show "vm_unconditional_jump"
    unfolding vm_unconditional_jump_def p
    by (simp add: Let_def vm_eval)
  show "vm_store_and_transfer"
    unfolding vm_store_and_transfer_def
    by (simp add: Let_def vm_eval)
qed

text \<open>A small expression decides what it should, so each test is about what its packets match.\<close>

lemma compiled_verdict:
  "compile ast = Inr prog \<Longrightarrow> predicates ast \<le> 9 \<Longrightarrow> Vm_exec prog pkt = Some (matches ast pkt)"
  using run_filter_few [of ast pkt] by (simp add: run_filter_def)

lemma compiled_test:
  assumes "predicates ast \<le> 9" "\<And>prog. (\<And>pkt. Vm_exec prog pkt = Some (matches ast pkt)) \<Longrightarrow> Q prog"
  shows "case compile ast of Inl _ \<Rightarrow> False | Inr prog \<Rightarrow> Q prog"
  using assms compile_few(1) [OF assms(1)] compiled_verdict by simp

lemmas packet_fields = ethertype_def is_ipv4_def is_ipv6_def ip_protocol_def has_ports_def transport_start_def
  src_port_of_def dst_port_of_def read_ipv4_def on_dir_def read_u8_def read_u16_def read_u32_def
  u16_from_be_bytes_def u32_from_be_bytes_def bpf_defs

lemma layout:
  obtains l0 l1 c0 c1 where "build_ip_packet proto n [s0, s1, s2, s3] [d0, d1, d2, d3] =
    [0, 0, 0, 0, 0, 0, 0, 0, 0, 0, 0, 0, 8, 0, 0x45, 0, l0, l1, 0, 0, 0, 0, 0, proto, c0, c1,
     s0, s1, s2, s3, d0, d1, d2, d3] @ replicate n 0"
  using ip_packet_layout [of "[s0, s1, s2, s3]" "[d0, d1, d2, d3]" proto n] by auto

lemma test_packets:
  "matches (Proto Tcp) (set_tcp_header (build_ip_packet IPPROTO_TCP 20 [s0, s1, s2, s3] [d0, d1, d2, d3]))"
  "\<not> matches (Proto Tcp) (build_ip_packet IPPROTO_UDP 8 [s0, s1, s2, s3] [d0, d1, d2, d3])"
  "matches (Proto Udp) (build_ip_packet IPPROTO_UDP 8 [s0, s1, s2, s3] [d0, d1, d2, d3])"
  "\<not> matches (Proto Udp) (set_tcp_header (build_ip_packet IPPROTO_TCP 20 [s0, s1, s2, s3] [d0, d1, d2, d3]))"
  by (rule layout [of IPPROTO_TCP 20 s0 s1 s2 s3 d0 d1 d2 d3], rule layout [of IPPROTO_UDP 8 s0 s1 s2 s3 d0 d1 d2 d3],
      simp add: set_tcp_header_def packet_fields)+

lemma test_hosts:
  "matches (Host (HostV4 a) Any) (build_ip_packet proto n [s0, s1, s2, s3] [d0, d1, d2, d3]) \<longleftrightarrow>
     u32_from_be_bytes s0 s1 s2 s3 = u32_from_ipv4 a \<or> u32_from_be_bytes d0 d1 d2 d3 = u32_from_ipv4 a"
  "matches (Host (HostV4 a) Any) (set_tcp_header (build_ip_packet proto n [s0, s1, s2, s3] [d0, d1, d2, d3])) \<longleftrightarrow>
     u32_from_be_bytes s0 s1 s2 s3 = u32_from_ipv4 a \<or> u32_from_be_bytes d0 d1 d2 d3 = u32_from_ipv4 a"
  by (rule layout [of proto n s0 s1 s2 s3 d0 d1 d2 d3]; cases a;
      simp add: set_tcp_header_def ethertype_def is_ipv4_def read_ipv4_def on_dir_def read_u16_def read_u32_def
        u16_from_be_bytes_def bpf_defs)+

lemma be_bytes_u16: "u16_from_be_bytes (ucast (drop_bit 8 w)) (ucast w) = w"
proof (rule bit_word_eqI)
  fix k assume "k < LENGTH(16)"
  then show "bit (u16_from_be_bytes (ucast (drop_bit 8 w)) (ucast w)) k \<longleftrightarrow> bit w k"
    by (cases "k < 8") (auto simp: u16_from_be_bytes_def bit_simps)
qed

lemma ipv4_type: "u16_from_be_bytes 8 0 = 0x0800"
  by (simp add: u16_from_be_bytes_def)

lemma test_ports:
  "matches (Port p Src) (set_udp_ports (build_ip_packet IPPROTO_UDP 8 [s0, s1, s2, s3] [d0, d1, d2, d3]) src dst) \<longleftrightarrow>
     src = p"
  by (rule layout [of IPPROTO_UDP 8 s0 s1 s2 s3 d0 d1 d2 d3])
    (simp add: set_udp_ports_def copy_at_def u16_to_be_bytes_def be_bytes_u16 ethertype_def is_ipv4_def ip_protocol_def
      has_ports_def transport_start_def src_port_of_def on_dir_def read_u8_def read_u16_def bpf_defs ipv4_type)

lemma run_compiled:
  "compile_proto_tcp_matches_tcp_only" "compile_host_any_matches_src_or_dst" "compile_port_src_matches_udp_source_port"
  unfolding compile_proto_tcp_matches_tcp_only_def compile_host_any_matches_src_or_dst_def
    compile_port_src_matches_udp_source_port_def
  by (rule compiled_test; simp add: test_packets test_hosts test_ports Ipv4Addr_new_def u32_from_be_bytes_def del: matches.simps)+

lemma run_parsed:
  assumes "p ''tcp and host 192.168.1.1 or udp'' = Inr (Or (And (Proto Tcp) (Host (HostV4 (Ipv4Addr_new 192 168 1 1)) Any)) (Proto Udp))"
  shows "compile_parsed_and_or_filter p"
  unfolding compile_parsed_and_or_filter_def assms sum.case
  by (rule compiled_test) (simp_all add: test_packets test_hosts Ipv4Addr_new_def u32_from_be_bytes_def
    matches.simps(1-3) del: matches.simps(4-))

definition vm_tests :: bool where
  "vm_tests \<longleftrightarrow> vm_load_ethertype_and_ret \<and> vm_unconditional_jump \<and> vm_store_and_transfer \<and>
     compile_proto_tcp_matches_tcp_only \<and> compile_host_any_matches_src_or_dst \<and>
     compile_port_src_matches_udp_source_port"

lemma vm_tests_hold: "vm_tests"
  by (simp add: vm_tests_def run_programs run_compiled)

end
