(* ===== verification/Packet_Info.thy ===== *)
theory Packet_Info
  imports Core_Types
begin

text \<open>
  \<open>parse_packet\<close> of \<^verbatim>\<open>crates/netdump-core/src/lib.rs\<close>. The header slicing is done by the \<open>etherparse\<close>
  crate; what the code reads of its result is the record \<open>SlicedPacket\<close>, and the slicer itself is
  the parameter \<open>from_ethernet\<close>, with \<open>None\<close> for its errors.
\<close>

section \<open>What the code reads of a sliced packet\<close>

datatype LinkSlice = Ethernet2 u16 | OtherLink

datatype NetSlice =
    NetIpv4 u8 Ipv4Addr Ipv4Addr
  | NetIpv6 u8 Ipv6Addr Ipv6Addr
  | OtherNet

datatype TransportSlice = TransportUdp u16 u16 | TransportTcp u16 u16 | OtherTransport

record SlicedPacket =
  sl_link :: "LinkSlice option"
  sl_net :: "NetSlice option"
  sl_transport :: "TransportSlice option"

section \<open>Packet information\<close>

record PacketInfo =
  info_ethertype :: "u16 option"
  info_protocol :: "u8 option"
  info_src_ip :: "IpAddr option"
  info_dst_ip :: "IpAddr option"
  info_src_port :: "u16 option"
  info_dst_port :: "u16 option"

definition PacketInfo_default :: PacketInfo where
  "PacketInfo_default = \<lparr>info_ethertype = None, info_protocol = None, info_src_ip = None,
     info_dst_ip = None, info_src_port = None, info_dst_port = None\<rparr>"

definition parse_packet :: "(packet_bytes \<Rightarrow> SlicedPacket option) \<Rightarrow> packet_bytes \<Rightarrow> PacketInfo option" where
  "parse_packet from_ethernet packet =
     (case from_ethernet packet of
        None \<Rightarrow> None
      | Some sliced \<Rightarrow>
          let info = PacketInfo_default;
              info = (case sl_link sliced of
                        Some (Ethernet2 e) \<Rightarrow> info\<lparr>info_ethertype := Some e\<rparr>
                      | _ \<Rightarrow> info);
              with_net = (case sl_net sliced of
                        Some (NetIpv4 p s d) \<Rightarrow>
                          Some (info\<lparr>info_protocol := Some p, info_src_ip := Some (IpV4 s),
                                     info_dst_ip := Some (IpV4 d)\<rparr>)
                      | Some (NetIpv6 p s d) \<Rightarrow>
                          Some (info\<lparr>info_protocol := Some p, info_src_ip := Some (IpV6 s),
                                     info_dst_ip := Some (IpV6 d)\<rparr>)
                      | _ \<Rightarrow> None) in
          case with_net of
            None \<Rightarrow> None
          | Some info \<Rightarrow>
              Some (case sl_transport sliced of
                      Some (TransportUdp s d) \<Rightarrow> info\<lparr>info_src_port := Some s, info_dst_port := Some d\<rparr>
                    | Some (TransportTcp s d) \<Rightarrow> info\<lparr>info_src_port := Some s, info_dst_port := Some d\<rparr>
                    | _ \<Rightarrow> info))"

text \<open>
  A result always carries both addresses, of one family, and the protocol number; ports come in
  pairs.
\<close>

definition info_consistent :: "PacketInfo \<Rightarrow> bool" where
  "info_consistent info \<longleftrightarrow>
     info_protocol info \<noteq> None \<and>
     (info_src_port info = None \<longleftrightarrow> info_dst_port info = None) \<and>
     (case (info_src_ip info, info_dst_ip info) of
        (Some (IpV4 _), Some (IpV4 _)) \<Rightarrow> True
      | (Some (IpV6 _), Some (IpV6 _)) \<Rightarrow> True
      | _ \<Rightarrow> False)"

text \<open>
  C38. Whatever the slicer returns, a packet \<open>parse_packet\<close> accepts has a protocol number, both
  addresses, of the same family, and both ports or none.
\<close>

theorem parse_packet_consistent:
  "parse_packet from_ethernet packet = Some info \<Longrightarrow> info_consistent info"
  by (auto simp: parse_packet_def info_consistent_def PacketInfo_default_def Let_def
      split: option.splits NetSlice.splits TransportSlice.splits LinkSlice.splits)

theorem parse_packet_consistent_witness:
  "\<exists>info. parse_packet (\<lambda>_. Some \<lparr>sl_link = Some (Ethernet2 0x0800),
       sl_net = Some (NetIpv4 17 (Ipv4Addr 1) (Ipv4Addr 2)), sl_transport = Some (TransportUdp 53 9)\<rparr>) [] =
       Some info \<and> info_consistent info"
proof -
  let ?slicer = "\<lambda>_ :: packet_bytes. Some \<lparr>sl_link = Some (Ethernet2 0x0800),
    sl_net = Some (NetIpv4 17 (Ipv4Addr 1) (Ipv4Addr 2)), sl_transport = Some (TransportUdp 53 9)\<rparr>"
  obtain info where "parse_packet ?slicer [] = Some info" by (simp add: parse_packet_def Let_def)
  with parse_packet_consistent [of ?slicer "[]" info] show ?thesis by blast
qed

end
