(* ===== verification/Packet_Slices.thy ===== *)
theory Packet_Slices
  imports Packet_Info Vm_Tests
begin

text \<open>
  The packet summary and the filter look at the same packet in two ways: \<open>parse_packet\<close> through the
  slices of the etherparse crate, the compiled filter through loads at fixed offsets. Here is what
  the crate documents of its slices (\<open>slices_ethernet\<close>), what an expression says of a summary
  (\<open>info_matches\<close>), and that the two agree.
\<close>

section \<open>What etherparse documents\<close>

text \<open>A fragment of an IPv4 datagram: more fragments follow, or the offset is not zero.\<close>

definition fragmented :: "packet_bytes \<Rightarrow> bool" where
  "fragmented pkt \<longleftrightarrow> is_ipv4 pkt \<and> read_u16 pkt 20 AND 0x3fff \<noteq> 0"

text \<open>
  The slices of an untagged IP packet give the fields of its headers. The transport header of a
  fragment is not sliced; behind extension headers the slices may give the ports of a packet whose
  IP header names another protocol, and nothing is said of them.
\<close>

definition net_slice :: "packet_bytes \<Rightarrow> NetSlice" where
  "net_slice pkt =
     (if is_ipv4 pkt then NetIpv4 (read_u8 pkt 23) (read_ipv4 pkt 26) (read_ipv4 pkt 30)
      else NetIpv6 (read_u8 pkt 20) (read_ipv6 pkt 22) (read_ipv6 pkt 38))"

definition transport_slice :: "packet_bytes \<Rightarrow> TransportSlice option" where
  "transport_slice pkt =
     (if fragmented pkt then None
      else if ip_protocol pkt = Some IPPROTO_TCP then Some (TransportTcp (src_port_of pkt) (dst_port_of pkt))
      else Some (TransportUdp (src_port_of pkt) (dst_port_of pkt)))"

definition slices_of :: "packet_bytes \<Rightarrow> SlicedPacket \<Rightarrow> bool" where
  "slices_of pkt sliced \<longleftrightarrow>
     sl_link sliced = Some (Ethernet2 (ethertype pkt)) \<and>
     sl_net sliced = Some (net_slice pkt) \<and>
     (has_ports pkt \<longrightarrow> sl_transport sliced = transport_slice pkt)"

text \<open>
  A packet no check of the slicer objects to: a TCP or UDP segment in one IPv4 datagram that fills the
  frame, with a right checksum and its transport header complete.
\<close>

definition whole_segment :: "packet_bytes \<Rightarrow> bool" where
  "whole_segment pkt \<longleftrightarrow>
     is_ipv4 pkt \<and> \<not> fragmented pkt \<and>
     drop_bit 4 (read_u8 pkt 14) = 4 \<and> 34 \<le> transport_start pkt \<and> transport_start pkt \<le> length pkt \<and>
     unat (read_u16 pkt 16) + 14 = length pkt \<and>
     calc_ipv4_checksum (take (transport_start pkt - 14) (drop 14 pkt)) = 0 \<and>
     (let room = length pkt - transport_start pkt;
          data_offset = 4 * unat (drop_bit 4 (read_u8 pkt (transport_start pkt + 12)))
      in (ip_protocol pkt = Some IPPROTO_TCP \<and> 20 \<le> data_offset \<and> data_offset \<le> room) \<or>
         (ip_protocol pkt = Some IPPROTO_UDP \<and> 8 \<le> room \<and>
          unat (read_u16 pkt (transport_start pkt + 4)) \<in> {0, room}))"

definition slices_ethernet :: "(packet_bytes \<Rightarrow> SlicedPacket option) \<Rightarrow> bool" where
  "slices_ethernet from_ethernet \<longleftrightarrow>
     (\<forall>pkt. length pkt < 14 \<longrightarrow> from_ethernet pkt = None) \<and>
     (\<forall>pkt. whole_segment pkt \<longrightarrow> from_ethernet pkt \<noteq> None) \<and>
     (\<forall>pkt sliced. from_ethernet pkt = Some sliced \<longrightarrow> is_ipv4 pkt \<or> is_ipv6 pkt \<longrightarrow> slices_of pkt sliced)"

lemma slices_ethernetD:
  assumes "slices_ethernet from_ethernet"
  shows "length pkt < 14 \<Longrightarrow> from_ethernet pkt = None"
    and "whole_segment pkt \<Longrightarrow> \<exists>sliced. from_ethernet pkt = Some sliced"
    and "from_ethernet pkt = Some sliced \<Longrightarrow> is_ipv4 pkt \<or> is_ipv6 pkt \<Longrightarrow> slices_of pkt sliced"
  using assms unfolding slices_ethernet_def by auto

text \<open>One function that slices so; it does without most of the checks.\<close>

definition field_slicer :: "packet_bytes \<Rightarrow> SlicedPacket option" where
  "field_slicer pkt =
     (if length pkt < 14 \<or> \<not> (is_ipv4 pkt \<or> is_ipv6 pkt) then None
      else Some \<lparr>sl_link = Some (Ethernet2 (ethertype pkt)), sl_net = Some (net_slice pkt),
                 sl_transport = (if has_ports pkt then transport_slice pkt else None)\<rparr>)"

lemma field_slicer_slices: "slices_ethernet field_slicer"
  by (auto simp: slices_ethernet_def field_slicer_def slices_of_def whole_segment_def Let_def)

section \<open>What an expression says of a summary\<close>

fun ip_of_host :: "HostAddr \<Rightarrow> IpAddr" where
  "ip_of_host (HostV4 a) = IpV4 a"
| "ip_of_host (HostV6 a) = IpV6 a"

fun ip_in_net :: "NetAddr \<Rightarrow> IpAddr option \<Rightarrow> bool" where
  "ip_in_net (NetV4 a m) (Some (IpV4 x)) \<longleftrightarrow>
     u32_from_ipv4 x AND u32_from_ipv4 m = u32_from_ipv4 a AND u32_from_ipv4 m"
| "ip_in_net (NetV6 a m) (Some (IpV6 x)) \<longleftrightarrow> u128_from_ipv6 x AND u128_from_ipv6 m = u128_from_ipv6 a"
| "ip_in_net _ _ \<longleftrightarrow> False"

definition info_has_ports :: "PacketInfo \<Rightarrow> bool" where
  "info_has_ports info \<longleftrightarrow> info_protocol info \<in> {Some IPPROTO_TCP, Some IPPROTO_UDP}"

fun info_proto :: "Protocol \<Rightarrow> PacketInfo \<Rightarrow> bool" where
  "info_proto Ip info \<longleftrightarrow> info_ethertype info = Some ETHERTYPE_IP"
| "info_proto Ip6 info \<longleftrightarrow> info_ethertype info = Some ETHERTYPE_IPV6"
| "info_proto Arp info \<longleftrightarrow> info_ethertype info = Some ETHERTYPE_ARP"
| "info_proto Rarp info \<longleftrightarrow> info_ethertype info = Some ETHERTYPE_RARP"
| "info_proto Tcp info \<longleftrightarrow> info_protocol info = Some IPPROTO_TCP"
| "info_proto Udp info \<longleftrightarrow> info_protocol info = Some IPPROTO_UDP"
| "info_proto Icmp info \<longleftrightarrow> info_ethertype info = Some ETHERTYPE_IP \<and> info_protocol info = Some IPPROTO_ICMP"
| "info_proto Icmp6 info \<longleftrightarrow> info_ethertype info = Some ETHERTYPE_IPV6 \<and> info_protocol info = Some IPPROTO_ICMPV6"

text \<open>Ethernet addresses and the length are not part of the summary.\<close>

fun info_matches :: "FilterAst \<Rightarrow> PacketInfo \<Rightarrow> bool" where
  "info_matches (And l r) info \<longleftrightarrow> info_matches l info \<and> info_matches r info"
| "info_matches (Or l r) info \<longleftrightarrow> info_matches l info \<or> info_matches r info"
| "info_matches (Not' e) info \<longleftrightarrow> \<not> info_matches e info"
| "info_matches (Proto p) info \<longleftrightarrow> info_proto p info"
| "info_matches (Host a dir) info \<longleftrightarrow>
     on_dir dir (info_src_ip info = Some (ip_of_host a)) (info_dst_ip info = Some (ip_of_host a))"
| "info_matches (Net a dir) info \<longleftrightarrow>
     on_dir dir (ip_in_net a (info_src_ip info)) (ip_in_net a (info_dst_ip info))"
| "info_matches (Port p dir) info \<longleftrightarrow>
     info_has_ports info \<and> on_dir dir (info_src_port info = Some p) (info_dst_port info = Some p)"
| "info_matches (PortRange lo hi dir) info \<longleftrightarrow>
     info_has_ports info \<and>
     (case (info_src_port info, info_dst_port info) of
        (Some s, Some d) \<Rightarrow> range_matches lo hi dir s d
      | _ \<Rightarrow> False)"
| "info_matches (EtherHost a dir) info \<longleftrightarrow> False"
| "info_matches (Len op' n) info \<longleftrightarrow> False"

fun summarised :: "FilterAst \<Rightarrow> bool" where
  "summarised (And l r) \<longleftrightarrow> summarised l \<and> summarised r"
| "summarised (Or l r) \<longleftrightarrow> summarised l \<and> summarised r"
| "summarised (Not' e) \<longleftrightarrow> summarised e"
| "summarised (EtherHost a dir) \<longleftrightarrow> False"
| "summarised (Len op' n) \<longleftrightarrow> False"
| "summarised _ \<longleftrightarrow> True"

section \<open>Agreement\<close>

text \<open>The summary of an untagged IP packet, field by field.\<close>

lemma summary_fields:
  assumes "slices_ethernet from_ethernet" "parse_packet from_ethernet pkt = Some info" "is_ipv4 pkt \<or> is_ipv6 pkt"
  shows "info_ethertype info = Some (ethertype pkt)"
    and "info_protocol info = ip_protocol pkt"
    and "info_src_ip info = Some (if is_ipv4 pkt then IpV4 (read_ipv4 pkt 26) else IpV6 (read_ipv6 pkt 22))"
    and "info_dst_ip info = Some (if is_ipv4 pkt then IpV4 (read_ipv4 pkt 30) else IpV6 (read_ipv6 pkt 38))"
    and "has_ports pkt \<Longrightarrow> info_src_port info = (if fragmented pkt then None else Some (src_port_of pkt))"
    and "has_ports pkt \<Longrightarrow> info_dst_port info = (if fragmented pkt then None else Some (dst_port_of pkt))"
proof -
  obtain sliced where s: "from_ethernet pkt = Some sliced"
    using assms(2) by (auto simp: parse_packet_def split: option.splits)
  have "slices_of pkt sliced" using slices_ethernetD(3) [OF assms(1) s assms(3)] .
  then have link: "sl_link sliced = Some (Ethernet2 (ethertype pkt))"
    and net: "sl_net sliced = Some (net_slice pkt)"
    and transport: "has_ports pkt \<Longrightarrow> sl_transport sliced = transport_slice pkt"
    by (simp_all add: slices_of_def)
  let ?base = "PacketInfo_default\<lparr>info_ethertype := Some (ethertype pkt), info_protocol := ip_protocol pkt,
    info_src_ip := Some (if is_ipv4 pkt then IpV4 (read_ipv4 pkt 26) else IpV6 (read_ipv6 pkt 22)),
    info_dst_ip := Some (if is_ipv4 pkt then IpV4 (read_ipv4 pkt 30) else IpV6 (read_ipv6 pkt 38))\<rparr>"
  have parsed: "info = (case sl_transport sliced of
      Some (TransportUdp s d) \<Rightarrow> ?base\<lparr>info_src_port := Some s, info_dst_port := Some d\<rparr>
    | Some (TransportTcp s d) \<Rightarrow> ?base\<lparr>info_src_port := Some s, info_dst_port := Some d\<rparr>
    | _ \<Rightarrow> ?base)"
    using assms(2,3) by (auto simp: parse_packet_def s link net net_slice_def ip_protocol_def Let_def
        split: option.splits TransportSlice.splits)
  show "info_ethertype info = Some (ethertype pkt)" "info_protocol info = ip_protocol pkt"
    "info_src_ip info = Some (if is_ipv4 pkt then IpV4 (read_ipv4 pkt 26) else IpV6 (read_ipv6 pkt 22))"
    "info_dst_ip info = Some (if is_ipv4 pkt then IpV4 (read_ipv4 pkt 30) else IpV6 (read_ipv6 pkt 38))"
    unfolding parsed by (simp_all split: option.split TransportSlice.split)
  show "info_src_port info = (if fragmented pkt then None else Some (src_port_of pkt))"
    "info_dst_port info = (if fragmented pkt then None else Some (dst_port_of pkt))" if "has_ports pkt"
    unfolding parsed transport [OF that] by (simp_all add: transport_slice_def PacketInfo_default_def)
qed

text \<open>A whole segment has a summary, and it has the ports.\<close>

lemma whole_summary:
  assumes "slices_ethernet from_ethernet" "whole_segment pkt"
  obtains info where "parse_packet from_ethernet pkt = Some info"
    "info_ethertype info = Some ETHERTYPE_IP" "info_protocol info = ip_protocol pkt"
    "info_src_ip info = Some (IpV4 (read_ipv4 pkt 26))" "info_dst_ip info = Some (IpV4 (read_ipv4 pkt 30))"
    "info_src_port info = Some (src_port_of pkt)" "info_dst_port info = Some (dst_port_of pkt)"
proof -
  have v4: "is_ipv4 pkt" and unfragmented: "\<not> fragmented pkt" and ports: "has_ports pkt"
    using assms(2) by (auto simp: whole_segment_def has_ports_def Let_def)
  obtain sliced where s: "from_ethernet pkt = Some sliced" using slices_ethernetD(2) [OF assms] by blast
  have "sl_net sliced = Some (net_slice pkt)"
    using slices_ethernetD(3) [OF assms(1) s] v4 by (simp add: slices_of_def)
  then obtain info where info: "parse_packet from_ethernet pkt = Some info"
    using v4 by (auto simp: parse_packet_def s net_slice_def Let_def)
  note fields = summary_fields [OF assms(1) info]
  show ?thesis
    using that [OF info] fields v4 unfragmented ports by (simp add: is_ipv4_def)
qed

lemma matches_summary:
  assumes "slices_ethernet from_ethernet" "parse_packet from_ethernet pkt = Some info" "is_ipv4 pkt \<or> is_ipv6 pkt"
    "\<not> fragmented pkt" "summarised ast"
  shows "matches ast pkt \<longleftrightarrow> info_matches ast info"
proof -
  note fields = summary_fields [OF assms(1-3)]
  have not_both: "\<not> (is_ipv4 pkt \<and> is_ipv6 pkt)" by (simp add: is_ipv4_def is_ipv6_def bpf_defs)
  have ports: "info_has_ports info \<longleftrightarrow> has_ports pkt" by (simp add: info_has_ports_def has_ports_def fields(2))
  have protos: "proto_matches p pkt \<longleftrightarrow> info_proto p info" for p
    using not_both by (cases p) (auto simp: fields(1,2) is_ipv4_def is_ipv6_def ip_protocol_def)
  have hosts: "host_matches a dir pkt \<longleftrightarrow> info_matches (Host a dir) info" for a dir
    using not_both assms(3) by (cases a) (auto simp: fields(3,4) on_dir_def split: Direction.splits)
  have nets: "net_matches a dir pkt \<longleftrightarrow> info_matches (Net a dir) info" for a dir
    using not_both assms(3) by (cases a) (auto simp: fields(3,4) on_dir_def split: Direction.splits)
  show ?thesis
    using assms(5)
  proof (induction ast)
    case (Port p dir)
    then show ?case using assms(4) by (cases "has_ports pkt") (simp_all add: ports fields(5,6))
  next
    case (PortRange lo hi dir)
    then show ?case using assms(4) by (cases "has_ports pkt") (simp_all add: ports fields(5,6))
  qed (simp_all add: protos hosts nets del: info_matches.simps(5,6))
qed

text \<open>
  C7. The compiled filter and the summary of a packet agree: for an untagged IP packet that is not a
  fragment, the machine accepts it exactly when what \<open>parse_packet\<close> reports of it satisfies the filter,
  for every filter over protocols, addresses, networks and ports.
\<close>

theorem summary_agrees_with_filter:
  assumes "slices_ethernet from_ethernet" "parse_packet from_ethernet pkt = Some info" "is_ipv4 pkt \<or> is_ipv6 pkt"
    "\<not> fragmented pkt" "summarised ast" "compile ast = Inr prog" "vec_len_ok prog"
  shows "Vm_exec prog pkt = Some (info_matches ast info)"
  using compile_vm [OF assms(6,7)] matches_summary [OF assms(1-5)] by simp

theorem summary_agrees_with_filter_witness:
  "\<exists>prog info. compile (And (Proto Udp) (Not' (Port 53 Dst))) = Inr prog \<and>
     parse_packet field_slicer (replicate 12 0 @ [8, 0, 0x45] @ replicate 8 0 @ [17] @ replicate 12 0 @ [0, 9, 0, 53]) = Some info \<and>
     Vm_exec prog (replicate 12 0 @ [8, 0, 0x45] @ replicate 8 0 @ [17] @ replicate 12 0 @ [0, 9, 0, 53]) =
       Some (info_matches (And (Proto Udp) (Not' (Port 53 Dst))) info)"
proof -
  let ?pkt = "replicate 12 0 @ [8, 0, 0x45] @ replicate 8 0 @ [17] @ replicate 12 0 @ [0, 9, 0, 53] :: packet_bytes"
  have few: "predicates (And (Proto Udp) (Not' (Port 53 Dst))) \<le> 9" by simp
  have v4: "is_ipv4 ?pkt" "\<not> fragmented ?pkt"
    by (simp_all add: fragmented_def is_ipv4_def ethertype_def read_u16_def u16_from_be_bytes_def nth_append bpf_defs)
  then obtain info where info: "parse_packet field_slicer ?pkt = Some info"
    by (simp add: parse_packet_def field_slicer_def net_slice_def Let_def)
  show ?thesis
    using info compile_few [OF few] v4
      summary_agrees_with_filter [OF field_slicer_slices info _ _ _ compile_few [OF few]] by auto
qed

text \<open>
  C34. On a fragment of a TCP or UDP datagram the two disagree: the summary has no ports, and the port
  filters take the bytes behind the IP header for ports, whatever they are.
\<close>

theorem ports_of_fragment:
  assumes "slices_ethernet from_ethernet" "parse_packet from_ethernet pkt = Some info" "fragmented pkt" "has_ports pkt"
  shows "info_src_port info = None \<and> info_dst_port info = None \<and>
    run_filter (Port p dir) pkt = Some (on_dir dir (src_port_of pkt = p) (dst_port_of pkt = p)) \<and>
    run_filter (PortRange lo hi dir) pkt = Some (range_matches lo hi dir (src_port_of pkt) (dst_port_of pkt))"
  using summary_fields(5,6) [OF assms(1,2)] assms(3,4) by (auto simp: fragmented_def run_filter_few)

theorem ports_of_fragment_witness:
  "\<exists>info. parse_packet field_slicer (replicate 12 0 @ [8, 0, 0x45] @ replicate 5 0 @ [0, 185, 64, 17] @ replicate 10 0 @ [0, 53, 0, 9]) =
       Some info \<and> info_src_port info = None \<and>
     run_filter (Port 53 Any) (replicate 12 0 @ [8, 0, 0x45] @ replicate 5 0 @ [0, 185, 64, 17] @ replicate 10 0 @ [0, 53, 0, 9]) =
       Some True"
proof -
  let ?pkt = "replicate 12 0 @ [8, 0, 0x45] @ replicate 5 0 @ [0, 185, 64, 17] @ replicate 10 0 @ [0, 53, 0, 9] :: packet_bytes"
  have v4: "is_ipv4 ?pkt" and fragment: "fragmented ?pkt" and ports: "has_ports ?pkt"
    and port: "src_port_of ?pkt = 53"
    by (simp_all add: fragmented_def packet_fields nth_append)
  then obtain info where info: "parse_packet field_slicer ?pkt = Some info"
    by (auto simp: parse_packet_def field_slicer_def net_slice_def transport_slice_def Let_def)
  then show ?thesis
    using ports_of_fragment [OF field_slicer_slices info fragment ports, of 53 Any] port by (simp add: on_dir_def)
qed

end
