(* ===== verification/Core_Tests.thy ===== *)
theory Core_Tests
  imports Packet_Slices
begin

text \<open>
  The unit tests of \<open>parse_packet\<close> on the model: the module \<open>tests\<close> of \<^verbatim>\<open>crates/netdump-core/src/lib.rs\<close>,
  with the helper that builds its packets. They hold for any slicer that does what etherparse documents.
  The checksum of the packets is computed as in the tests of the virtual machine.
\<close>

section \<open>The tests\<close>

definition build_core_packet :: "u8 \<Rightarrow> nat \<Rightarrow> packet_bytes" where
  "build_core_packet proto payload_len =
     (let pkt = replicate (14 + 20 + payload_len) 0;
          pkt = pkt[12 := 0x08, 13 := 0x00];
          ip_start = 14;
          pkt = pkt[ip_start := 0x45];
          total_len = of_nat (20 + payload_len);
          pkt = copy_at (ip_start + 2) (u16_to_be_bytes total_len) pkt;
          pkt = pkt[ip_start + 9 := proto];
          pkt = pkt[ip_start + 12 := 192, ip_start + 13 := 168, ip_start + 14 := 1, ip_start + 15 := 1];
          pkt = pkt[ip_start + 16 := 10, ip_start + 17 := 0, ip_start + 18 := 0, ip_start + 19 := 2];
          checksum = calc_ipv4_checksum (take 20 (drop ip_start pkt))
      in copy_at (ip_start + 10) (u16_to_be_bytes checksum) pkt)"

definition test_parse_ip_tcp_packet :: "(packet_bytes \<Rightarrow> SlicedPacket option) \<Rightarrow> bool" where
  "test_parse_ip_tcp_packet from_ethernet \<longleftrightarrow>
     (let pkt = (build_core_packet IPPROTO_TCP 20)[14 + 20 + 12 := 0x50]
      in case parse_packet from_ethernet pkt of
           None \<Rightarrow> False
         | Some info \<Rightarrow>
             info_ethertype info = Some ETHERTYPE_IP \<and>
             info_protocol info = Some IPPROTO_TCP \<and>
             info_src_ip info = Some (IpV4 (Ipv4Addr_new 192 168 1 1)) \<and>
             info_dst_ip info = Some (IpV4 (Ipv4Addr_new 10 0 0 2)))"

definition test_parse_udp_ports :: "(packet_bytes \<Rightarrow> SlicedPacket option) \<Rightarrow> bool" where
  "test_parse_udp_ports from_ethernet \<longleftrightarrow>
     (let transport = 14 + 20;
          pkt = (build_core_packet IPPROTO_UDP 8)
                  [transport := 0x00, transport + 1 := 0x50, transport + 2 := 0x1f, transport + 3 := 0x90]
      in case parse_packet from_ethernet pkt of
           None \<Rightarrow> False
         | Some info \<Rightarrow>
             info_protocol info = Some IPPROTO_UDP \<and>
             info_src_port info = Some 80 \<and>
             info_dst_port info = Some 8080)"

definition test_short_packet_returns_none :: "(packet_bytes \<Rightarrow> SlicedPacket option) \<Rightarrow> bool" where
  "test_short_packet_returns_none from_ethernet \<longleftrightarrow> parse_packet from_ethernet (replicate 10 0) = None"

definition core_tests :: "(packet_bytes \<Rightarrow> SlicedPacket option) \<Rightarrow> bool" where
  "core_tests from_ethernet \<longleftrightarrow>
     test_parse_ip_tcp_packet from_ethernet \<and> test_parse_udp_ports from_ethernet \<and>
     test_short_packet_returns_none from_ethernet"

section \<open>They hold\<close>

lemma checksums:
  "calc_ipv4_checksum [0x45, 0, 0, 40, 0, 0, 0, 0, 0, 6, 0, 0, 192, 168, 1, 1, 10, 0, 0, 2] = 0xEF25"
  "calc_ipv4_checksum [0x45, 0, 0, 28, 0, 0, 0, 0, 0, 17, 0, 0, 192, 168, 1, 1, 10, 0, 0, 2] = 0xEF26"
  "calc_ipv4_checksum [0x45, 0, 0, 40, 0, 0, 0, 0, 0, 6, 0xEF, 0x25, 192, 168, 1, 1, 10, 0, 0, 2] = 0"
  "calc_ipv4_checksum [0x45, 0, 0, 28, 0, 0, 0, 0, 0, 17, 0xEF, 0x26, 192, 168, 1, 1, 10, 0, 0, 2] = 0"
  by (simp_all add: calc_ipv4_checksum_def u16_from_be_bytes_def fold_carry.simps)

lemma core_packets:
  "build_core_packet IPPROTO_TCP 20 =
     [0, 0, 0, 0, 0, 0, 0, 0, 0, 0, 0, 0, 8, 0, 0x45, 0, 0, 40, 0, 0, 0, 0, 0, 6, 0xEF, 0x25,
      192, 168, 1, 1, 10, 0, 0, 2] @ replicate 20 0"
  "build_core_packet IPPROTO_UDP 8 =
     [0, 0, 0, 0, 0, 0, 0, 0, 0, 0, 0, 0, 8, 0, 0x45, 0, 0, 28, 0, 0, 0, 0, 0, 17, 0xEF, 0x26,
      192, 168, 1, 1, 10, 0, 0, 2] @ replicate 8 0"
  using zeros_34 [of 20 "0 :: u8"] zeros_34 [of 8 "0 :: u8"]
  by (simp_all add: build_core_packet_def copy_at_def u16_to_be_bytes_def Let_def checksums bpf_defs)

lemma core_packets_whole:
  "whole_segment ((build_core_packet IPPROTO_TCP 20)[14 + 20 + 12 := 0x50])"
  "whole_segment ((build_core_packet IPPROTO_UDP 8)[34 := 0, 35 := 0x50, 36 := 0x1f, 37 := 0x90])"
  unfolding core_packets
  by (simp_all add: whole_segment_def fragmented_def packet_fields checksums Let_def)

lemma core_packet_fields:
  "read_ipv4 ((build_core_packet IPPROTO_TCP 20)[14 + 20 + 12 := 0x50]) 26 = Ipv4Addr_new 192 168 1 1"
  "read_ipv4 ((build_core_packet IPPROTO_TCP 20)[14 + 20 + 12 := 0x50]) 30 = Ipv4Addr_new 10 0 0 2"
  "ip_protocol ((build_core_packet IPPROTO_TCP 20)[14 + 20 + 12 := 0x50]) = Some IPPROTO_TCP"
  "ip_protocol ((build_core_packet IPPROTO_UDP 8)[34 := 0, 35 := 0x50, 36 := 0x1f, 37 := 0x90]) = Some IPPROTO_UDP"
  "src_port_of ((build_core_packet IPPROTO_UDP 8)[34 := 0, 35 := 0x50, 36 := 0x1f, 37 := 0x90]) = 80"
  "dst_port_of ((build_core_packet IPPROTO_UDP 8)[34 := 0, 35 := 0x50, 36 := 0x1f, 37 := 0x90]) = 8080"
  unfolding core_packets by (simp_all add: packet_fields Ipv4Addr_new_def)

lemma core_tests_hold:
  assumes "slices_ethernet from_ethernet"
  shows "core_tests from_ethernet"
proof -
  have "test_parse_ip_tcp_packet from_ethernet"
    by (rule whole_summary [OF assms core_packets_whole(1)])
      (simp add: test_parse_ip_tcp_packet_def core_packet_fields [simplified])
  moreover have "test_parse_udp_ports from_ethernet"
    by (rule whole_summary [OF assms core_packets_whole(2)])
      (simp add: test_parse_udp_ports_def core_packet_fields [simplified])
  moreover have "test_short_packet_returns_none from_ethernet"
    using slices_ethernetD(1) [OF assms, of "replicate 10 0"]
    by (simp add: test_short_packet_returns_none_def parse_packet_def)
  ultimately show ?thesis by (simp add: core_tests_def)
qed

end
