(* ===== verification/Cli_Format.thy ===== *)
theory Cli_Format
  imports Std_Text
begin

text \<open>
  The pure formatting functions of \<^verbatim>\<open>crates/netdump-cli/src/main.rs\<close>: hex and ASCII dumps, names,
  addresses, TCP flags and the civil date of a day number. A \<open>String\<close> is a list of characters, a
  \<open>usize\<close> a natural number.
\<close>

section \<open>Padding and chunks\<close>

text \<open>\<open>{:0w}\<close> of a signed integer counts the sign and puts the zeros behind it.\<close>

definition show_int_pad :: "nat \<Rightarrow> int \<Rightarrow> string" where
  "show_int_pad w z =
     (if z < 0 then CHR ''-'' # pad_left (w - 1) (CHR ''0'') (show_dec (nat (- z)))
      else pad_left w (CHR ''0'') (show_dec (nat z)))"

definition hex_pad :: "nat \<Rightarrow> nat \<Rightarrow> string" where
  "hex_pad w n = pad_left w (CHR ''0'') (show_radix 16 n)"

text \<open>\<open>slice::chunks\<close>, which panics for size 0; every caller passes at least 16.\<close>

function chunks :: "nat \<Rightarrow> 'a list \<Rightarrow> 'a list list" where
  "chunks n xs = (if n = 0 \<or> xs = [] then [] else take n xs # chunks n (drop n xs))"
  by pat_completeness auto
termination by (relation "measure (\<lambda>(n, xs). length xs)") auto

declare chunks.simps [simp del]

lemma chunks_Nil [simp]: "chunks n [] = []"
  by (simp add: chunks.simps)

lemma chunks_Cons: "0 < n \<Longrightarrow> xs \<noteq> [] \<Longrightarrow> chunks n xs = take n xs # chunks n (drop n xs)"
  by (simp add: chunks.simps)

lemma concat_chunks: "0 < n \<Longrightarrow> concat (chunks n xs) = xs"
  by (induction n xs rule: chunks.induct) (subst chunks.simps, auto)

lemma chunk_sizes: "c \<in> set (chunks n xs) \<Longrightarrow> 0 < length c \<and> length c \<le> n"
proof (induction n xs rule: chunks.induct)
  case (1 n xs)
  show ?case
  proof (cases "n = 0 \<or> xs = []")
    case True
    then show ?thesis using "1.prems" by (auto simp: chunks.simps [of 0])
  next
    case False
    then show ?thesis using 1 by (auto simp: chunks_Cons [of n xs])
  qed
qed

section \<open>ASCII and hex dumps\<close>

definition is_ascii_graphic :: "u8 \<Rightarrow> bool" where
  "is_ascii_graphic b \<longleftrightarrow> 33 \<le> b \<and> b \<le> 126"

definition ascii_char :: "u8 \<Rightarrow> char" where
  "ascii_char b = (if is_ascii_graphic b \<or> b = 0x20 then char_of (unat b) else CHR ''.'')"

definition newline :: char where
  "newline = CHR 0x0A"

definition format_ascii :: "packet_bytes \<Rightarrow> nat \<Rightarrow> string" where
  "format_ascii payload bpl = join_char newline (map (map ascii_char) (chunks bpl payload))"

text \<open>The separator pushed after byte \<open>j\<close> of a chunk: two spaces in the middle of the line.\<close>

definition byte_separator :: "nat \<Rightarrow> nat \<Rightarrow> string" where
  "byte_separator bpl j = (if j = bpl div 2 - 1 then ''  '' else if j < bpl - 1 then '' '' else '''')"

definition hex_bytes :: "nat \<Rightarrow> packet_bytes \<Rightarrow> string" where
  "hex_bytes bpl chunk =
     concat (map (\<lambda>(j, b). hex2 b @ byte_separator bpl j) (enumerate 0 chunk))"

definition spaces :: "nat \<Rightarrow> string" where
  "spaces n = replicate n (CHR '' '')"

text \<open>The filling of a chunk that is shorter than the line.\<close>

definition hex_filling :: "nat \<Rightarrow> nat \<Rightarrow> string" where
  "hex_filling bpl len =
     (if len < bpl then
        (let half = bpl div 2;
             missing_first = (if len > half then 0 else half - len);
             missing_second = bpl - len - missing_first in
         spaces (3 * missing_first) @ (if len > half then ''  '' else '''') @ spaces (3 * missing_second))
      else '''')"

definition hex_line_head :: "nat \<Rightarrow> string" where
  "hex_line_head offset = ''    '' @ hex_pad 4 offset @ '': ''"

definition format_hex :: "packet_bytes \<Rightarrow> nat \<Rightarrow> string" where
  "format_hex data bpl =
     concat (map (\<lambda>(i, chunk).
         hex_line_head (i * bpl) @ hex_bytes bpl chunk @ hex_filling bpl (length chunk) @ [newline])
       (enumerate 0 (chunks bpl data)))"

definition format_hex_ascii :: "packet_bytes \<Rightarrow> nat \<Rightarrow> string" where
  "format_hex_ascii data bpl =
     concat (map (\<lambda>(i, chunk).
         hex_line_head (i * bpl) @ hex_bytes bpl chunk @ hex_filling bpl (length chunk) @
         ''  '' @ map ascii_char chunk @ [newline])
       (enumerate 0 (chunks bpl data)))"

text \<open>
  \<open>(w as f64 * 0.85) as usize\<close> is \<open>17 * w div 20\<close> for every width a terminal reports (16 bits): when
  \<open>0.85 * w\<close> is an integer the product rounds to it, and otherwise it is at least a twentieth away
  from the next one.
\<close>

definition scale_085 :: "nat \<Rightarrow> nat" where
  "scale_085 w = 17 * w div 20"

definition hex_bytes_per_line :: "nat \<Rightarrow> nat" where
  "hex_bytes_per_line term_width =
     (let target = scale_085 term_width;
          max_n = (if target > 12 then (target - 12) div 3 else 16);
          n = max_n div 16 * 16 in
      min (max n 16) 64)"

section \<open>Names and addresses\<close>

text \<open>\<open>format_mac\<close> indexes the first six bytes; every caller passes a slice of six.\<close>

definition format_mac :: "packet_bytes \<Rightarrow> string" where
  "format_mac mac =
     hex2 (mac ! 0) @ '':'' @ hex2 (mac ! 1) @ '':'' @ hex2 (mac ! 2) @ '':'' @
     hex2 (mac ! 3) @ '':'' @ hex2 (mac ! 4) @ '':'' @ hex2 (mac ! 5)"

definition port_name :: "u16 \<Rightarrow> string" where
  "port_name port =
     (if port = 20 then ''ftp-data''
      else if port = 21 then ''ftp''
      else if port = 22 then ''ssh''
      else if port = 23 then ''telnet''
      else if port = 25 then ''smtp''
      else if port = 53 then ''domain''
      else if port = 80 then ''http''
      else if port = 110 then ''pop3''
      else if port = 143 then ''imap''
      else if port = 443 then ''https''
      else if port = 993 then ''imaps''
      else if port = 995 then ''pop3s''
      else if port = 8080 then ''http-alt''
      else show_dec (unat port))"

definition protocol_name :: "u8 \<Rightarrow> string" where
  "protocol_name proto =
     (if proto = 1 then ''icmp''
      else if proto = 6 then ''tcp''
      else if proto = 17 then ''udp''
      else if proto = 58 then ''icmp6''
      else show_dec (unat proto))"

definition format_addr :: "IpAddr option \<Rightarrow> u16 option \<Rightarrow> bool \<Rightarrow> string" where
  "format_addr ip port numeric =
     (case (ip, port) of
        (Some a, Some p) \<Rightarrow>
          if numeric then show_ip a @ '':'' @ show_dec (unat p) else show_ip a @ ''.'' @ port_name p
      | (Some a, None) \<Rightarrow> show_ip a
      | (None, _) \<Rightarrow> ''?'')"

definition format_tcp_flags :: "u8 \<Rightarrow> string" where
  "format_tcp_flags flags =
     (let s = (if flags AND 0x01 \<noteq> 0 then ''F'' else '''') @
              (if flags AND 0x02 \<noteq> 0 then ''S'' else '''') @
              (if flags AND 0x04 \<noteq> 0 then ''R'' else '''') @
              (if flags AND 0x08 \<noteq> 0 then ''P'' else '''') @
              (if flags AND 0x10 \<noteq> 0 then ''.'' else '''') @
              (if flags AND 0x20 \<noteq> 0 then ''U'' else '''') in
      if s = '''' then ''-'' else s)"

section \<open>Dates\<close>

definition is_leap :: "int \<Rightarrow> bool" where
  "is_leap year \<longleftrightarrow> (year mod 4 = 0 \<and> year mod 100 \<noteq> 0) \<or> year mod 400 = 0"

definition days_in_year :: "int \<Rightarrow> int" where
  "days_in_year y = (if is_leap y then 366 else 365)"

function find_year :: "int \<Rightarrow> int \<Rightarrow> int \<times> int" where
  "find_year y d = (if d < days_in_year y then (y, d) else find_year (y + 1) (d - days_in_year y))"
  by pat_completeness auto
termination by (relation "measure (\<lambda>(y, d). nat d)") (auto simp: days_in_year_def split: if_splits)

declare find_year.simps [simp del]

definition month_days :: "int \<Rightarrow> int list" where
  "month_days y =
     (if is_leap y then [31, 29, 31, 30, 31, 30, 31, 31, 30, 31, 30, 31]
      else [31, 28, 31, 30, 31, 30, 31, 31, 30, 31, 30, 31])"

fun find_month :: "int list \<Rightarrow> u32 \<Rightarrow> int \<Rightarrow> u32 \<times> int" where
  "find_month [] m d = (m, d)"
| "find_month (md # mds) m d = (if d < md then (m, d) else find_month mds (m + 1) (d - md))"

definition epoch_days_to_date :: "int \<Rightarrow> int \<times> u32 \<times> u32" where
  "epoch_days_to_date days =
     (let (y, d) = find_year 1970 days; (m, d') = find_month (month_days y) 0 d in
      (y, m + 1, of_int (d' + 1)))"

section \<open>Widths of the dumps\<close>

lemma length_hex2 [simp]: "length (hex2 b) = 2"
proof -
  have "length (digits_of 16 (unat b)) \<le> 2" using u8_bounds [of b] by (intro length_digits_of) auto
  then show ?thesis by (simp add: hex2_def pad_left_def show_radix_digits)
qed

lemma hex_bytes_snoc:
  "hex_bytes bpl (bs @ [b]) = hex_bytes bpl bs @ hex2 b @ byte_separator bpl (length bs)"
  by (simp add: hex_bytes_def enumerate_append_eq)

lemma hex_bytes_Nil [simp]: "hex_bytes bpl [] = []"
  by (simp add: hex_bytes_def)

lemma length_hex_bytes:
  "4 \<le> bpl \<Longrightarrow> length bs \<le> bpl \<Longrightarrow>
   length (hex_bytes bpl bs) + (if length bs = bpl then 1 else 0)
     = 3 * length bs + (if length bs \<ge> bpl div 2 then 1 else 0)"
proof (induction bs rule: rev_induct)
  case (snoc b bs)
  then show ?case by (auto simp: hex_bytes_snoc byte_separator_def split: if_splits)
qed auto

lemma length_hex_filling:
  "even bpl \<Longrightarrow> len \<le> bpl \<Longrightarrow>
   length (hex_filling bpl len) =
     (if len = bpl then 0 else if len > bpl div 2 then 2 + 3 * (bpl - len) else 3 * (bpl - len))"
  by (auto simp: hex_filling_def spaces_def Let_def)

text \<open>Where the hexadecimal part of a line ends, as an offset from the end of the line's head.\<close>

lemma length_hex_part:
  assumes "4 \<le> bpl" "even bpl" "length bs \<le> bpl"
  shows "length (hex_bytes bpl bs @ hex_filling bpl (length bs)) =
    3 * bpl + (if length bs = bpl \<or> length bs < bpl div 2 then 0
               else if length bs = bpl div 2 then 1 else 3)"
  using length_hex_bytes [OF assms(1,3)] length_hex_filling [OF assms(2,3)] assms
  by (auto split: if_splits)

section \<open>Reading a dump back\<close>

fun bytes_of_hex :: "string \<Rightarrow> packet_bytes" where
  "bytes_of_hex (a # b # s) =
     (case (to_digit 16 a, to_digit 16 b) of
        (Some h, Some l) \<Rightarrow> of_nat (16 * h + l) # bytes_of_hex s
      | _ \<Rightarrow> [])"
| "bytes_of_hex _ = []"

definition undump_line :: "string \<Rightarrow> packet_bytes" where
  "undump_line l = bytes_of_hex (filter (\<lambda>c. c \<noteq> CHR '' '') (tl (dropWhile (\<lambda>c. c \<noteq> CHR '':'') l)))"

definition undump :: "string \<Rightarrow> packet_bytes" where
  "undump s = concat (map undump_line (split_char newline s))"

lemma digit_char_zero: "digit_char 0 = CHR ''0''"
  by code_simp

lemma hex2_digits: "\<exists>h l. hex2 b = [digit_char h, digit_char l] \<and> h < 16 \<and> l < 16 \<and> unat b = 16 * h + l"
proof (cases "unat b < 16")
  case True
  then have "hex2 b = [digit_char 0, digit_char (unat b)]"
    by (simp add: hex2_def pad_left_def show_radix.simps digit_char_zero)
  with True show ?thesis by (intro exI [of _ 0] exI [of _ "unat b"]) auto
next
  case False
  have d: "unat b div 16 < 16" using u8_bounds [of b] by (simp add: less_mult_imp_div_less)
  then have "show_radix 16 (unat b) = [digit_char (unat b div 16), digit_char (unat b mod 16)]"
    using False by (subst show_radix.simps) (simp add: show_radix.simps)
  with d show ?thesis
    by (intro exI [of _ "unat b div 16"] exI [of _ "unat b mod 16"]) (simp add: hex2_def pad_left_def)
qed

lemma digit_char_not:
  "d < 16 \<Longrightarrow> digit_char d \<noteq> CHR '' '' \<and> digit_char d \<noteq> CHR '':'' \<and> digit_char d \<noteq> newline"
proof -
  assume "d < 16"
  then have "to_digit 16 (digit_char d) = Some d" by simp
  moreover have "to_digit 16 (CHR '' '') = None" "to_digit 16 (CHR '':'') = None" "to_digit 16 newline = None"
    by (simp_all add: to_digit_def Let_def newline_def)
  ultimately show ?thesis by auto
qed

lemma hex2_chars_not:
  "CHR '' '' \<notin> set (hex2 b)" "CHR '':'' \<notin> set (hex2 b)" "newline \<notin> set (hex2 b)"
  using hex2_digits [of b] digit_char_not by fastforce+

lemma bytes_of_hex2: "bytes_of_hex (hex2 b @ s) = b # bytes_of_hex s"
proof -
  obtain h l where "hex2 b = [digit_char h, digit_char l]" "h < 16" "l < 16" "unat b = 16 * h + l"
    using hex2_digits by blast
  moreover have "of_nat (unat b) = b" by simp
  ultimately show ?thesis by simp
qed

lemma filter_no_spaces: "CHR '' '' \<notin> set s \<Longrightarrow> filter (\<lambda>c. c \<noteq> CHR '' '') s = s"
  by (induction s) auto

lemma filter_hex_bytes:
  "filter (\<lambda>c. c \<noteq> CHR '' '') (hex_bytes bpl bs) = concat (map hex2 bs)"
  by (induction bs rule: rev_induct)
    (auto simp: hex_bytes_snoc filter_no_spaces hex2_chars_not byte_separator_def)

lemma filter_hex_filling: "filter (\<lambda>c. c \<noteq> CHR '' '') (hex_filling bpl n) = []"
  by (auto simp: hex_filling_def spaces_def Let_def)

lemma bytes_of_hex_bytes: "bytes_of_hex (concat (map hex2 bs)) = bs"
  by (induction bs) (simp_all add: bytes_of_hex2)

lemma hex_pad_chars: "c \<in> set (hex_pad w n) \<Longrightarrow> to_digit 16 c \<noteq> None"
  using show_radix_chars [of 16 c n]
  by (auto simp: hex_pad_def pad_left_def to_digit_def Let_def set_replicate_conv_if split: if_splits)

lemma hex_pad_not: "CHR '':'' \<notin> set (hex_pad w n)" "newline \<notin> set (hex_pad w n)"
proof -
  have "to_digit 16 newline = None" "to_digit 16 (CHR '':'') = None"
    by (simp_all add: to_digit_def Let_def newline_def)
  then show "CHR '':'' \<notin> set (hex_pad w n)" "newline \<notin> set (hex_pad w n)"
    using hex_pad_chars by blast+
qed

lemma dropWhile_head: "dropWhile (\<lambda>c. c \<noteq> CHR '':'') (hex_line_head n @ s) = '': '' @ s"
proof -
  have "dropWhile (\<lambda>c. c \<noteq> CHR '':'') (t @ CHR '':'' # u) = CHR '':'' # u" if "CHR '':'' \<notin> set t" for t u
    using that by (induction t) auto
  from this [of "''    '' @ hex_pad 4 n" "CHR '' '' # s"] show ?thesis
    using hex_pad_not by (auto simp: hex_line_head_def)
qed

lemma undump_hex_line:
  "undump_line (hex_line_head n @ hex_bytes bpl bs @ hex_filling bpl (length bs)) = bs"
  by (simp add: undump_line_def dropWhile_head filter_hex_bytes filter_hex_filling bytes_of_hex_bytes)

lemma hex_line_no_newline:
  "newline \<notin> set (hex_line_head n @ hex_bytes bpl bs @ hex_filling bpl k)"
proof -
  have "newline \<notin> set (hex_bytes bpl bs)"
    by (induction bs rule: rev_induct)
      (auto simp: hex_bytes_snoc hex2_chars_not [unfolded newline_def] byte_separator_def newline_def)
  moreover have "newline \<notin> set (hex_filling bpl k)"
    by (auto simp: hex_filling_def spaces_def Let_def newline_def)
  ultimately show ?thesis
    using hex_pad_not(2) by (auto simp: hex_line_head_def newline_def)
qed

lemma undump_format_hex_from:
  "undump (concat (map (\<lambda>(i, c). hex_line_head (i * bpl) @ hex_bytes bpl c @
      hex_filling bpl (length c) @ [newline]) (enumerate n cs))) = concat cs"
proof (induction cs arbitrary: n)
  case Nil
  then show ?case by (simp add: undump_def undump_line_def)
next
  case (Cons c cs)
  have "undump (l @ newline # s) = undump_line l @ undump s" if "newline \<notin> set l" for l s
    using that by (simp add: undump_def split_char_append)
  from this [OF hex_line_no_newline] Cons.IH [of "Suc n"] undump_hex_line show ?case by simp
qed

section \<open>Properties of the dumps and names\<close>

lemma undump_format_hex: "0 < bpl \<Longrightarrow> undump (format_hex data bpl) = data"
  using undump_format_hex_from [of bpl 0 "chunks bpl data"]
  by (simp add: format_hex_def concat_chunks)



text \<open>
  The hexadecimal part of a line of a dump has one width for every full line and every short line
  of less than half the bytes, but a short last line of exactly half the bytes is one column wider
  and one of more than half is three columns wider: the ASCII column that follows is shifted.
\<close>

theorem hex_part_width:
  assumes "4 \<le> bpl" "even bpl" "chunk \<in> set (chunks bpl data)"
  shows "length (hex_bytes bpl chunk @ hex_filling bpl (length chunk)) =
    3 * bpl + (if length chunk = bpl \<or> length chunk < bpl div 2 then 0
               else if length chunk = bpl div 2 then 1 else 3)"
  using length_hex_part [OF assms(1,2)] chunk_sizes [OF assms(3)] by blast

theorem hex_part_width_witness:
  "length (hex_bytes 16 (replicate 9 0) @ hex_filling 16 9) = 51"
proof -
  have "replicate 9 (0 :: u8) \<in> set (chunks 16 (replicate 9 0))"
    by (simp add: chunks_Cons)
  from hex_part_width [OF _ _ this] show ?thesis by simp
qed

lemma rounded_down:
  fixes m :: nat
  defines "n \<equiv> min (max (m div 16 * 16) 16) 64"
  shows "n = 16 \<or> n = 32 \<and> 32 \<le> m \<or> n = 48 \<and> 48 \<le> m \<or> n = 64 \<and> 64 \<le> m"
proof -
  have "m div 16 * 16 \<le> m" by simp
  moreover have "m div 16 = 0 \<or> m div 16 = 1 \<or> m div 16 = 2 \<or> m div 16 = 3 \<or> 4 \<le> m div 16" by linarith
  ultimately show ?thesis unfolding n_def by auto
qed

lemma scale_bounds:
  "32 \<le> (17 * w div 20 - 12) div 3 \<Longrightarrow> 106 \<le> w" "48 \<le> (17 * w div 20 - 12) div 3 \<Longrightarrow> 154 \<le> w"
  "64 \<le> (17 * w div 20 - 12) div 3 \<Longrightarrow> 202 \<le> (w :: nat)"
proof -
  have widen: "n * 60 + 240 \<le> 17 * w" if "n \<le> (17 * w div 20 - 12) div 3" "0 < n" for n
  proof -
    have "n * 3 \<le> 17 * w div 20 - 12" using that by (simp add: less_eq_div_iff_mult_less_eq)
    then have "n * 3 + 12 \<le> 17 * w div 20" using that(2) by linarith
    then have "(n * 3 + 12) * 20 \<le> 17 * w" by (simp only: less_eq_div_iff_mult_less_eq)
    then show ?thesis by simp
  qed
  show "32 \<le> (17 * w div 20 - 12) div 3 \<Longrightarrow> 106 \<le> w" using widen [of 32] by simp
  show "48 \<le> (17 * w div 20 - 12) div 3 \<Longrightarrow> 154 \<le> w" using widen [of 48] by simp
  show "64 \<le> (17 * w div 20 - 12) div 3 \<Longrightarrow> 202 \<le> w" using widen [of 64] by simp
qed

text \<open>
  The line width is 16, 32, 48 or 64 bytes, and from 58 columns on a full line of the dump, with
  an offset of four digits, fits in the terminal.
\<close>

lemma hex_bytes_per_line_fits:
  "hex_bytes_per_line w \<in> {16, 32, 48, 64} \<and>
   (\<forall>bs. 58 \<le> w \<and> length bs = hex_bytes_per_line w \<longrightarrow>
      10 + length (hex_bytes (hex_bytes_per_line w) bs) \<le> w)"
proof -
  let ?t = "17 * w div 20"
  let ?m = "if ?t > 12 then (?t - 12) div 3 else 16"
  let ?n = "hex_bytes_per_line w"
  have n: "?n = min (max (?m div 16 * 16) 16) 64"
    by (simp add: hex_bytes_per_line_def scale_085_def Let_def)
  have cases: "?n = 16 \<or> ?n = 32 \<and> 32 \<le> ?m \<or> ?n = 48 \<and> 48 \<le> ?m \<or> ?n = 64 \<and> 64 \<le> ?m"
    unfolding n by (rule rounded_down)
  then have "58 \<le> w \<longrightarrow> 10 + 3 * ?n \<le> w"
  proof (elim disjE)
    assume "?n = 32 \<and> 32 \<le> ?m"
    then show ?thesis using scale_bounds(1) [of w] by (simp split: if_splits)
  next
    assume "?n = 48 \<and> 48 \<le> ?m"
    then show ?thesis using scale_bounds(2) [of w] by (simp split: if_splits)
  next
    assume "?n = 64 \<and> 64 \<le> ?m"
    then show ?thesis using scale_bounds(3) [of w] by (simp split: if_splits)
  qed simp
  moreover have "length bs = ?n \<Longrightarrow> length (hex_bytes ?n bs) = 3 * ?n" for bs
    using length_hex_bytes [of ?n bs] cases by auto
  ultimately show ?thesis using cases by auto
qed

lemma bit_test: "(f AND 2 ^ k \<noteq> (0 :: u8)) \<longleftrightarrow> bit f k"
  by (simp add: bit_iff_and_push_bit_not_eq_0 push_bit_eq_mult)

lemma bit_tests:
  fixes h :: u8
  shows "(h AND 0x01 \<noteq> 0) = bit h 0" "(h AND 0x02 \<noteq> 0) = bit h 1" "(h AND 0x04 \<noteq> 0) = bit h 2"
    "(h AND 0x08 \<noteq> 0) = bit h 3" "(h AND 0x10 \<noteq> 0) = bit h 4" "(h AND 0x20 \<noteq> 0) = bit h 5"
proof -
  have p: "(2 :: u8) ^ 0 = 0x01" "(2 :: u8) ^ 1 = 0x02" "(2 :: u8) ^ 2 = 0x04" "(2 :: u8) ^ 3 = 0x08"
    "(2 :: u8) ^ 4 = 0x10" "(2 :: u8) ^ 5 = 0x20" by simp_all
  show "(h AND 0x01 \<noteq> 0) = bit h 0" "(h AND 0x02 \<noteq> 0) = bit h 1" "(h AND 0x04 \<noteq> 0) = bit h 2"
    "(h AND 0x08 \<noteq> 0) = bit h 3" "(h AND 0x10 \<noteq> 0) = bit h 4" "(h AND 0x20 \<noteq> 0) = bit h 5"
    using bit_test [of h 0] bit_test [of h 1] bit_test [of h 2] bit_test [of h 3] bit_test [of h 4]
      bit_test [of h 5] unfolding p by blast+
qed

lemma below_six: "(\<forall>k < 6. P k) \<longleftrightarrow> (\<forall>k \<in> {0, 1, 2, 3, 4, 5 :: nat}. P k)"
proof -
  have "k < 6 \<longleftrightarrow> k \<in> {0, 1, 2, 3, 4, 5 :: nat}" for k
    unfolding insert_iff empty_iff by presburger
  then show ?thesis by blast
qed

lemma low_six_bits:
  "f AND 0x3f = g AND (0x3f :: u8) \<longleftrightarrow>
    (\<forall>m \<in> {0x01, 0x02, 0x04, 0x08, 0x10, 0x20}. (f AND m \<noteq> 0) = (g AND m \<noteq> 0))"
proof -
  have m: "(0x3f :: u8) = mask 6" by (simp add: mask_eq_exp_minus_1)
  have "f AND 0x3f = g AND 0x3f \<longleftrightarrow> (\<forall>k < 6. bit f k = bit g k)"
    unfolding m
  proof
    assume e: "f AND mask 6 = g AND mask 6"
    have "bit f k = bit g k" if k: "k < 6" for k
    proof -
      have "bit (f AND mask 6) k = bit (g AND mask 6) k" unfolding e ..
      then show ?thesis using k by (simp add: bit_simps)
    qed
    then show "\<forall>k < 6. bit f k = bit g k" by blast
  next
    assume *: "\<forall>k < 6. bit f k = bit g k"
    show "f AND mask 6 = g AND mask 6" by (rule bit_word_eqI) (use * in \<open>auto simp: bit_simps\<close>)
  qed
  also have "\<dots> \<longleftrightarrow> (\<forall>k \<in> {0, 1, 2, 3, 4, 5}. bit f k = bit g k)"
    unfolding below_six ..
  finally show ?thesis by (simp only: ball_simps bit_tests)
qed

text \<open>The flag string over six booleans, to reason about without words.\<close>

definition flag_string :: "bool \<Rightarrow> bool \<Rightarrow> bool \<Rightarrow> bool \<Rightarrow> bool \<Rightarrow> bool \<Rightarrow> string" where
  "flag_string b0 b1 b2 b3 b4 b5 =
     (let s = (if b0 then ''F'' else '''') @ (if b1 then ''S'' else '''') @
              (if b2 then ''R'' else '''') @ (if b3 then ''P'' else '''') @
              (if b4 then ''.'' else '''') @ (if b5 then ''U'' else '''') in
      if s = '''' then ''-'' else s)"

lemma flag_string_letters:
  "CHR ''F'' \<in> set (flag_string b0 b1 b2 b3 b4 b5) \<longleftrightarrow> b0"
  "CHR ''S'' \<in> set (flag_string b0 b1 b2 b3 b4 b5) \<longleftrightarrow> b1"
  "CHR ''R'' \<in> set (flag_string b0 b1 b2 b3 b4 b5) \<longleftrightarrow> b2"
  "CHR ''P'' \<in> set (flag_string b0 b1 b2 b3 b4 b5) \<longleftrightarrow> b3"
  "CHR ''.'' \<in> set (flag_string b0 b1 b2 b3 b4 b5) \<longleftrightarrow> b4"
  "CHR ''U'' \<in> set (flag_string b0 b1 b2 b3 b4 b5) \<longleftrightarrow> b5"
  unfolding flag_string_def Let_def by simp_all

lemma flag_string_eq:
  "flag_string b0 b1 b2 b3 b4 b5 = flag_string c0 c1 c2 c3 c4 c5 \<longleftrightarrow>
     b0 = c0 \<and> b1 = c1 \<and> b2 = c2 \<and> b3 = c3 \<and> b4 = c4 \<and> b5 = c5" (is "?l = ?r \<longleftrightarrow> _")
proof
  assume e: "?l = ?r"
  show "b0 = c0 \<and> b1 = c1 \<and> b2 = c2 \<and> b3 = c3 \<and> b4 = c4 \<and> b5 = c5"
    using flag_string_letters [of b0 b1 b2 b3 b4 b5] unfolding e flag_string_letters by blast
qed simp

lemma format_tcp_flags_bits:
  "format_tcp_flags f =
     flag_string (f AND 0x01 \<noteq> 0) (f AND 0x02 \<noteq> 0) (f AND 0x04 \<noteq> 0) (f AND 0x08 \<noteq> 0)
       (f AND 0x10 \<noteq> 0) (f AND 0x20 \<noteq> 0)"
  unfolding format_tcp_flags_def flag_string_def ..

text \<open>
  The letters printed for TCP flags identify the six flags: two flag bytes are printed alike
  exactly when they agree in their low six bits.
\<close>

theorem tcp_flags_faithful:
  "format_tcp_flags f = format_tcp_flags g \<longleftrightarrow> f AND 0x3f = g AND 0x3f"
  unfolding low_six_bits format_tcp_flags_bits flag_string_eq ball_simps HOL.simp_thms ..

end
