(* ===== verification/Cli_Tests.thy ===== *)
theory Cli_Tests
  imports Cli_Format
begin

text \<open>
  The unit tests of the hex dump on the model: the module \<open>tests\<close> of \<^verbatim>\<open>crates/netdump-cli/src/main.rs\<close>.
\<close>

text \<open>\<open>str::lines\<close>: the text between line feeds, less the empty line after the last one.\<close>

definition text_lines :: "string \<Rightarrow> string list" where
  "text_lines s =
     (let ls = split_char newline s;
          strip = (\<lambda>l. if l \<noteq> [] \<and> last l = CHR 0x0D then butlast l else l)
      in map strip (butlast ls) @ (if last ls = [] then [] else [last ls]))"

definition bytes_upto :: "nat \<Rightarrow> packet_bytes" where
  "bytes_upto n = map of_nat [0..<n]"

definition test_format_hex_16 :: bool where
  "test_format_hex_16 \<longleftrightarrow>
     (let ls = text_lines (format_hex (bytes_upto 32) 16) in
      length ls = 2 \<and> starts_with (ls ! 0) ''    0000:'' \<and> starts_with (ls ! 1) ''    0010:'' \<and>
      length (ls ! 0) > 55 \<and> length (ls ! 0) < 65)"

definition test_format_hex_32 :: bool where
  "test_format_hex_32 \<longleftrightarrow>
     (let ls = text_lines (format_hex (bytes_upto 64) 32) in
      length ls = 2 \<and> length (ls ! 0) > 100 \<and> length (ls ! 0) < 115)"

definition test_format_hex_partial_last_line :: bool where
  "test_format_hex_partial_last_line \<longleftrightarrow>
     (let ls = text_lines (format_hex (bytes_upto 40) 32) in
      length ls = 2 \<and> starts_with (ls ! 1) ''    0020:'')"

definition test_format_hex_ascii_32 :: bool where
  "test_format_hex_ascii_32 \<longleftrightarrow>
     (let ls = text_lines (format_hex_ascii (bytes_upto 64) 32) in
      length ls = 2 \<and> length (ls ! 0) > 130 \<and> length (ls ! 0) < 150)"

definition test_hex_bytes_per_line :: bool where
  "test_hex_bytes_per_line \<longleftrightarrow>
     hex_bytes_per_line 80 = 16 \<and> hex_bytes_per_line 140 = 32 \<and> hex_bytes_per_line 200 = 48 \<and>
     hex_bytes_per_line 500 = 64"

section \<open>The lines of a dump\<close>

definition line_char :: "char \<Rightarrow> bool" where
  "line_char c \<longleftrightarrow> c \<noteq> newline \<and> c \<noteq> CHR 0x0D"

lemma line_chars [simp]: "line_char (CHR '' '')" "line_char (CHR '':'')" "line_char (CHR ''.'')"
  by (simp_all add: line_char_def newline_def)

lemma hex_digit_line_char: "to_digit 16 c \<noteq> None \<Longrightarrow> line_char c"
  by (auto simp: line_char_def newline_def to_digit_def Let_def)

lemma hex_line_chars:
  "list_all line_char (hex_line_head n)" "list_all line_char (hex_bytes bpl bs)"
  "list_all line_char (hex_filling bpl k)" "list_all line_char (map ascii_char bs)"
proof -
  show "list_all line_char (hex_line_head n)"
    using hex_pad_chars hex_digit_line_char by (fastforce simp: hex_line_head_def list_all_iff)
  have "list_all line_char (hex2 b)" for b
    using hex2_digits [of b] by (auto intro!: hex_digit_line_char)
  then show "list_all line_char (hex_bytes bpl bs)"
    by (induction bs rule: rev_induct) (auto simp: hex_bytes_snoc byte_separator_def)
  show "list_all line_char (hex_filling bpl k)"
    by (auto simp: hex_filling_def spaces_def Let_def list_all_iff)
  have "line_char (ascii_char b)" for b
  proof -
    have "unat b = of_char c" if "32 \<le> unat b \<and> unat b \<le> 126" "char_of (unat b) = c" for c
      using that by auto
    from this [of newline] this [of "CHR 0x0D"]
    have "32 \<le> unat b \<and> unat b \<le> 126 \<Longrightarrow> line_char (char_of (unat b))"
      by (auto simp: line_char_def newline_def)
    then show ?thesis
      by (auto simp: ascii_char_def is_ascii_graphic_def word_le_nat_alt)
  qed
  then show "list_all line_char (map ascii_char bs)" by (simp add: list_all_iff)
qed

lemma text_lines_Nil: "text_lines [] = []"
  by (simp add: text_lines_def)

lemma text_lines_line:
  assumes "list_all line_char l"
  shows "text_lines (l @ newline # s) = l # text_lines s"
proof -
  have "newline \<notin> set l" "l \<noteq> [] \<Longrightarrow> last l \<noteq> CHR 0x0D"
    using assms by (auto simp: list_all_iff line_char_def)
  then show ?thesis
    by (auto simp: text_lines_def Let_def split_char_append)
qed

text \<open>A dump of two lines.\<close>

lemma two_chunks:
  assumes "0 < bpl" "bpl < length data" "length data \<le> 2 * bpl"
  shows "chunks bpl data = [take bpl data, drop bpl data]"
proof -
  have "data \<noteq> []" "drop bpl data \<noteq> []" "take bpl (drop bpl data) = drop bpl data" "drop bpl (drop bpl data) = []"
    using assms by auto
  with assms(1) show ?thesis by (simp add: chunks_Cons)
qed

lemma two_lines:
  assumes "0 < bpl" "bpl < length data" "length data \<le> 2 * bpl"
  shows "text_lines (format_hex data bpl) =
      [hex_line_head 0 @ hex_bytes bpl (take bpl data) @ hex_filling bpl bpl,
       hex_line_head bpl @ hex_bytes bpl (drop bpl data) @ hex_filling bpl (length data - bpl)]"
    "text_lines (format_hex_ascii data bpl) =
      [hex_line_head 0 @ hex_bytes bpl (take bpl data) @ hex_filling bpl bpl @ ''  '' @ map ascii_char (take bpl data),
       hex_line_head bpl @ hex_bytes bpl (drop bpl data) @ hex_filling bpl (length data - bpl) @ ''  '' @
         map ascii_char (drop bpl data)]"
proof -
  have two: "text_lines (l1 @ newline # l2 @ [newline]) = [l1, l2]"
    if "list_all line_char l1" "list_all line_char l2" for l1 l2
    using that text_lines_line [of l1 "l2 @ [newline]"] text_lines_line [of l2 "[]"] by (simp add: text_lines_Nil)
  have "min (length data) bpl = bpl" using assms(2) by simp
  then show "text_lines (format_hex data bpl) =
      [hex_line_head 0 @ hex_bytes bpl (take bpl data) @ hex_filling bpl bpl,
       hex_line_head bpl @ hex_bytes bpl (drop bpl data) @ hex_filling bpl (length data - bpl)]"
    "text_lines (format_hex_ascii data bpl) =
      [hex_line_head 0 @ hex_bytes bpl (take bpl data) @ hex_filling bpl bpl @ ''  '' @ map ascii_char (take bpl data),
       hex_line_head bpl @ hex_bytes bpl (drop bpl data) @ hex_filling bpl (length data - bpl) @ ''  '' @
         map ascii_char (drop bpl data)]"
    unfolding format_hex_def format_hex_ascii_def two_chunks [OF assms]
    using two [of "hex_line_head 0 @ hex_bytes bpl (take bpl data) @ hex_filling bpl bpl"
        "hex_line_head bpl @ hex_bytes bpl (drop bpl data) @ hex_filling bpl (length data - bpl)"]
      two [of "hex_line_head 0 @ hex_bytes bpl (take bpl data) @ hex_filling bpl bpl @ ''  '' @ map ascii_char (take bpl data)"
        "hex_line_head bpl @ hex_bytes bpl (drop bpl data) @ hex_filling bpl (length data - bpl) @ ''  '' @
          map ascii_char (drop bpl data)"]
    by (simp_all add: hex_line_chars)
qed

lemma line_heads: "hex_line_head 0 = ''    0000: ''" "hex_line_head 16 = ''    0010: ''" "hex_line_head 32 = ''    0020: ''"
  by code_simp+

definition cli_tests :: bool where
  "cli_tests \<longleftrightarrow> test_format_hex_16 \<and> test_format_hex_32 \<and> test_format_hex_partial_last_line \<and>
     test_format_hex_ascii_32 \<and> test_hex_bytes_per_line"

lemma cli_tests_hold: "cli_tests"
  unfolding cli_tests_def
proof (intro conjI)
  have len [simp]: "length (bytes_upto n) = n" for n by (simp add: bytes_upto_def)
  have width: "length (hex_bytes bpl (take bpl (bytes_upto n)) @ hex_filling bpl bpl) = 3 * bpl"
    if "4 \<le> bpl" "even bpl" "bpl \<le> n" for bpl n
    using length_hex_part [of bpl "take bpl (bytes_upto n)"] that by simp
  show "test_format_hex_16"
    using width [of 16 32] by (simp add: test_format_hex_16_def two_lines line_heads)
  show "test_format_hex_32"
    using width [of 32 64] by (simp add: test_format_hex_32_def two_lines line_heads)
  show "test_format_hex_partial_last_line"
    by (simp add: test_format_hex_partial_last_line_def two_lines line_heads)
  show "test_format_hex_ascii_32"
    using width [of 32 64] by (simp add: test_format_hex_ascii_32_def two_lines line_heads)
  show "test_hex_bytes_per_line"
    by (simp add: test_hex_bytes_per_line_def hex_bytes_per_line_def scale_085_def Let_def)
qed

end
