(* ===== verification/Cli_Dates.thy ===== *)
theory Cli_Dates
  imports Cli_Format
begin

section \<open>The Gregorian calendar\<close>

text \<open>
  The reference: the number of days from 1970-01-01 to a date by the closed formula for leap days.
  The year and month loops of the code are compared with it.
\<close>

definition leaps_before :: "int \<Rightarrow> int" where
  "leaps_before y = (y - 1) div 4 - (y - 1) div 100 + (y - 1) div 400"

definition new_years_day :: "int \<Rightarrow> int" where
  "new_years_day y = 365 * (y - 1970) + leaps_before y - leaps_before 1970"

definition date_number :: "int \<Rightarrow> nat \<Rightarrow> int \<Rightarrow> int" where
  "date_number y m d = new_years_day y + sum_list (take (m - 1) (month_days y)) + (d - 1)"

definition valid_date :: "int \<Rightarrow> nat \<Rightarrow> int \<Rightarrow> bool" where
  "valid_date y m d \<longleftrightarrow> 1 \<le> m \<and> m \<le> 12 \<and> 1 \<le> d \<and> d \<le> month_days y ! (m - 1)"

lemma div_step: "0 < n \<Longrightarrow> (y :: int) div n = (y - 1) div n + (if y mod n = 0 then 1 else 0)"
proof -
  assume n: "0 < n"
  have e: "y = n * (y div n) + y mod n" by simp
  show ?thesis
  proof (cases "y mod n = 0")
    case True
    then have "y - 1 = n * (y div n - 1) + (n - 1)" using e by (simp add: algebra_simps)
    then have "(y - 1) div n = y div n - 1" using n int_div_pos_eq [of "y - 1" n "y div n - 1" "n - 1"] by simp
    with True show ?thesis by simp
  next
    case False
    have "y - 1 = n * (y div n) + (y mod n - 1)" using e by simp
    moreover have "0 \<le> y mod n - 1" "y mod n - 1 < n"
      using False n pos_mod_sign [of n y] pos_mod_bound [of n y] by linarith+
    ultimately have "(y - 1) div n = y div n" by (rule int_div_pos_eq)
    with False show ?thesis by simp
  qed
qed

lemma leap_years: "(y :: int) mod 400 = 0 \<Longrightarrow> y mod 100 = 0" "(y :: int) mod 100 = 0 \<Longrightarrow> y mod 4 = 0"
  by presburger+

lemma leap_arith:
  "(c \<longrightarrow> b) \<Longrightarrow> (b \<longrightarrow> a) \<Longrightarrow> (if (a \<and> \<not> b) \<or> c then 366 else 365) =
     365 + ((l + (if a then 1 else 0) - (if b then 1 else 0) + (if c then 1 else 0)) - l :: int)"
  by auto

lemma three_terms:
  "a = a' + p \<Longrightarrow> b = b' + q \<Longrightarrow> c = c' + r \<Longrightarrow> a - b + c = (a' - b' + c') + p - q + (r :: int)"
  by simp

lemma new_years_day_step: "new_years_day (y + 1) = new_years_day y + days_in_year y"
proof -
  have leaps: "leaps_before (y + 1) = leaps_before y + (if y mod 4 = 0 then 1 else 0)
      - (if y mod 100 = 0 then 1 else 0) + (if y mod 400 = 0 then 1 else 0)"
    unfolding leaps_before_def add_diff_cancel_right'
    by (rule three_terms) (rule div_step, simp)+
  have "days_in_year y = 365 + (leaps_before (y + 1) - leaps_before y)"
    unfolding leaps days_in_year_def is_leap_def by (rule leap_arith) (use leap_years [of y] in blast)+
  then show ?thesis by (simp add: new_years_day_def)
qed

lemma new_years_day_1970: "new_years_day 1970 = 0"
  by (simp add: new_years_day_def)

lemma find_year_correct:
  assumes "0 \<le> d"
  shows "case find_year y d of (y', d') \<Rightarrow>
    new_years_day y + d = new_years_day y' + d' \<and> 0 \<le> d' \<and> d' < days_in_year y'"
  using assms
proof (induction y d rule: find_year.induct)
  case (1 y d)
  show ?case
  proof (cases "d < days_in_year y")
    case True
    with "1.prems" show ?thesis by (simp add: find_year.simps)
  next
    case False
    then show ?thesis using 1 new_years_day_step [of y] by (simp add: find_year.simps [of y d] split: prod.splits)
  qed
qed

lemma find_month_correct:
  assumes "0 \<le> d" "d < sum_list mds"
  shows "\<exists>k d'. find_month mds m d = (m + of_nat k, d') \<and> k < length mds \<and>
    0 \<le> d' \<and> d' < mds ! k \<and> sum_list (take k mds) + d' = d"
  using assms
proof (induction mds m d rule: find_month.induct)
  case (2 md mds m d)
  show ?case
  proof (cases "d < md")
    case True
    with "2.prems" show ?thesis by (intro exI [of _ 0] exI [of _ d]) simp
  next
    case False
    with 2 obtain k d' where "find_month mds (m + 1) (d - md) = (m + 1 + of_nat k, d')" "k < length mds"
      "0 \<le> d'" "d' < mds ! k" "sum_list (take k mds) + d' = d - md" by auto
    with False show ?thesis by (intro exI [of _ "Suc k"] exI [of _ d']) (simp add: algebra_simps)
  qed
qed simp

lemma month_days_facts:
  "length (month_days y) = 12" "sum_list (month_days y) = days_in_year y"
  "k < 12 \<Longrightarrow> month_days y ! k \<le> 31"
  by (auto simp: month_days_def days_in_year_def nth_Cons split: nat.split)

lemma uint_of_small: "0 \<le> z \<Longrightarrow> z < 4294967296 \<Longrightarrow> uint (of_int z :: u32) = z"
  by (simp add: unsigned_of_int take_bit_int_eq_self)



end
