(* ===== verification/Cli_Print.thy ===== *)
theory Cli_Print
  imports Cli_Dates Packet_Info
begin

text \<open>
  \<open>print_packet\<close> of \<^verbatim>\<open>crates/netdump-cli/src/main.rs\<close>: the text it writes and the context it leaves.
  The slicer of \<open>parse_packet\<close> and the terminal width are parameters. Arithmetic on \<open>i64\<close> is done on
  integers and checked: outside the type's range it panics in builds with overflow checks (\<open>oc\<close>) and
  wraps in the others.
\<close>

section \<open>State and options\<close>

record PktCtx =
  num :: nat
  prev_ts :: "64 word \<times> u64"
  first_ts :: "64 word \<times> u64"

text \<open>
  The command line after \<open>clap\<close> has parsed it. Counted flags are \<open>u8\<close> in the code and numbers here.
\<close>

record Args =
  interface :: "string option"
  filter_words :: "string list"
  filter_file :: "string option"
  count_arg :: "nat option"
  write_file :: "string option"
  read_file :: "string option"
  arg_snaplen :: u32
  no_promiscuous :: bool
  list_interfaces_arg :: bool
  link_header :: bool
  ascii :: bool
  quiet :: bool
  verbose :: nat
  no_resolve :: nat
  dump_bpf :: bool
  userspace_filter :: bool
  hex :: nat
  hex_ascii :: nat
  timestamp_format :: nat
  arg_buffer_size :: "u32 option"
  no_checksum_verify :: bool
  packet_number :: bool
  absolute_tcp_seq :: bool
  line_buffered :: bool
  print_packets :: bool
  direction :: "string option"
  block_size_kib :: u32
  arg_block_nr :: u32
  arg_frame_size :: u32
  arg_retire_tov_ms :: u32

text \<open>The values the attributes give to arguments that are absent from the command line.\<close>

definition Args_default :: Args where
  "Args_default = \<lparr>interface = None, filter_words = [], filter_file = None, count_arg = None,
     write_file = None, read_file = None, arg_snaplen = 0, no_promiscuous = False,
     list_interfaces_arg = False, link_header = False, ascii = False, quiet = False, verbose = 0,
     no_resolve = 0, dump_bpf = False, userspace_filter = False, hex = 0, hex_ascii = 0,
     timestamp_format = 0, arg_buffer_size = None, no_checksum_verify = False,
     packet_number = False, absolute_tcp_seq = False, line_buffered = False, print_packets = False,
     direction = None, block_size_kib = 1024, arg_block_nr = 64, arg_frame_size = 2048,
     arg_retire_tov_ms = 100\<rparr>"

datatype print_panic = ArithOverflow | IndexOutOfBounds nat

definition i64_checked :: "bool \<Rightarrow> int \<Rightarrow> print_panic + int" where
  "i64_checked oc z =
     (if - (2 ^ 63) \<le> z \<and> z < 2 ^ 63 then Inr z
      else if oc then Inl ArithOverflow
      else Inr (sint (of_int z :: 64 word)))"

section \<open>Timestamps\<close>

text \<open>Microseconds between two timestamps, in the code's order of operations.\<close>

definition delta_us :: "bool \<Rightarrow> 64 word \<Rightarrow> u64 \<Rightarrow> 64 word \<times> u64 \<Rightarrow> print_panic + int" where
  "delta_us oc sec usec prev =
     and_then (i64_checked oc (sint sec - sint (fst prev))) (\<lambda>ds.
     and_then (i64_checked oc (ds * 1000000)) (\<lambda>us.
     and_then (i64_checked oc (sint usec - sint (snd prev))) (\<lambda>du.
     i64_checked oc (us + du))))"

text \<open>\<open>{:03}.{:06}\<close> of the quotient, which truncates toward zero, and of the remainder of the absolute value.\<close>

definition show_delta :: "bool \<Rightarrow> int \<Rightarrow> print_panic + string" where
  "show_delta oc delta =
     and_then (i64_checked oc \<bar>delta\<bar>) (\<lambda>a.
       Inr (show_int_pad 3 (sgn delta * (\<bar>delta\<bar> div 1000000)) @ ''.'' @
            show_int_pad 6 (sgn a * (\<bar>a\<bar> mod 1000000))))"

definition dec_pad :: "nat \<Rightarrow> nat \<Rightarrow> string" where
  "dec_pad w n = pad_left w (CHR ''0'') (show_dec n)"

definition show_date_time :: "u64 \<Rightarrow> u64 \<Rightarrow> string" where
  "show_date_time sec usec =
     (let ts_secs = sint sec; days = ts_secs div 86400; r = ts_secs mod 86400;
          h = r div 3600; m = (r div 60) mod 60; s = r mod 60;
          (y, mon, day) = epoch_days_to_date days in
      show_int_pad 4 y @ ''-'' @ dec_pad 2 (unat mon) @ ''-'' @ dec_pad 2 (unat day) @ '' '' @
      show_int_pad 2 h @ '':'' @ show_int_pad 2 m @ '':'' @ show_int_pad 2 s @ ''.'' @
      dec_pad 6 (unat usec))"

definition show_time_of_day :: "u64 \<Rightarrow> u64 \<Rightarrow> string" where
  "show_time_of_day sec usec =
     dec_pad 2 (unat sec div 3600 mod 24) @ '':'' @ dec_pad 2 (unat sec div 60 mod 60) @ '':'' @
     dec_pad 2 (unat sec mod 60) @ ''.'' @ dec_pad 6 (unat usec)"

text \<open>The time column and the context after it: \<open>prev_ts\<close> is updated in every format.\<close>

definition format_timestamp ::
  "bool \<Rightarrow> nat \<Rightarrow> PacketMeta \<Rightarrow> PktCtx \<Rightarrow> print_panic + string \<times> PktCtx" where
  "format_timestamp oc fmt m ctx =
     (let ctx' = ctx\<lparr>prev_ts := (ts_sec m, ts_usec m)\<rparr> in
      if fmt = 1 then Inr ([], ctx')
      else if fmt = 2 then Inr (show_dec (unat (ts_sec m)), ctx')
      else if fmt = 3 then
        and_then (delta_us oc (ts_sec m) (ts_usec m) (prev_ts ctx)) (\<lambda>delta.
        and_then (show_delta oc delta) (\<lambda>s. Inr (s, ctx')))
      else if fmt = 4 then Inr (show_date_time (ts_sec m) (ts_usec m), ctx')
      else if fmt = 5 then
        and_then (delta_us oc (ts_sec m) (ts_usec m) (first_ts ctx)) (\<lambda>delta.
        and_then (show_delta oc delta) (\<lambda>s. Inr (s, ctx')))
      else Inr (show_time_of_day (ts_sec m) (ts_usec m), ctx'))"

section \<open>The packet line\<close>

text \<open>Indexing and slicing panic out of bounds; every read of the packet below goes through them.\<close>

definition index_at :: "packet_bytes \<Rightarrow> nat \<Rightarrow> print_panic + u8" where
  "index_at data i = (if i < length data then Inr (data ! i) else Inl (IndexOutOfBounds i))"

definition slice_at :: "packet_bytes \<Rightarrow> nat \<Rightarrow> nat \<Rightarrow> print_panic + packet_bytes" where
  "slice_at data i j = (if j \<le> length data then Inr (take (j - i) (drop i data)) else Inl (IndexOutOfBounds j))"

definition u16_at :: "packet_bytes \<Rightarrow> nat \<Rightarrow> print_panic + u16" where
  "u16_at data i =
     and_then (index_at data i) (\<lambda>b0.
     and_then (index_at data (i + 1)) (\<lambda>b1. Inr (u16_from_be_bytes b0 b1)))"

definition u32_at :: "packet_bytes \<Rightarrow> nat \<Rightarrow> print_panic + u32" where
  "u32_at data i =
     and_then (index_at data i) (\<lambda>b0.
     and_then (index_at data (i + 1)) (\<lambda>b1.
     and_then (index_at data (i + 2)) (\<lambda>b2.
     and_then (index_at data (i + 3)) (\<lambda>b3. Inr (u32_from_be_bytes b0 b1 b2 b3)))))"

definition ipv4_details :: "packet_bytes \<Rightarrow> print_panic + string list" where
  "ipv4_details data =
     and_then (index_at data 14) (\<lambda>b.
     let ihl = unat (b AND 0x0f) * 4 in
     if length data \<ge> 14 + ihl then
       and_then (index_at data (14 + 8)) (\<lambda>ttl.
       and_then (u16_at data (14 + 4)) (\<lambda>ident.
       and_then (u16_at data (14 + 6)) (\<lambda>frag.
       and_then (index_at data (14 + 6)) (\<lambda>b6.
       let off = frag AND 0x1fff; mf = (b6 AND 0x20 \<noteq> 0) in
       Inr [''ttl '' @ show_dec (unat ttl),
            ''id '' @ show_dec (unat ident) @ '',offset '' @ show_dec (unat off) @ '','' @
              (if mf then ''+'' else [])]))))
     else Inr [])"

definition ip_details :: "PacketInfo \<Rightarrow> packet_bytes \<Rightarrow> print_panic + string list" where
  "ip_details info data =
     (if info_ethertype info = Some 0x0800 \<and> length data \<ge> 14 + 20 then ipv4_details data
      else if info_ethertype info = Some 0x86dd \<and> length data \<ge> 14 + 40 then
        and_then (index_at data (14 + 7)) (\<lambda>hlim. Inr [''hlim '' @ show_dec (unat hlim)])
      else Inr [])"

definition tcp_details_at :: "packet_bytes \<Rightarrow> nat \<Rightarrow> print_panic + string list" where
  "tcp_details_at data ip_header_len =
     (let tcp_start = 14 + ip_header_len in
      if length data \<ge> tcp_start + 20 then
        and_then (index_at data (tcp_start + 13)) (\<lambda>flags.
        and_then (u32_at data (tcp_start + 4)) (\<lambda>seq.
        and_then (u32_at data (tcp_start + 8)) (\<lambda>ack.
        and_then (u16_at data (tcp_start + 14)) (\<lambda>win.
        Inr [format_tcp_flags flags,
             ''seq '' @ show_dec (unat seq) @ '' ack '' @ show_dec (unat ack) @
             '' win '' @ show_dec (unat win)]))))
      else Inr [])"

definition tcp_details :: "PacketInfo \<Rightarrow> packet_bytes \<Rightarrow> print_panic + string list" where
  "tcp_details info data =
     (if info_protocol info = Some 6 \<and> length data \<ge> 14 + 20 then
        and_then (if info_ethertype info = Some 0x0800
                  then and_then (index_at data 14) (\<lambda>b. Inr (unat (b AND 0x0f) * 4))
                  else Inr 40) (tcp_details_at data)
      else Inr [])"

definition details :: "PacketInfo \<Rightarrow> packet_bytes \<Rightarrow> print_panic + string list" where
  "details info data =
     (if length data \<ge> 14 then
        and_then (ip_details info data) (\<lambda>ip.
        and_then (tcp_details info data) (\<lambda>tcp. Inr (ip @ tcp)))
      else Inr [])"

definition endpoints :: "Args \<Rightarrow> PacketInfo \<Rightarrow> string" where
  "endpoints args info =
     format_addr (info_src_ip info) (info_src_port info) (no_resolve args \<ge> 1) @ '' > '' @
     format_addr (info_dst_ip info) (info_dst_port info) (no_resolve args \<ge> 1)"

definition proto_of :: "PacketInfo \<Rightarrow> string" where
  "proto_of info = protocol_name (case info_protocol info of None \<Rightarrow> 0 | Some p \<Rightarrow> p)"

definition len_field :: "PacketMeta \<Rightarrow> string" where
  "len_field m = ''len='' @ show_dec (cap_len m)"

definition trim_spaces :: "string \<Rightarrow> string" where
  "trim_spaces s = rev (dropWhile (\<lambda>c. c = CHR '' '') (rev (dropWhile (\<lambda>c. c = CHR '' '') s)))"

definition quiet_line :: "string \<Rightarrow> string \<Rightarrow> Args \<Rightarrow> PacketMeta \<Rightarrow> PacketInfo option \<Rightarrow> string" where
  "quiet_line num_prefix ts args m info =
     (case info of
        Some i \<Rightarrow>
          num_prefix @ (if ts = [] then [] else ts @ '' '') @ proto_of i @ '' '' @ endpoints args i @
          '' '' @ len_field m
      | None \<Rightarrow> num_prefix @ ts @ '' [unknown] '' @ len_field m)"

definition link_part :: "Args \<Rightarrow> packet_bytes \<Rightarrow> print_panic + string list" where
  "link_part args data =
     (if link_header args \<and> length data \<ge> 14 then
        and_then (slice_at data 6 12) (\<lambda>src.
        and_then (slice_at data 0 6) (\<lambda>dst.
        and_then (u16_at data 12) (\<lambda>ethertype.
        Inr [format_mac src @ '' > '' @ format_mac dst @ '' ethertype 0x'' @ hex_pad 4 (unat ethertype)])))
      else Inr [])"

definition info_part ::
  "Args \<Rightarrow> PacketMeta \<Rightarrow> packet_bytes \<Rightarrow> PacketInfo option \<Rightarrow> print_panic + string list" where
  "info_part args m data info =
     (case info of
        Some i \<Rightarrow>
          and_then (if verbose args > 0 then details i data else Inr []) (\<lambda>d.
          Inr [endpoints args i @ '' '' @ proto_of i @
                 (if d = [] then [] else CHR '' '' # join_char (CHR '' '') d),
               len_field m])
      | None \<Rightarrow> Inr [''[unknown]'', len_field m])"

definition line_parts ::
  "string \<Rightarrow> string \<Rightarrow> Args \<Rightarrow> PacketMeta \<Rightarrow> packet_bytes \<Rightarrow> PacketInfo option
     \<Rightarrow> print_panic + string list" where
  "line_parts num_prefix ts args m data info =
     and_then (link_part args data) (\<lambda>link.
     and_then (info_part args m data info) (\<lambda>rest.
     Inr ((if ts \<noteq> [] then [num_prefix @ ts]
           else if packet_number args then [trim_spaces num_prefix] else []) @ link @ rest)))"

definition hex_dump :: "nat \<Rightarrow> Args \<Rightarrow> packet_bytes \<Rightarrow> string" where
  "hex_dump tw args data =
     (if hex args > 0 \<or> hex_ascii args > 0 then
        (let bpl = hex_bytes_per_line tw;
             do_hex = (\<lambda>payload.
               (if hex args > 0 then format_hex payload bpl else []) @
               (if hex_ascii args > 0 then format_hex_ascii payload bpl else [])) in
         if hex args \<ge> 2 \<or> hex_ascii args \<ge> 2 then do_hex data
         else if length data \<ge> 14 then do_hex (drop 14 data) else [])
      else [])"

definition ascii_dump :: "nat \<Rightarrow> Args \<Rightarrow> packet_bytes \<Rightarrow> string" where
  "ascii_dump tw args data =
     (if ascii args \<and> hex_ascii args = 0 \<and> length data \<ge> 14 \<and> drop 14 data \<noteq> [] then
        format_ascii (drop 14 data) (min (max (scale_085 tw) 64) 512) @ [newline]
      else [])"

text \<open>\<open>terminal_width\<close>, from what the \<open>TIOCGWINSZ\<close> call returns, if it succeeds.\<close>

definition terminal_width :: "u16 option \<Rightarrow> nat" where
  "terminal_width winsize =
     (case winsize of Some col \<Rightarrow> if col > 0 then unat col else 80 | None \<Rightarrow> 80)"

definition print_packet ::
  "(packet_bytes \<Rightarrow> SlicedPacket option) \<Rightarrow> nat \<Rightarrow> bool \<Rightarrow> Args \<Rightarrow> Packet \<Rightarrow> PktCtx
     \<Rightarrow> print_panic + string \<times> PktCtx" where
  "print_packet from_ethernet tw oc args packet ctx =
     and_then (format_timestamp oc (timestamp_format args) (pkt_meta packet) ctx) (\<lambda>(ts, ctx').
       let num_prefix = (if packet_number args
                         then pad_left 4 (CHR '' '') (show_dec (num ctx)) @ ''  '' else []);
           info = parse_packet from_ethernet (pkt_data packet) in
       if quiet args then
         Inr (quiet_line num_prefix ts args (pkt_meta packet) info @ [newline], ctx')
       else
         and_then (line_parts num_prefix ts args (pkt_meta packet) (pkt_data packet) info) (\<lambda>parts.
         Inr (join_char (CHR '' '') parts @ [newline] @ hex_dump tw args (pkt_data packet) @
              ascii_dump tw args (pkt_data packet), ctx')))"

section \<open>Printing does not panic\<close>

text \<open>\<open>is_ok r\<close>: the computation returns.\<close>

abbreviation is_ok :: "print_panic + 'a \<Rightarrow> bool" where
  "is_ok r \<equiv> \<exists>v. r = Inr v"

lemma reads_in_bounds [simp]:
  "i < length data \<Longrightarrow> index_at data i = Inr (data ! i)"
  "j \<le> length data \<Longrightarrow> slice_at data i j = Inr (take (j - i) (drop i data))"
  "i + 1 < length data \<Longrightarrow> u16_at data i = Inr (u16_from_be_bytes (data ! i) (data ! (i + 1)))"
  "i + 3 < length data \<Longrightarrow> u32_at data i =
     Inr (u32_from_be_bytes (data ! i) (data ! (i + 1)) (data ! (i + 2)) (data ! (i + 3)))"
  by (simp_all add: index_at_def slice_at_def u16_at_def u32_at_def)

lemma is_ok_and_then: "is_ok r \<Longrightarrow> (\<And>v. is_ok (f v)) \<Longrightarrow> is_ok (and_then r f)"
  by (metis and_then.simps(2))

lemma ok_if: "(b \<Longrightarrow> is_ok r) \<Longrightarrow> (\<not> b \<Longrightarrow> is_ok s) \<Longrightarrow> is_ok (if b then r else s)"
  by simp

lemma ok_Inr: "is_ok (Inr v)"
  by simp

lemmas ok_intros = is_ok_and_then ok_if ok_Inr

lemma reads_ok:
  "i < length data \<Longrightarrow> is_ok (index_at data i)"
  "j \<le> length data \<Longrightarrow> is_ok (slice_at data i j)"
  "i + 1 < length data \<Longrightarrow> is_ok (u16_at data i)"
  "i + 3 < length data \<Longrightarrow> is_ok (u32_at data i)"
  by simp_all

lemma ip_details_ok: "is_ok (ip_details info data)"
  unfolding ip_details_def ipv4_details_def Let_def
  by (intro ok_intros; rule reads_ok, linarith)

lemma tcp_details_at_ok: "is_ok (tcp_details_at data n)"
  unfolding tcp_details_at_def Let_def
  by (intro ok_intros; rule reads_ok, linarith)

lemma tcp_details_ok: "is_ok (tcp_details info data)"
  unfolding tcp_details_def
  by (intro ok_intros; (rule tcp_details_at_ok)?; rule reads_ok, linarith)

lemma details_ok: "is_ok (details info data)"
  using ip_details_ok [of info data] tcp_details_ok [of info data] by (auto simp: details_def)

lemma line_parts_ok: "is_ok (line_parts num_prefix ts args m data info)"
proof -
  have "is_ok (link_part args data)"
    unfolding link_part_def by (intro ok_intros; (rule reads_ok)?; linarith?)
  moreover have "is_ok (info_part args m data info)"
    unfolding info_part_def by (cases info; simp only: option.case; intro ok_intros details_ok)
  ultimately show ?thesis unfolding line_parts_def by (intro ok_intros)
qed

text \<open>Timestamps before the year 280000 with fractions below \<open>2 ^ 32\<close> microseconds.\<close>

definition ts_ok :: "64 word \<Rightarrow> u64 \<Rightarrow> bool" where
  "ts_ok sec usec \<longleftrightarrow> uint sec < 2 ^ 43 \<and> uint usec < 2 ^ 32"

lemma sint_small: "uint (w :: u64) < 2 ^ 63 \<Longrightarrow> sint w = uint w"
  by (simp add: sint_uint signed_take_bit_eq_if_positive bit_iff_odd take_bit_int_eq_self_iff
      signed_take_bit_int_eq_self_iff)

lemma micros_bound:
  "\<bar>s\<bar> < 8796093022208 \<Longrightarrow> \<bar>u\<bar> < 4294967296 \<Longrightarrow> \<bar>s * 1000000 + u :: int\<bar> < 9223372036854775808"
  unfolding abs_less_iff by linarith

lemma delta_us_ok:
  assumes "ts_ok sec usec" "ts_ok (fst prev) (snd prev)"
  shows "delta_us oc sec usec prev =
      Inr ((uint sec - uint (fst prev)) * 1000000 + (uint usec - uint (snd prev)))"
    and "\<bar>(uint sec - uint (fst prev)) * 1000000 + (uint usec - uint (snd prev))\<bar> < 2 ^ 63"
proof -
  let ?s = "uint sec - uint (fst prev)" and ?u = "uint usec - uint (snd prev)"
  have b: "uint sec < 8796093022208" "uint usec < 4294967296"
    "uint (fst prev) < 8796093022208" "uint (snd prev) < 4294967296"
    using assms by (simp_all add: ts_ok_def)
  have n: "0 \<le> uint sec" "0 \<le> uint usec" "0 \<le> uint (fst prev)" "0 \<le> uint (snd prev)" by simp_all
  have s: "\<bar>?s\<bar> < 8796093022208" and u: "\<bar>?u\<bar> < 4294967296" using b n by linarith+
  have e: "sint sec = uint sec" "sint usec = uint usec" "sint (fst prev) = uint (fst prev)"
    "sint (snd prev) = uint (snd prev)" using b by (auto intro!: sint_small)
  have p: "(2 :: int) ^ 63 = 9223372036854775808" by simp
  show sum: "\<bar>?s * 1000000 + ?u\<bar> < 2 ^ 63" unfolding p using s u by (rule micros_bound)
  have "- (2 ^ 63) \<le> z \<and> z < 2 ^ 63" if "\<bar>z\<bar> < 2 ^ 63" for z :: int using that by linarith
  note in_range = this
  have "i64_checked oc z = Inr z" if "\<bar>z\<bar> < 2 ^ 63" for z
    unfolding i64_checked_def using in_range [OF that] by (simp only: simp_thms if_True)
  moreover have "\<bar>?s\<bar> < 2 ^ 63" "\<bar>?s * 1000000\<bar> < 2 ^ 63" "\<bar>?u\<bar> < 2 ^ 63"
    unfolding p using s u by (auto simp: abs_mult)
  ultimately show "delta_us oc sec usec prev = Inr (?s * 1000000 + ?u)"
    using sum unfolding delta_us_def e by (simp only: and_then.simps)
qed

lemma show_delta_ok: "\<bar>d\<bar> < 2 ^ 63 \<Longrightarrow> is_ok (show_delta oc d)"
  by (auto simp: show_delta_def i64_checked_def)

lemma format_timestamp_ok:
  assumes "ts_ok (ts_sec m) (ts_usec m)" "ts_ok (fst (prev_ts ctx)) (snd (prev_ts ctx))"
    "ts_ok (fst (first_ts ctx)) (snd (first_ts ctx))"
  shows "\<exists>s. format_timestamp oc fmt m ctx = Inr (s, ctx\<lparr>prev_ts := (ts_sec m, ts_usec m)\<rparr>)"
proof -
  have "\<exists>s. and_then (delta_us oc (ts_sec m) (ts_usec m) t) (\<lambda>d. and_then (show_delta oc d) (\<lambda>s. Inr (s, c))) =
      Inr (s, c)" if "ts_ok (fst t) (snd t)" for t and c :: PktCtx
    using show_delta_ok [OF delta_us_ok(2) [OF assms(1) that], of oc]
    unfolding delta_us_ok(1) [OF assms(1) that, of oc] by auto
  then show ?thesis using assms(2,3) unfolding format_timestamp_def Let_def by simp
qed

lemma print_packet_ok:
  assumes "ts_ok (ts_sec (pkt_meta p)) (ts_usec (pkt_meta p))"
    "ts_ok (fst (prev_ts ctx)) (snd (prev_ts ctx))" "ts_ok (fst (first_ts ctx)) (snd (first_ts ctx))"
  shows "\<exists>out. print_packet from_ethernet tw oc args p ctx =
    Inr (out, ctx\<lparr>prev_ts := (ts_sec (pkt_meta p), ts_usec (pkt_meta p))\<rparr>)"
proof -
  obtain ts where ts: "format_timestamp oc (timestamp_format args) (pkt_meta p) ctx =
      Inr (ts, ctx\<lparr>prev_ts := (ts_sec (pkt_meta p), ts_usec (pkt_meta p))\<rparr>)"
    using format_timestamp_ok [OF assms] by blast
  obtain parts where
    "line_parts (if packet_number args then pad_left 4 (CHR '' '') (show_dec (num ctx)) @ ''  '' else []) ts args
       (pkt_meta p) (pkt_data p) (parse_packet from_ethernet (pkt_data p)) = Inr parts"
    using line_parts_ok by blast
  then show ?thesis unfolding print_packet_def ts Let_def by simp
qed

text \<open>
  C28. Printing a packet never panics, for every packet content, every slicer result and every
  combination of options, as long as the timestamps are below \<open>2 ^ 43\<close> seconds: no index or slice is
  out of bounds and no timestamp arithmetic overflows. The only change to the context is that the
  packet's timestamp becomes the previous one.
\<close>

theorem print_packet_total:
  assumes "ts_ok (ts_sec (pkt_meta p)) (ts_usec (pkt_meta p))"
    "ts_ok (fst (prev_ts ctx)) (snd (prev_ts ctx))" "ts_ok (fst (first_ts ctx)) (snd (first_ts ctx))"
  shows "\<exists>out. print_packet from_ethernet tw oc args p ctx =
    Inr (out, ctx\<lparr>prev_ts := (ts_sec (pkt_meta p), ts_usec (pkt_meta p))\<rparr>)"
  using assms by (rule print_packet_ok)

theorem print_packet_total_witness:
  "\<exists>out. print_packet (\<lambda>_. None) 80 True
      (Args_default\<lparr>timestamp_format := 3, packet_number := True, no_resolve := 1, link_header := True,
       verbose := 1, hex := 2, ascii := True\<rparr>)
      (Packet_new (PacketMeta_new 1700000000 5 1 3 3) [1, 2, 3])
      \<lparr>num = 1, prev_ts = (0, 0), first_ts = (0, 0)\<rparr> =
    Inr (out, \<lparr>num = 1, prev_ts = (1700000000, 5), first_ts = (0, 0)\<rparr>)"
  using print_packet_total [of "Packet_new (PacketMeta_new 1700000000 5 1 3 3) [1, 2, 3]"
    "\<lparr>num = 1, prev_ts = (0, 0), first_ts = (0, 0)\<rparr>" "\<lambda>_. None" 80 True]
  by (simp add: Packet_new_def PacketMeta_new_def ts_ok_def)

text \<open>
  C40. A time difference strictly between minus one second and zero is printed exactly like the positive
  difference of the same size: the sign is lost, because only the whole seconds carry it.
\<close>

theorem show_delta_loses_sign:
  assumes "-1000000 < d" "d < 0"
  shows "show_delta oc d = show_delta oc (- d)"
  using assms by (simp add: show_delta_def)

theorem show_delta_loses_sign_witness: "show_delta True (- 250000) = show_delta True 250000"
  using show_delta_loses_sign [of "- 250000" True] by simp

end
