(* ===== verification/AfPacket.thy ===== *)
theory AfPacket
  imports Core_Types Bpf_Types Std_Text
begin

text \<open>
  Opening the capture socket, from \<^verbatim>\<open>crates/netdump-afpacket/src/lib.rs\<close>: the options, the geometry
  of the ring buffer, and the sequence of system calls of \<open>open_with_options\<close>. The operating system
  is a parameter: \<open>os\<close> says for every call whether it succeeds, and with which message it fails.
\<close>

section \<open>Options and instructions\<close>

definition DEFAULT_BLOCK_SIZE :: nat where "DEFAULT_BLOCK_SIZE = 2 ^ 20"
definition DEFAULT_BLOCK_NR :: nat where "DEFAULT_BLOCK_NR = 64"
definition DEFAULT_FRAME_SIZE :: nat where "DEFAULT_FRAME_SIZE = 2048"
definition DEFAULT_RETIRE_TOV_MS :: u32 where "DEFAULT_RETIRE_TOV_MS = 100"

record RawBpfInsn =
  raw_code :: u16
  raw_jt :: u8
  raw_jf :: u8
  raw_k :: u32

definition RawBpfInsn_from :: "Instruction \<Rightarrow> RawBpfInsn" where
  "RawBpfInsn_from i = \<lparr>raw_code = i_code i, raw_jt = i_jt i, raw_jf = i_jf i, raw_k = i_k i\<rparr>"

record OpenOptions =
  snaplen :: nat
  promiscuous :: bool
  block_size :: nat
  block_nr :: nat
  buffer_size :: "u32 option"
  frame_size :: "nat option"
  retire_tov_ms :: "u32 option"
  opt_filter :: "RawBpfInsn list option"

definition OpenOptions_default :: OpenOptions where
  "OpenOptions_default = \<lparr>snaplen = 65535, promiscuous = True, block_size = DEFAULT_BLOCK_SIZE,
     block_nr = DEFAULT_BLOCK_NR, buffer_size = None, frame_size = None, retire_tov_ms = None,
     opt_filter = None\<rparr>"

section \<open>Ring geometry\<close>

text \<open>\<open>usize::next_power_of_two\<close>, for arguments up to \<open>2 ^ 63\<close>.\<close>

function power_from :: "nat \<Rightarrow> nat \<Rightarrow> nat" where
  "power_from p n = (if p = 0 \<or> n \<le> p then p else power_from (2 * p) n)"
  by pat_completeness auto
termination by (relation "measure (\<lambda>(p, n). n - p)") auto

declare power_from.simps [simp del]

definition next_power_of_two :: "nat \<Rightarrow> nat" where
  "next_power_of_two n = power_from 1 n"

definition is_power_of_two :: "nat \<Rightarrow> bool" where
  "is_power_of_two n \<longleftrightarrow> n = next_power_of_two n"

text \<open>
  \<open>(value + align - 1) & !(align - 1)\<close> on \<open>usize\<close>, with the assertion that \<open>align\<close> is a power of two
  as \<open>None\<close>.
\<close>

definition align_to :: "nat \<Rightarrow> nat \<Rightarrow> nat option" where
  "align_to value align =
     (if \<not> is_power_of_two align then None
      else Some (unat ((of_nat value + of_nat align - 1) AND NOT (of_nat align - 1) :: u64)))"

record tpacket_req3 =
  tp_block_size :: u32
  tp_block_nr :: u32
  tp_frame_size :: u32
  tp_frame_nr :: u32
  tp_retire_blk_tov :: u32
  tp_sizeof_priv :: u32
  tp_feature_req_word :: u32

definition ring_frame_size :: "OpenOptions \<Rightarrow> nat" where
  "ring_frame_size opts =
     next_power_of_two (max (case frame_size opts of None \<Rightarrow> DEFAULT_FRAME_SIZE | Some f \<Rightarrow> f)
                            (snaplen opts + 256))"

definition ring_block_size :: "nat \<Rightarrow> OpenOptions \<Rightarrow> nat option" where
  "ring_block_size page opts = align_to (max (block_size opts) (ring_frame_size opts)) page"

definition ring_request :: "nat \<Rightarrow> OpenOptions \<Rightarrow> (tpacket_req3 \<times> nat \<times> nat) option" where
  "ring_request page opts =
     (case ring_block_size page opts of
        None \<Rightarrow> None
      | Some bs \<Rightarrow>
          let fs = ring_frame_size opts; nr = block_nr opts; ring_size = bs * nr in
          Some (\<lparr>tp_block_size = of_nat bs, tp_block_nr = of_nat nr, tp_frame_size = of_nat fs,
                 tp_frame_nr = of_nat (ring_size div fs),
                 tp_retire_blk_tov =
                   (case retire_tov_ms opts of None \<Rightarrow> DEFAULT_RETIRE_TOV_MS | Some t \<Rightarrow> t),
                 tp_sizeof_priv = 0, tp_feature_req_word = 0\<rparr>,
                bs, ring_size))"

section \<open>System calls\<close>

datatype Syscall =
    IfNameToIndex string
  | SocketCall
  | SetNonBlocking
  | SetRcvBuf int
  | GetFlags string
  | SetPromisc string
  | SetPacketVersion
  | Bind u32
  | AttachFilter u16 "RawBpfInsn list"
  | SetRxRing tpacket_req3
  | Mmap nat

text \<open>\<open>os c = Inr r\<close>: the call succeeds and returns \<open>r\<close>; \<open>Inl e\<close>: it fails, and the error says \<open>e\<close>.\<close>

type_synonym OS = "Syscall \<Rightarrow> string + u32"

text \<open>A computation that makes calls: the calls made, and the error or the value.\<close>

type_synonym 'a sys = "Syscall list \<times> (NetdumpError + 'a)"

definition sys_return :: "'a \<Rightarrow> 'a sys" where
  "sys_return v = ([], Inr v)"

definition sys_fail :: "NetdumpError \<Rightarrow> 'a sys" where
  "sys_fail e = ([], Inl e)"

definition sys_bind :: "'a sys \<Rightarrow> ('a \<Rightarrow> 'b sys) \<Rightarrow> 'b sys" where
  "sys_bind m f =
     (case m of
        (t, Inl e) \<Rightarrow> (t, Inl e)
      | (t, Inr v) \<Rightarrow> (case f v of (t', r) \<Rightarrow> (t @ t', r)))"

definition syscall :: "OS \<Rightarrow> string \<Rightarrow> Syscall \<Rightarrow> u32 sys" where
  "syscall os msg c = ([c], map_err (\<lambda>e. Io (msg @ e)) (os c))"

definition syscall_hint :: "OS \<Rightarrow> string \<Rightarrow> string \<Rightarrow> Syscall \<Rightarrow> u32 sys" where
  "syscall_hint os msg hint c = ([c], map_err (\<lambda>e. Io (msg @ e @ hint)) (os c))"

text \<open>The options are \<open>i32\<close> arithmetic: \<open>buf_kib as i32\<close>, then a checked product.\<close>

definition rcv_buf_bytes :: "u32 \<Rightarrow> int" where
  "rcv_buf_bytes kib =
     (let p = sint kib * 1024 in if - (2 ^ 31) \<le> p \<and> p < 2 ^ 31 then p else 2 ^ 31 - 1)"

definition set_non_blocking :: "OS \<Rightarrow> unit sys" where
  "set_non_blocking os = sys_bind (syscall os ''fcntl O_NONBLOCK: '' SetNonBlocking) (\<lambda>_. sys_return ())"

definition bind_to_interface :: "OS \<Rightarrow> u32 \<Rightarrow> unit sys" where
  "bind_to_interface os ifindex = sys_bind (syscall os ''bind: '' (Bind ifindex)) (\<lambda>_. sys_return ())"

definition IFNAMSIZ :: nat where "IFNAMSIZ = 16"

definition set_promiscuous :: "OS \<Rightarrow> string \<Rightarrow> unit sys" where
  "set_promiscuous os ifname =
     (if length ifname \<ge> IFNAMSIZ then sys_fail (Io ''interface name too long'')
      else sys_bind (syscall os ''ioctl SIOCGIFFLAGS: '' (GetFlags ifname)) (\<lambda>_.
           sys_bind (syscall os ''ioctl SIOCSIFFLAGS: '' (SetPromisc ifname)) (\<lambda>_.
           sys_return ())))"

definition ifname_to_index :: "OS \<Rightarrow> string \<Rightarrow> u32 sys" where
  "ifname_to_index os name =
     (if CHR 0x00 \<in> set name then
        sys_fail (Io (''nul byte found in provided data at position: '' @
                      show_dec (length (takeWhile (\<lambda>c. c \<noteq> CHR 0x00) name))))
      else syscall os (''if_nametoindex('' @ name @ ''): '') (IfNameToIndex name))"

definition attach_filter :: "OS \<Rightarrow> RawBpfInsn list \<Rightarrow> unit sys" where
  "attach_filter os prog =
     (if prog = [] then sys_return ()
      else sys_bind (syscall os ''setsockopt SO_ATTACH_FILTER: ''
                       (AttachFilter (of_nat (length prog)) prog)) (\<lambda>_. sys_return ()))"

text \<open>
  The socket and the cursor inside its current block. A pointer to the start of block \<open>i\<close> of the ring
  is the number \<open>i\<close>.
\<close>

record BlockCursor =
  cur_base :: nat
  cur_num_pkts :: u32
  seen :: u32
  next_offset :: u32

record AfPacketSocket =
  sock_ifindex :: u32
  sock_ring_size :: nat
  sock_block_size :: nat
  sock_block_nr :: nat
  current_block :: nat
  cursor :: "BlockCursor option"
  kernel_filter_attached :: bool

definition open_with_options :: "OS \<Rightarrow> nat \<Rightarrow> string \<Rightarrow> OpenOptions \<Rightarrow> AfPacketSocket option sys" where
  "open_with_options os page ifname opts =
     sys_bind (if ifname = ''any'' then sys_return (0, True)
               else sys_bind (ifname_to_index os ifname) (\<lambda>i. sys_return (i, False)))
       (\<lambda>(ifindex, is_any).
     sys_bind (syscall os ''socket: '' SocketCall) (\<lambda>_.
     sys_bind (set_non_blocking os) (\<lambda>_.
     sys_bind (case buffer_size opts of
                 None \<Rightarrow> sys_return 0
               | Some kib \<Rightarrow> syscall os ''setsockopt SO_RCVBUF: '' (SetRcvBuf (rcv_buf_bytes kib))) (\<lambda>_.
     sys_bind (if promiscuous opts \<and> \<not> is_any then set_promiscuous os ifname else sys_return ()) (\<lambda>_.
     sys_bind (syscall_hint os ''setsockopt PACKET_VERSION:'' '' (TPACKET_V3 requires Linux >= 3.2)''
       SetPacketVersion) (\<lambda>_.
     sys_bind (bind_to_interface os ifindex) (\<lambda>_.
     sys_bind (case opt_filter opts of
                 None \<Rightarrow> sys_return False
               | Some prog \<Rightarrow>
                   sys_bind (syscall os ''setsockopt SO_ATTACH_FILTER: ''
                     (AttachFilter (of_nat (length prog)) prog)) (\<lambda>_. sys_return True)) (\<lambda>attached.
     (case ring_request page opts of
        None \<Rightarrow> sys_return None
      | Some (req, bs, ring_size) \<Rightarrow>
          sys_bind (syscall os ''setsockopt PACKET_RX_RING: '' (SetRxRing req)) (\<lambda>_.
          sys_bind (syscall os ''mmap: '' (Mmap ring_size)) (\<lambda>_.
          sys_return (Some \<lparr>sock_ifindex = ifindex, sock_ring_size = ring_size,
             sock_block_size = bs, sock_block_nr = block_nr opts, current_block = 0, cursor = None,
             kernel_filter_attached = attached\<rparr>))))))))))))"

text \<open>\<open>open\<close>, with the default options, and the accessor of the interface index.\<close>

definition open_default :: "OS \<Rightarrow> nat \<Rightarrow> string \<Rightarrow> AfPacketSocket option sys" where
  "open_default os page ifname = open_with_options os page ifname OpenOptions_default"

definition socket_ifindex :: "AfPacketSocket \<Rightarrow> u32" where
  "socket_ifindex s = sock_ifindex s"

section \<open>Powers of two and alignment\<close>

lemma power_from_spec:
  "0 < p \<Longrightarrow> \<exists>k. power_from p n = p * 2 ^ k \<and> n \<le> power_from p n \<and> (p < n \<longrightarrow> power_from p n < 2 * n)"
proof (induction p n rule: power_from.induct)
  case (1 p n)
  show ?case
  proof (cases "n \<le> p")
    case True
    then show ?thesis using "1.prems" by (intro exI [of _ 0]) (simp add: power_from.simps [of p n])
  next
    case False
    with 1 obtain k where k: "power_from (2 * p) n = 2 * p * 2 ^ k" "n \<le> power_from (2 * p) n"
      "2 * p < n \<longrightarrow> power_from (2 * p) n < 2 * n" by auto
    have "power_from p n = power_from (2 * p) n" using False "1.prems" by (simp add: power_from.simps [of p n])
    moreover have "power_from (2 * p) n < 2 * n"
      using k False power_from.simps [of "2 * p" n] by (cases "2 * p < n") auto
    ultimately show ?thesis using k by (intro exI [of _ "Suc k"]) simp
  qed
qed

lemma next_power_of_two_spec:
  "\<exists>k. next_power_of_two n = 2 ^ k" "n \<le> next_power_of_two n" "1 < n \<Longrightarrow> next_power_of_two n < 2 * n"
  using power_from_spec [of 1 n] by (auto simp: next_power_of_two_def)

lemma power_from_power: "power_from (2 ^ i) (2 ^ (i + k)) = 2 ^ (i + k)"
proof (induction k arbitrary: i)
  case 0
  then show ?case by (subst power_from.simps) simp
next
  case (Suc k)
  have "(2 :: nat) ^ i < 2 ^ (i + Suc k)" by (rule power_strict_increasing) auto
  then show ?case using Suc [of "Suc i"] by (subst power_from.simps) simp
qed

lemma is_power_of_two_power [simp]: "is_power_of_two (2 ^ k)"
  using power_from_power [of 0 k] by (simp add: is_power_of_two_def next_power_of_two_def)

lemma is_power_of_twoD: "is_power_of_two n \<Longrightarrow> \<exists>k. n = 2 ^ k"
  using next_power_of_two_spec(1) [of n] by (auto simp: is_power_of_two_def)

lemma unat_clear_low:
  "unat (x AND NOT (mask n) :: 'a::len word) = unat x - unat x mod 2 ^ n"
proof -
  have "(x AND NOT (mask n)) + take_bit n x = (x AND NOT (mask n)) OR take_bit n x"
    by (rule disjunctive_add) (auto simp: bit_simps)
  also have "\<dots> = x" by (rule bit_word_eqI) (auto simp: bit_simps)
  finally have "x AND NOT (mask n) = x - take_bit n x" by (metis add_diff_cancel_right')
  moreover have "take_bit n x \<le> x" by (simp add: take_bit_eq_mask word_and_le2)
  moreover have "unat (take_bit n x) = unat x mod 2 ^ n"
    by (metis unsigned_take_bit_eq take_bit_eq_mod)
  ultimately show ?thesis by (simp only: unat_sub)
qed

lemma align_to_spec:
  assumes "value + 2 ^ k < 2 ^ 64" "k < 64"
  shows "\<exists>r. align_to value (2 ^ k) = Some r \<and> 2 ^ k dvd r \<and> value \<le> r \<and> r < value + 2 ^ k"
proof -
  let ?x = "of_nat value + of_nat (2 ^ k) - 1 :: u64"
  have pos: "(1 :: nat) \<le> 2 ^ k" by simp
  have "?x = of_nat (value + (2 ^ k - 1))" unfolding of_nat_add of_nat_diff [OF pos] by simp
  then have "?x = of_nat (value + 2 ^ k - 1)" by simp
  then have x: "unat ?x = value + 2 ^ k - 1" using assms(1) by (simp only:) (simp add: unat_of_nat)
  have m: "of_nat (2 ^ k) - 1 = (mask k :: u64)" by (simp add: mask_eq_exp_minus_1)
  have "align_to value (2 ^ k) = Some (unat (?x AND NOT (mask k)))"
    by (simp add: align_to_def m [symmetric])
  also have "\<dots> = Some ((value + 2 ^ k - 1) div 2 ^ k * 2 ^ k)"
    by (simp only: unat_clear_low x minus_mod_eq_div_mult)
  finally have r: "align_to value (2 ^ k) = Some ((value + 2 ^ k - 1) div 2 ^ k * 2 ^ k)" .
  have e: "(value + 2 ^ k - 1) div 2 ^ k * 2 ^ k + (value + 2 ^ k - 1) mod 2 ^ k = value + 2 ^ k - 1"
    by (rule div_mult_mod_eq)
  have "(value + 2 ^ k - 1) mod 2 ^ k < 2 ^ k" by simp
  then have "value \<le> (value + 2 ^ k - 1) div 2 ^ k * 2 ^ k"
    "(value + 2 ^ k - 1) div 2 ^ k * 2 ^ k < value + 2 ^ k"
    using e pos by linarith+
  with r show ?thesis by (intro exI [of _ "(value + 2 ^ k - 1) div 2 ^ k * 2 ^ k"]) simp
qed

section \<open>The call sequence\<close>

fun run_plan :: "OS \<Rightarrow> Syscall list \<Rightarrow> Syscall list \<times> bool" where
  "run_plan os [] = ([], True)"
| "run_plan os (c # cs) =
     (case os c of Inl _ \<Rightarrow> ([c], False)
                 | Inr _ \<Rightarrow> (case run_plan os cs of (t, b) \<Rightarrow> (c # t, b)))"

text \<open>All the calls of \<open>open_with_options\<close>, in order, when none fails.\<close>

definition setup_plan :: "OS \<Rightarrow> string \<Rightarrow> OpenOptions \<Rightarrow> Syscall list" where
  "setup_plan os ifname opts =
     (if ifname = ''any'' then [] else [IfNameToIndex ifname]) @
     [SocketCall] @ [SetNonBlocking] @
     (case buffer_size opts of None \<Rightarrow> [] | Some kib \<Rightarrow> [SetRcvBuf (rcv_buf_bytes kib)]) @
     (if promiscuous opts \<and> ifname \<noteq> ''any'' then [GetFlags ifname, SetPromisc ifname] else []) @
     [SetPacketVersion] @
     [Bind (if ifname = ''any'' then 0
            else case os (IfNameToIndex ifname) of Inr i \<Rightarrow> i | Inl _ \<Rightarrow> 0)] @
     (case opt_filter opts of None \<Rightarrow> []
        | Some prog \<Rightarrow> [AttachFilter (of_nat (length prog)) prog])"

definition ring_plan :: "nat \<Rightarrow> OpenOptions \<Rightarrow> Syscall list" where
  "ring_plan page opts =
     (case ring_request page opts of None \<Rightarrow> []
        | Some (req, bs, ring_size) \<Rightarrow> [SetRxRing req, Mmap ring_size])"

definition open_plan :: "OS \<Rightarrow> nat \<Rightarrow> string \<Rightarrow> OpenOptions \<Rightarrow> Syscall list" where
  "open_plan os page ifname opts = setup_plan os ifname opts @ ring_plan page opts"

definition ifname_ok :: "string \<Rightarrow> bool" where
  "ifname_ok ifname \<longleftrightarrow> length ifname < IFNAMSIZ \<and> CHR 0x00 \<notin> set ifname"

text \<open>A computation follows a plan when it makes the plan's calls up to the first failure.\<close>

definition follows :: "OS \<Rightarrow> 'a sys \<Rightarrow> Syscall list \<Rightarrow> bool" where
  "follows os m cs \<longleftrightarrow> fst m = fst (run_plan os cs) \<and> ((\<exists>v. snd m = Inr v) \<longleftrightarrow> snd (run_plan os cs))"

lemma sys_bind_return [simp]: "sys_bind (sys_return v) f = f v"
  by (simp add: sys_bind_def sys_return_def)

lemma sys_bind_assoc [simp]: "sys_bind (sys_bind m f) g = sys_bind m (\<lambda>v. sys_bind (f v) g)"
  by (cases m; cases "snd m") (auto simp: sys_bind_def split: prod.splits sum.splits)

lemma follows_return [simp]: "follows os (sys_return v) []"
  by (simp add: follows_def sys_return_def)

lemma follows_call:
  "(\<And>v. os c = Inr v \<Longrightarrow> follows os (f v) cs) \<Longrightarrow> follows os (sys_bind (syscall os msg c) f) (c # cs)"
  by (cases "os c") (auto simp: follows_def sys_bind_def syscall_def split: prod.splits)

lemma follows_call_hint:
  "(\<And>v. os c = Inr v \<Longrightarrow> follows os (f v) cs) \<Longrightarrow> follows os (sys_bind (syscall_hint os msg hint c) f) (c # cs)"
  by (cases "os c") (auto simp: follows_def sys_bind_def syscall_hint_def split: prod.splits)

lemma open_follows_plan:
  assumes "ifname_ok ifname"
  shows "follows os (open_with_options os page ifname opts) (open_plan os page ifname opts)"
proof -
  have "length ifname < IFNAMSIZ" "CHR 0x00 \<notin> set ifname" using assms by (auto simp: ifname_ok_def)
  then show ?thesis
    by (cases "ifname = ''any''"; cases "buffer_size opts"; cases "promiscuous opts";
        cases "opt_filter opts"; cases "ring_request page opts")
      (auto simp: open_with_options_def open_plan_def setup_plan_def ring_plan_def ifname_to_index_def set_promiscuous_def
        set_non_blocking_def bind_to_interface_def intro!: follows_call follows_call_hint)
qed

lemma run_plan_prefix: "run_plan os cs = (t, b) \<Longrightarrow> \<exists>ds. cs = t @ ds"
  by (induction cs arbitrary: t b) (auto split: sum.splits prod.splits)

text \<open>
  The filter is attached, and the socket bound, before the ring is requested: no packet gets into
  the ring unfiltered.
\<close>

lemma plan_order:
  assumes "open_plan os page ifname opts = pre @ SetRxRing req # post"
  shows "SetPacketVersion \<in> set pre \<and> (\<exists>i. Bind i \<in> set pre) \<and>
    (\<forall>prog. opt_filter opts = Some prog \<longrightarrow> AttachFilter (of_nat (length prog)) prog \<in> set pre)"
proof -
  have no: "SetRxRing req \<notin> set (setup_plan os ifname opts)"
    by (auto simp: setup_plan_def split: option.splits if_splits)
  have "setup_plan os ifname opts @ ring_plan page opts = pre @ SetRxRing req # post"
    using assms by (simp add: open_plan_def)
  then obtain us where "pre = setup_plan os ifname opts @ us"
    using no by (auto simp: append_eq_append_conv2 append_eq_Cons_conv)
  then show ?thesis by (auto simp: setup_plan_def split: option.splits)
qed

text \<open>What the socket is like that opening returns.\<close>

definition yields :: "('a \<Rightarrow> bool) \<Rightarrow> 'a sys \<Rightarrow> bool" where
  "yields P m \<longleftrightarrow> (\<forall>v. snd m = Inr v \<longrightarrow> P v)"

lemma yields_bind: "(\<And>v. yields P (f v)) \<Longrightarrow> yields P (sys_bind m f)"
  unfolding yields_def sys_bind_def by (auto split: prod.splits sum.splits) (metis snd_conv)

lemma yields_return [simp]: "yields P (sys_return v) \<longleftrightarrow> P v"
  by (simp add: yields_def sys_return_def)

lemma open_yields:
  "yields (\<lambda>r. \<forall>s. r = Some s \<longrightarrow> cursor s = None \<and> current_block s = 0 \<and> sock_block_nr s = block_nr opts \<and>
     kernel_filter_attached s = (opt_filter opts \<noteq> None)) (open_with_options os page ifname opts)"
  by (cases "opt_filter opts"; unfold open_with_options_def)
    (auto intro!: yields_bind split: option.split prod.split)

lemma opened_socket:
  assumes "snd (open_with_options os page ifname opts) = Inr (Some s)"
  shows "cursor s = None" "current_block s = 0" "sock_block_nr s = block_nr opts"
    "kernel_filter_attached s = (opt_filter opts \<noteq> None)"
  using open_yields [of opts os page ifname] assms by (auto simp: yields_def)

section \<open>The request the kernel accepts\<close>

text \<open>
  What the comment in the code demands of the geometry: the frame size is a power of two that
  divides the block size, the block size is a multiple of the page size, and the number of frames
  is the number per block times the number of blocks.
\<close>

definition ring_ok :: "nat \<Rightarrow> tpacket_req3 \<Rightarrow> bool" where
  "ring_ok page req \<longleftrightarrow>
     is_power_of_two (unat (tp_frame_size req)) \<and>
     unat (tp_block_size req) mod unat (tp_frame_size req) = 0 \<and>
     unat (tp_block_size req) mod page = 0 \<and>
     unat (tp_frame_nr req) =
       unat (tp_block_size req) div unat (tp_frame_size req) * unat (tp_block_nr req)"

lemma ring_frame_size_power: "\<exists>k. ring_frame_size opts = 2 ^ k"
  unfolding ring_frame_size_def by (rule next_power_of_two_spec)

lemma ring_frame_size_ge: "snaplen opts + 256 \<le> ring_frame_size opts"
  unfolding ring_frame_size_def using next_power_of_two_spec(2) [of "max _ (snaplen opts + 256)"]
  by (meson max.bounded_iff order_trans order_refl)

lemma power_align:
  assumes "(2 :: nat) ^ i + 2 ^ k < 2 ^ 64" "k < 64"
  shows "align_to (2 ^ i) (2 ^ k) = Some (2 ^ max i k)"
proof -
  obtain r where r: "align_to (2 ^ i) (2 ^ k) = Some r" "2 ^ k dvd r" "2 ^ i \<le> r" "r < 2 ^ i + 2 ^ k"
    using align_to_spec [OF assms] by blast
  obtain q where q: "r = 2 ^ k * q" using r(2) by (auto simp: dvd_def)
  show ?thesis
  proof (cases "i \<le> k")
    case True
    then have "(2 :: nat) ^ i \<le> 2 ^ k" by (simp add: power_increasing)
    then have "2 ^ k * q < 2 ^ k * 2" using r(4) q by linarith
    moreover have "0 < q" using r(3) q by (cases q) auto
    ultimately have "q = 1" by simp
    with True q r show ?thesis by (simp add: max_def)
  next
    case False
    then have e: "(2 :: nat) ^ i = 2 ^ k * 2 ^ (i - k)" by (simp flip: power_add)
    with r q have "2 ^ (i - k) \<le> q" by simp
    moreover have "2 ^ k * q < 2 ^ k * (2 ^ (i - k) + 1)" using r q e by (simp add: algebra_simps)
    then have "q < 2 ^ (i - k) + 1" using mult_less_cancel1 by blast
    ultimately have "q = 2 ^ (i - k)" by simp
    with False e q r show ?thesis by (simp add: max_def)
  qed
qed

lemma max_power: "max ((2 :: nat) ^ i) (2 ^ j) = 2 ^ max i j"
  by (simp add: max_def)

lemma unat_of_nat_u32: "n < 4294967296 \<Longrightarrow> unat (of_nat n :: u32) = n"
  by (simp add: unat_of_nat)

lemma ring_ok_numbers:
  assumes "bs = 2 ^ f * q" "page dvd bs" "bs < 2 ^ 32" "nr < 2 ^ 32" "q * nr < 2 ^ 32" "(2 :: nat) ^ f < 2 ^ 32"
  shows "ring_ok page \<lparr>tp_block_size = of_nat bs, tp_block_nr = of_nat nr, tp_frame_size = of_nat (2 ^ f),
    tp_frame_nr = of_nat (bs * nr div 2 ^ f), tp_retire_blk_tov = t, tp_sizeof_priv = 0, tp_feature_req_word = 0\<rparr>"
proof -
  have "bs * nr div 2 ^ f = q * nr" "bs div 2 ^ f = q" "bs mod 2 ^ f = 0" using assms(1) by simp_all
  moreover have "unat (of_nat (q * nr) :: u32) = q * nr" "unat (of_nat bs :: u32) = bs"
    "unat (of_nat nr :: u32) = nr" "unat (of_nat (2 ^ f) :: u32) = 2 ^ f"
    using assms(3-6) by (auto intro!: unat_of_nat_u32 simp del: of_nat_mult of_nat_power)
  ultimately show ?thesis
    using assms(2) unfolding ring_ok_def tpacket_req3.simps by (simp only:) simp
qed

lemma ring_request_powers:
  assumes "block_size opts = 2 ^ b" "page = 2 ^ p"
    and "2 ^ b + ring_frame_size opts + 2 ^ p < 2 ^ 32"
    and "(2 ^ b + ring_frame_size opts + 2 ^ p) * block_nr opts < 2 ^ 32"
  shows "\<exists>req bs. ring_request page opts = Some (req, bs, bs * block_nr opts) \<and> ring_ok page req \<and>
    block_size opts \<le> bs \<and> unat (tp_block_size req) = bs \<and> unat (tp_block_nr req) = block_nr opts \<and>
    snaplen opts + 256 \<le> unat (tp_frame_size req)"
proof -
  obtain f where f: "ring_frame_size opts = 2 ^ f" using ring_frame_size_power by blast
  let ?m = "max b f" and ?e = "max (max b f) p"
  have m: "(2 :: nat) ^ ?m \<le> 2 ^ b + 2 ^ f" by (simp add: max_def)
  have p64: "p < 64"
  proof (rule ccontr)
    assume "\<not> p < 64"
    then have "(2 :: nat) ^ 64 \<le> 2 ^ p" by (intro power_increasing) auto
    with assms(3) show False by simp
  qed
  have "2 ^ ?m + 2 ^ p < (2 :: nat) ^ 32" using m assms(3) f by linarith
  also have "(2 :: nat) ^ 32 < 2 ^ 64" by simp
  finally have s64: "2 ^ ?m + 2 ^ p < (2 :: nat) ^ 64" .
  have bs: "ring_block_size page opts = Some (2 ^ ?e)"
    unfolding ring_block_size_def assms(1,2) f max_power by (rule power_align [OF s64 p64])
  have e: "(2 :: nat) ^ ?e \<le> 2 ^ b + 2 ^ f + 2 ^ p" by (simp add: max_def)
  then have small: "(2 :: nat) ^ ?e < 2 ^ 32" using assms(3) f by linarith
  have f_le: "(2 :: nat) ^ f \<le> 2 ^ ?e" by (rule power_increasing) auto
  have nr: "block_nr opts < 2 ^ 32"
  proof (rule ccontr)
    assume "\<not> block_nr opts < 2 ^ 32"
    moreover have "1 * block_nr opts \<le> (2 ^ b + ring_frame_size opts + 2 ^ p) * block_nr opts"
      by (intro mult_le_mono1) (simp add: Suc_le_eq)
    ultimately show False using assms(4) by linarith
  qed
  have split: "(2 :: nat) ^ ?e = 2 ^ f * 2 ^ (?e - f)" by (simp flip: power_add)
  have total: "2 ^ ?e * block_nr opts < 2 ^ 32"
    using mult_le_mono1 [OF e, of "block_nr opts"] assms(4) unfolding f by (rule order_le_less_trans)
  have "2 ^ (?e - f) * block_nr opts \<le> 2 ^ ?e * block_nr opts"
    by (intro mult_le_mono1 power_increasing) auto
  then have frames: "2 ^ (?e - f) * block_nr opts < 2 ^ 32" using total by (rule order_le_less_trans)
  have f_small: "(2 :: nat) ^ f < 2 ^ 32" using f_le small by (rule order_le_less_trans)
  have page_dvd: "page dvd 2 ^ ?e" unfolding assms(2) by (rule le_imp_power_dvd) simp
  have block_le: "block_size opts \<le> 2 ^ ?e" unfolding assms(1) by (rule power_increasing) auto
  have snap: "snaplen opts + 256 \<le> 2 ^ f" using ring_frame_size_ge [of opts] f by simp
  note ok = ring_ok_numbers [OF split page_dvd small nr frames f_small]
  have fields: "unat (of_nat (2 ^ ?e) :: u32) = 2 ^ ?e" "unat (of_nat (block_nr opts) :: u32) = block_nr opts"
    "unat (of_nat (2 ^ f) :: u32) = 2 ^ f"
    using small nr f_small by (auto intro!: unat_of_nat_u32 simp del: of_nat_power)
  show ?thesis
    unfolding ring_request_def bs f option.case Let_def
    by (intro exI conjI) (rule refl, rule ok, rule block_le, unfold tpacket_req3.simps fields,
        rule refl, rule refl, rule snap)
qed

section \<open>Properties of opening a socket\<close>



text \<open>
  C25. When the block size asked for and the page size are powers of two, and the sizes fit in the
  32-bit fields of the request, the ring the code asks for satisfies the constraints its comment
  names, holds at least the blocks asked for, and its frames hold a packet of the snap length.
\<close>

theorem ring_request_ok:
  assumes "block_size opts = 2 ^ b" "page = 2 ^ p"
    and "2 ^ b + ring_frame_size opts + 2 ^ p < 2 ^ 32"
    and "(2 ^ b + ring_frame_size opts + 2 ^ p) * block_nr opts < 2 ^ 32"
  shows "\<exists>req bs. ring_request page opts = Some (req, bs, bs * block_nr opts) \<and> ring_ok page req \<and>
    block_size opts \<le> bs \<and> unat (tp_block_size req) = bs \<and> unat (tp_block_nr req) = block_nr opts \<and>
    snaplen opts + 256 \<le> unat (tp_frame_size req)"
  using assms by (rule ring_request_powers)

lemma default_frame_size: "ring_frame_size OpenOptions_default = 131072"
  by (simp add: ring_frame_size_def OpenOptions_default_def DEFAULT_FRAME_SIZE_def
      next_power_of_two_def power_from.simps)

theorem ring_request_ok_witness:
  "\<exists>req bs. ring_request 4096 OpenOptions_default = Some (req, bs, bs * 64) \<and> ring_ok 4096 req"
  using ring_request_ok [of OpenOptions_default 20 4096 12] default_frame_size
  by (auto simp: OpenOptions_default_def DEFAULT_BLOCK_SIZE_def DEFAULT_BLOCK_NR_def)

text \<open>
  For a block size that is not a power of two the frame size need not divide it, although the
  comment at that place says the kernel rejects such a ring: a block size of 200 KiB with the
  default snap length gives frames of 128 KiB.
\<close>

theorem ring_request_200k:
  "case ring_request 4096 (OpenOptions_default\<lparr>block_size := 200 * 1024\<rparr>) of
     None \<Rightarrow> False | Some (req, bs, ring_size) \<Rightarrow> bs = 204800 \<and> \<not> ring_ok 4096 req"
proof -
  define o' where "o' = OpenOptions_default\<lparr>block_size := 200 * 1024\<rparr>"
  have fs: "ring_frame_size o' = 131072" and size: "block_size o' = 204800" and nr: "block_nr o' = 64"
    using default_frame_size
    by (simp_all add: o'_def ring_frame_size_def OpenOptions_default_def DEFAULT_BLOCK_NR_def)
  have "is_power_of_two 4096" using is_power_of_two_power [of 12] by simp
  then have bs: "ring_block_size 4096 o' = Some 204800"
    by (simp add: ring_block_size_def fs size align_to_def)
  show ?thesis
    unfolding o'_def [symmetric] ring_request_def bs option.case Let_def
    by (simp add: fs nr ring_ok_def)
qed

end
