(* ===== verification/Af_Interfaces.thy ===== *)
theory Af_Interfaces
  imports AfPacket "HOL-Library.Multiset"
begin

text \<open>
  The interface queries and the statistics of \<^verbatim>\<open>crates/netdump-afpacket/src/lib.rs\<close>. What the C library
  returns is a parameter: the list of \<open>getifaddrs\<close>, \<open>if_nametoindex\<close>, and the counters of the socket.
\<close>

record InterfaceInfo =
  if_name :: string
  if_ifindex :: u32
  is_up :: bool

record ifaddrs =
  ifa_name :: string
  ifa_flags :: u32

definition IFF_UP :: u32 where "IFF_UP = 0x1"
definition IFF_LOOPBACK :: u32 where "IFF_LOOPBACK = 0x8"

definition flags_up :: "u32 \<Rightarrow> bool" where
  "flags_up flags \<longleftrightarrow> flags AND IFF_UP \<noteq> 0 \<and> flags AND IFF_LOOPBACK = 0"

text \<open>The loop over the linked list: an interface is kept when its name was not seen before.\<close>

fun collect_interfaces :: "(string \<Rightarrow> u32) \<Rightarrow> ifaddrs list \<Rightarrow> string set \<Rightarrow> InterfaceInfo list" where
  "collect_interfaces nametoindex [] names = []"
| "collect_interfaces nametoindex (a # as) names =
     (if ifa_name a \<notin> names then
        \<lparr>if_name = ifa_name a, if_ifindex = nametoindex (ifa_name a), is_up = flags_up (ifa_flags a)\<rparr> #
        collect_interfaces nametoindex as (insert (ifa_name a) names)
      else collect_interfaces nametoindex as names)"

definition list_interfaces ::
  "(string + ifaddrs list) \<Rightarrow> (string \<Rightarrow> u32) \<Rightarrow> NetdumpError + InterfaceInfo list" where
  "list_interfaces getifaddrs nametoindex =
     and_then (map_err (\<lambda>e. Io (''getifaddrs: '' @ e)) getifaddrs) (\<lambda>as.
     Inr (sort_key (\<lambda>i. sint (if_ifindex i)) (collect_interfaces nametoindex as {})))"

definition default_interface ::
  "(string + ifaddrs list) \<Rightarrow> (string \<Rightarrow> u32) \<Rightarrow> NetdumpError + string" where
  "default_interface getifaddrs nametoindex =
     and_then (list_interfaces getifaddrs nametoindex) (\<lambda>infos.
     ok_or (map_option if_name (find is_up infos)) (Io ''no suitable interface found''))"

record PacketStats =
  packets :: u32
  drops :: u32

definition statistics :: "(string + u32 \<times> u32) \<Rightarrow> NetdumpError + PacketStats" where
  "statistics getsockopt =
     and_then (map_err (\<lambda>e. Io (''getsockopt PACKET_STATISTICS: '' @ e)) getsockopt) (\<lambda>(p, d).
     Inr \<lparr>packets = p, drops = d\<rparr>)"

section \<open>What the list holds\<close>

lemma collect_distinct:
  "distinct (map if_name (collect_interfaces f as names)) \<and>
   if_name ` set (collect_interfaces f as names) = ifa_name ` set as - names"
proof (induction as arbitrary: names)
  case (Cons a as)
  show ?case using Cons [of names] Cons [of "insert (ifa_name a) names"] by auto
qed simp

lemma collect_index: "i \<in> set (collect_interfaces f as names) \<Longrightarrow> if_ifindex i = f (if_name i)"
  by (induction as arbitrary: names) (auto split: if_splits)

text \<open>
  The list of interfaces names every interface the system reports exactly once, with its index,
  in ascending order of the index.
\<close>

theorem list_interfaces_correct:
  assumes "list_interfaces (Inr as) f = Inr infos"
  shows "distinct (map if_name infos) \<and> if_name ` set infos = ifa_name ` set as \<and>
    (\<forall>i \<in> set infos. if_ifindex i = f (if_name i)) \<and> sorted (map (\<lambda>i. sint (if_ifindex i)) infos)"
proof -
  let ?k = "\<lambda>i. sint (if_ifindex i)" and ?is = "collect_interfaces f as {}"
  have infos: "infos = sort_key ?k ?is" using assms by (simp add: list_interfaces_def)
  have "mset (map if_name infos) = mset (map if_name ?is)" unfolding infos by (simp only: mset_map mset_sort)
  then have "distinct (map if_name infos)" using collect_distinct [of f as "{}"] mset_eq_imp_distinct_iff by blast
  then show ?thesis
    using collect_distinct [of f as "{}"] collect_index [of _ f as "{}"] unfolding infos by simp
qed

theorem list_interfaces_correct_witness:
  "\<exists>infos. list_interfaces (Inr [\<lparr>ifa_name = ''lo'', ifa_flags = 9\<rparr>, \<lparr>ifa_name = ''eth0'', ifa_flags = 1\<rparr>])
     (\<lambda>n. if n = ''lo'' then 1 else 2) = Inr infos \<and> if_name ` set infos = {''lo'', ''eth0''}"
proof -
  obtain infos where i: "list_interfaces (Inr [\<lparr>ifa_name = ''lo'', ifa_flags = 9\<rparr>, \<lparr>ifa_name = ''eth0'', ifa_flags = 1\<rparr>])
     (\<lambda>n. if n = ''lo'' then 1 else 2) = Inr infos" by (simp add: list_interfaces_def)
  with list_interfaces_correct [OF i] show ?thesis by simp
qed



end
