(* ===== verification/Packet_Source.thy ===== *)
theory Packet_Source
  imports Prelude
begin

text \<open>
  The interface between a source of packets and the loops that read it: a source hands out what it
  has pending, in order, and says so when it has nothing.
\<close>

fun take_packets :: "('s \<Rightarrow> ('p \<times> 's) option) \<Rightarrow> nat \<Rightarrow> 's \<Rightarrow> 'p list \<times> 's" where
  "take_packets next_of 0 s = ([], s)"
| "take_packets next_of (Suc n) s =
     (case next_of s of
        None \<Rightarrow> ([], s)
      | Some (p, s') \<Rightarrow> (case take_packets next_of n s' of (ps, s'') \<Rightarrow> (p # ps, s'')))"

locale packet_source =
  fixes good :: "'s \<Rightarrow> bool" and pending :: "'s \<Rightarrow> 'p list" and next_of :: "'s \<Rightarrow> ('p \<times> 's) option"
  assumes next_pending:
      "good s \<Longrightarrow> pending s = p # ps \<Longrightarrow> \<exists>s'. next_of s = Some (p, s') \<and> good s' \<and> pending s' = ps"
    and next_idle: "good s \<Longrightarrow> pending s = [] \<Longrightarrow> next_of s = None"
begin

lemma next_None_iff: "good s \<Longrightarrow> next_of s = None \<longleftrightarrow> pending s = []"
  using next_pending next_idle by (cases "pending s") fastforce+

lemma take_pending: "good s \<Longrightarrow> fst (take_packets next_of n s) = take n (pending s)"
proof (induction n arbitrary: s)
  case (Suc n)
  show ?case
  proof (cases "pending s")
    case Nil
    then show ?thesis using next_idle Suc.prems by simp
  next
    case (Cons p ps)
    then obtain s' where "next_of s = Some (p, s')" "good s'" "pending s' = ps"
      using next_pending Suc.prems by blast
    then show ?thesis using Suc.IH [of s'] Cons by (simp add: split_beta)
  qed
qed simp

lemma take_rest:
  "good s \<Longrightarrow> good (snd (take_packets next_of n s)) \<and> pending (snd (take_packets next_of n s)) = drop n (pending s)"
proof (induction n arbitrary: s)
  case (Suc n)
  show ?case
  proof (cases "pending s")
    case Nil
    then show ?thesis using next_idle Suc.prems by simp
  next
    case (Cons p ps)
    then obtain s' where "next_of s = Some (p, s')" "good s'" "pending s' = ps"
      using next_pending Suc.prems by blast
    then show ?thesis using Suc.IH [of s'] Cons by (simp add: split_beta)
  qed
qed simp

end

end
