(* ===== verification/Rx_Ring.thy ===== *)
theory Rx_Ring
  imports AfPacket Packet_Source
begin

text \<open>
  Reading packets from the TPACKET_V3 ring, from \<^verbatim>\<open>crates/netdump-afpacket/src/lib.rs\<close>: \<open>next_packet\<close>,
  \<open>wait_for_block\<close> and \<open>build_packet\<close>. The ring is shared with the kernel: every block belongs to one of
  the two at a time, by its status word. The C layout of the headers is not in the sources; a block
  is what the code reads of it, the fields of its descriptor, the frame header at each byte offset
  and its bytes.
\<close>

section \<open>The shared memory\<close>

definition TP_STATUS_KERNEL :: u32 where "TP_STATUS_KERNEL = 0"
definition TP_STATUS_USER :: u32 where "TP_STATUS_USER = 1"

text \<open>The size of \<open>struct tpacket3_hdr\<close>.\<close>

definition TPACKET3_HDR_LEN :: nat where "TPACKET3_HDR_LEN = 48"

record tpacket3_hdr =
  tp_next_offset :: u32
  tp_sec :: u32
  tp_nsec :: u32
  tp_snaplen :: u32
  tp_mac :: u16

record block_desc =
  block_status :: u32
  num_pkts :: u32
  offset_to_first_pkt :: u32
  frame_at :: "nat \<Rightarrow> tpacket3_hdr"
  block_bytes :: packet_bytes

type_synonym ring = "block_desc list"

definition is_user :: "block_desc \<Rightarrow> bool" where
  "is_user b \<longleftrightarrow> block_status b AND TP_STATUS_USER \<noteq> 0"

definition user_at :: "ring \<Rightarrow> nat \<Rightarrow> bool" where
  "user_at ring i \<longleftrightarrow> i < length ring \<and> is_user (ring ! i)"

section \<open>Waiting for a block\<close>

text \<open>
  One \<open>poll\<close>: it fails, or returns (ready or timed out), and the kernel may have written to the ring
  meanwhile. The events that lie ahead are a list; when it is used up, the call is still waiting.
\<close>

datatype poll_event = PollFailed string | PollReturned ring

datatype wait_result =
    Ready ring "poll_event list"
  | WaitError NetdumpError ring "poll_event list"
  | Waiting ring

fun wait_for_block :: "ring \<Rightarrow> nat \<Rightarrow> poll_event list \<Rightarrow> wait_result" where
  "wait_for_block ring i [] = (if user_at ring i then Ready ring [] else Waiting ring)"
| "wait_for_block ring i (e # es) =
     (if user_at ring i then Ready ring (e # es)
      else case e of
        PollFailed msg \<Rightarrow> WaitError (Io (''poll: '' @ msg)) ring es
      | PollReturned ring' \<Rightarrow> wait_for_block ring' i es)"

section \<open>Reading a frame\<close>

definition build_packet :: "packet_bytes \<Rightarrow> u64 \<Rightarrow> u64 \<Rightarrow> u32 \<Rightarrow> Packet" where
  "build_packet data sec nsec ifindex =
     (let usec = nsec div 1000 in
      Packet_new (PacketMeta_new sec usec ifindex (length data) (length data)) data)"

text \<open>
  Reads outside the block are undefined behaviour in the code, and a fault here; with overflow
  checks (\<open>oc\<close>) the advance of the offset may panic.
\<close>

datatype ring_fault = OutOfBlock | OffsetOverflow

definition read_frame :: "u32 \<Rightarrow> block_desc \<Rightarrow> nat \<Rightarrow> ring_fault + Packet" where
  "read_frame ifindex b off =
     (if off + TPACKET3_HDR_LEN > length (block_bytes b) then Inl OutOfBlock
      else
        let frame = frame_at b off;
            snap_len = unat (tp_snaplen frame);
            pkt_start = off + unat (tp_mac frame) in
        if pkt_start + snap_len > length (block_bytes b) then Inl OutOfBlock
        else Inr (build_packet (take snap_len (drop pkt_start (block_bytes b)))
                    (ucast (tp_sec frame)) (ucast (tp_nsec frame)) ifindex))"

definition take_frame :: "bool \<Rightarrow> u32 \<Rightarrow> block_desc \<Rightarrow> BlockCursor \<Rightarrow> ring_fault + Packet \<times> BlockCursor" where
  "take_frame oc ifindex b c =
     and_then (read_frame ifindex b (unat (next_offset c))) (\<lambda>packet.
       let step = tp_next_offset (frame_at b (unat (next_offset c))) in
       if oc \<and> unat (next_offset c) + unat step \<ge> 2 ^ 32 then Inl OffsetOverflow
       else Inr (packet, c\<lparr>seen := seen c + 1, next_offset := next_offset c + step\<rparr>))"

section \<open>The loop\<close>

definition release_block :: "AfPacketSocket \<Rightarrow> ring \<Rightarrow> AfPacketSocket \<times> ring" where
  "release_block s ring =
     (case cursor s of
        None \<Rightarrow> (s, ring)
      | Some c \<Rightarrow>
          (s\<lparr>cursor := None, current_block := (current_block s + 1) mod sock_block_nr s\<rparr>,
           ring[cur_base c := (ring ! cur_base c)\<lparr>block_status := TP_STATUS_KERNEL\<rparr>]))"

definition open_block :: "AfPacketSocket \<Rightarrow> ring \<Rightarrow> AfPacketSocket" where
  "open_block s ring =
     (let b = ring ! current_block s in
      s\<lparr>cursor := Some \<lparr>cur_base = current_block s, cur_num_pkts = num_pkts b, seen = 0,
                         next_offset = offset_to_first_pkt b\<rparr>\<rparr>)"

datatype next_result = Delivered Packet | Failed NetdumpError | Blocked | Faulted ring_fault

definition has_frame :: "AfPacketSocket \<Rightarrow> BlockCursor option" where
  "has_frame s = (case cursor s of None \<Rightarrow> None | Some c \<Rightarrow> if seen c < cur_num_pkts c then Some c else None)"

definition user_blocks :: "ring \<Rightarrow> nat" where
  "user_blocks ring = length (filter is_user ring)"

definition fresh_cursor :: "AfPacketSocket \<Rightarrow> ring \<Rightarrow> bool" where
  "fresh_cursor s ring \<longleftrightarrow> (case cursor s of None \<Rightarrow> False | Some c \<Rightarrow> user_at ring (cur_base c))"

lemma filter_update_length:
  "i < length xs \<Longrightarrow> \<not> P y \<Longrightarrow> length (filter P (xs[i := y])) \<le> length (filter P xs) \<and>
     (P (xs ! i) \<longrightarrow> length (filter P (xs[i := y])) < length (filter P xs))"
  by (induction xs arbitrary: i) (auto split: nat.split)

lemma not_user_kernel [simp]: "\<not> is_user (b\<lparr>block_status := TP_STATUS_KERNEL\<rparr>)"
  by (simp add: is_user_def TP_STATUS_KERNEL_def)

lemma release_user_blocks:
  "user_blocks (snd (release_block s ring)) \<le> user_blocks ring"
  "fresh_cursor s ring \<Longrightarrow> user_blocks (snd (release_block s ring)) < user_blocks ring"
proof -
  have le: "length (filter is_user (ring[i := b\<lparr>block_status := TP_STATUS_KERNEL\<rparr>])) \<le> length (filter is_user ring)"
    for i b
    by (cases "i < length ring") (use filter_update_length [of i ring is_user] in \<open>auto simp: list_update_beyond\<close>)
  show "user_blocks (snd (release_block s ring)) \<le> user_blocks ring"
    by (auto simp: user_blocks_def release_block_def le split: option.split)
  show "fresh_cursor s ring \<Longrightarrow> user_blocks (snd (release_block s ring)) < user_blocks ring"
    using filter_update_length [of _ ring is_user]
    by (auto simp: user_blocks_def release_block_def fresh_cursor_def user_at_def split: option.splits)
qed

lemma wait_Ready:
  "wait_for_block ring i polls = Ready ring' polls' \<Longrightarrow>
     user_at ring' i \<and> (length polls' < length polls \<or> polls' = polls \<and> ring' = ring)"
  by (induction ring i polls rule: wait_for_block.induct) (auto split: if_splits poll_event.splits)

text \<open>
  Every step of the reader uses something up: an event of the future, a filled block, or a frame of the
  block at hand.
\<close>

definition frames_left :: "AfPacketSocket \<Rightarrow> nat" where
  "frames_left s = (case cursor s of None \<Rightarrow> 0 | Some c \<Rightarrow> unat (cur_num_pkts c) - unat (seen c))"

definition ring_order :: "(bool \<times> AfPacketSocket \<times> ring \<times> poll_event list) rel" where
  "ring_order = measures
     [\<lambda>(oc, s, ring, polls). length polls, \<lambda>(oc, s, ring, polls). user_blocks ring,
      \<lambda>(oc, s, ring, polls). if fresh_cursor s ring then 0 else 1, \<lambda>(oc, s, ring, polls). frames_left s]"

lemma wf_ring_order [simp]: "wf ring_order"
  by (simp add: ring_order_def)

lemma trans_ring_order: "trans ring_order"
  unfolding ring_order_def measures_def
  by (rule transI) (auto simp: inv_image_def intro: lexn_transI [THEN transD] lex_transI [THEN transD])

lemma reopen_shrinks:
  assumes "wait_for_block (snd (release_block s ring)) (current_block (fst (release_block s ring))) polls =
    Ready ring' polls'"
  shows "((oc, open_block (fst (release_block s ring)) ring', ring', polls'), (oc, s, ring, polls)) \<in> ring_order"
proof -
  have w: "user_at ring' (current_block (fst (release_block s ring)))"
    "length polls' < length polls \<or> polls' = polls \<and> ring' = snd (release_block s ring)"
    using assms wait_Ready by blast+
  then have "fresh_cursor (open_block (fst (release_block s ring)) ring') ring'"
    by (simp add: fresh_cursor_def open_block_def Let_def)
  with w(2) show ?thesis using release_user_blocks [where s = s and ring = ring] by (auto simp: ring_order_def)
qed

function next_packet ::
  "bool \<Rightarrow> AfPacketSocket \<Rightarrow> ring \<Rightarrow> poll_event list
     \<Rightarrow> next_result \<times> AfPacketSocket \<times> ring \<times> poll_event list" where
  "next_packet oc s ring polls =
     (case has_frame s of
        Some c \<Rightarrow>
          (case take_frame oc (sock_ifindex s) (ring ! cur_base c) c of
             Inl f \<Rightarrow> (Faulted f, s, ring, polls)
           | Inr (packet, c') \<Rightarrow> (Delivered packet, s\<lparr>cursor := Some c'\<rparr>, ring, polls))
      | None \<Rightarrow>
          (case wait_for_block (snd (release_block s ring)) (current_block (fst (release_block s ring))) polls of
             Waiting ring' \<Rightarrow> (Blocked, fst (release_block s ring), ring', [])
           | WaitError e ring' polls' \<Rightarrow> (Failed e, fst (release_block s ring), ring', polls')
           | Ready ring' polls' \<Rightarrow>
               next_packet oc (open_block (fst (release_block s ring)) ring') ring' polls'))"
  by pat_completeness auto

termination
  by (relation ring_order) (simp_all add: reopen_shrinks)

declare next_packet.simps [simp del]

section \<open>What a block holds\<close>

text \<open>
  The packets of a block: \<open>n\<close> frames from byte offset \<open>off\<close>, each leading to the next. \<open>frames_ok\<close> is the
  layout the kernel promises: every header and every packet lies inside the block, and the offsets
  stay in 32 bits.
\<close>

fun frames_ok :: "block_desc \<Rightarrow> nat \<Rightarrow> nat \<Rightarrow> bool" where
  "frames_ok b 0 off \<longleftrightarrow> off < 2 ^ 32"
| "frames_ok b (Suc n) off \<longleftrightarrow>
     off + TPACKET3_HDR_LEN \<le> length (block_bytes b) \<and>
     off + unat (tp_mac (frame_at b off)) + unat (tp_snaplen (frame_at b off)) \<le> length (block_bytes b) \<and>
     off < 2 ^ 32 \<and> frames_ok b n (off + unat (tp_next_offset (frame_at b off)))"

definition frame_packet :: "u32 \<Rightarrow> block_desc \<Rightarrow> nat \<Rightarrow> Packet" where
  "frame_packet ifindex b off =
     (let frame = frame_at b off in
      build_packet (take (unat (tp_snaplen frame)) (drop (off + unat (tp_mac frame)) (block_bytes b)))
        (ucast (tp_sec frame)) (ucast (tp_nsec frame)) ifindex)"

fun frame_packets :: "u32 \<Rightarrow> block_desc \<Rightarrow> nat \<Rightarrow> nat \<Rightarrow> Packet list" where
  "frame_packets ifindex b 0 off = []"
| "frame_packets ifindex b (Suc n) off =
     frame_packet ifindex b off #
     frame_packets ifindex b n (off + unat (tp_next_offset (frame_at b off)))"

definition block_ok :: "block_desc \<Rightarrow> bool" where
  "block_ok b \<longleftrightarrow> frames_ok b (unat (num_pkts b)) (unat (offset_to_first_pkt b))"

definition block_packets :: "u32 \<Rightarrow> block_desc \<Rightarrow> Packet list" where
  "block_packets ifindex b = frame_packets ifindex b (unat (num_pkts b)) (unat (offset_to_first_pkt b))"

lemma frames_ok_off: "frames_ok b n off \<Longrightarrow> off < 2 ^ 32"
  by (cases n) auto

lemma unat_add_small: "unat x + unat y < 2 ^ 32 \<Longrightarrow> unat (x + y :: u32) = unat x + unat y"
  by (simp add: unat_word_ariths)

lemma take_frame_ok:
  assumes "frames_ok b (Suc n) (unat (next_offset c))" "unat (seen c) + Suc n < 2 ^ 32"
  shows "\<exists>c'. take_frame oc ifindex b c = Inr (frame_packet ifindex b (unat (next_offset c)), c') \<and>
    cur_base c' = cur_base c \<and> cur_num_pkts c' = cur_num_pkts c \<and> unat (seen c') = Suc (unat (seen c)) \<and>
    unat (next_offset c') =
      unat (next_offset c) + unat (tp_next_offset (frame_at b (unat (next_offset c))))"
proof -
  let ?off = "unat (next_offset c)" and ?step = "tp_next_offset (frame_at b (unat (next_offset c)))"
  have in_block: "\<not> ?off + TPACKET3_HDR_LEN > length (block_bytes b)"
    "\<not> ?off + unat (tp_mac (frame_at b ?off)) + unat (tp_snaplen (frame_at b ?off)) > length (block_bytes b)"
    using assms(1) by (auto simp: not_less)
  have step: "?off + unat ?step < 2 ^ 32" using assms(1) frames_ok_off by auto
  have "unat (seen c + 1) = Suc (unat (seen c))"
    using unat_add_small [of "seen c" 1] assms(2) by simp
  moreover have "unat (next_offset c + ?step) = ?off + unat ?step" by (rule unat_add_small [OF step])
  moreover have "read_frame ifindex b ?off = Inr (frame_packet ifindex b ?off)"
    using in_block by (simp add: read_frame_def frame_packet_def Let_def)
  ultimately show ?thesis using step by (simp add: take_frame_def Let_def)
qed

section \<open>The ring as a queue\<close>

text \<open>
  Seen from the current block, the ring is a run of blocks the kernel has filled followed by blocks
  it still owns. What is left to deliver is the rest of the current block and the packets of the
  run.
\<close>

definition seen_from :: "AfPacketSocket \<Rightarrow> ring \<Rightarrow> ring" where
  "seen_from s ring = rotate (current_block s) ring"

definition ready_packets :: "u32 \<Rightarrow> ring \<Rightarrow> Packet list" where
  "ready_packets ifindex blocks = concat (map (block_packets ifindex) (takeWhile is_user blocks))"

definition cursor_packets :: "u32 \<Rightarrow> block_desc \<Rightarrow> BlockCursor \<Rightarrow> Packet list" where
  "cursor_packets ifindex b c =
     frame_packets ifindex b (unat (cur_num_pkts c) - unat (seen c)) (unat (next_offset c))"

definition pending_packets :: "AfPacketSocket \<Rightarrow> ring \<Rightarrow> Packet list" where
  "pending_packets s ring =
     (case cursor s of
        None \<Rightarrow> ready_packets (sock_ifindex s) (seen_from s ring)
      | Some c \<Rightarrow> cursor_packets (sock_ifindex s) (hd (seen_from s ring)) c @
                  ready_packets (sock_ifindex s) (tl (seen_from s ring)))"

text \<open>
  The invariant the two sides keep: \<open>kpos\<close> is where the kernel fills next. The reader's cursor is in
  its current block, at a frame of that block.
\<close>

definition run_ok :: "nat \<Rightarrow> AfPacketSocket \<Rightarrow> ring \<Rightarrow> bool" where
  "run_ok kpos s ring \<longleftrightarrow>
     (\<exists>us ks. seen_from s ring = us @ ks \<and> list_all is_user us \<and> list_all (\<lambda>b. \<not> is_user b) ks \<and>
        list_all block_ok us \<and> kpos = (current_block s + length us) mod length ring \<and>
        (cursor s \<noteq> None \<longrightarrow> us \<noteq> []))"

definition cursor_ok :: "AfPacketSocket \<Rightarrow> ring \<Rightarrow> bool" where
  "cursor_ok s ring \<longleftrightarrow>
     (case cursor s of None \<Rightarrow> True
      | Some c \<Rightarrow> cur_base c = current_block s \<and> seen c \<le> cur_num_pkts c \<and>
          frames_ok (ring ! current_block s) (unat (cur_num_pkts c) - unat (seen c)) (unat (next_offset c)))"

definition ring_inv :: "nat \<Rightarrow> AfPacketSocket \<Rightarrow> ring \<Rightarrow> bool" where
  "ring_inv kpos s ring \<longleftrightarrow>
     length ring = sock_block_nr s \<and> current_block s < length ring \<and> run_ok kpos s ring \<and> cursor_ok s ring"

lemma seen_from_hd: "current_block s < length ring \<Longrightarrow> hd (seen_from s ring) = ring ! current_block s"
  unfolding seen_from_def by (simp add: rotate_drop_take hd_append hd_drop_conv_nth)

lemma length_seen_from [simp]: "length (seen_from s ring) = length ring"
  by (simp add: seen_from_def)

lemma rotate_next:
  assumes "i < length xs"
  shows "rotate (Suc i mod length xs) (xs[i := y]) = tl (rotate i xs) @ [y]"
proof -
  have r: "rotate (Suc i) (xs[i := y]) = drop (Suc i) xs @ take i xs @ [y]" if "Suc i < length xs"
    using that by (simp add: rotate_drop_take drop_update_cancel take_Suc_conv_app_nth)
  have t: "tl (rotate i xs) = drop (Suc i) xs @ take i xs"
    using assms by (simp add: rotate_drop_take flip: Cons_nth_drop_Suc)
  show ?thesis
  proof (cases "Suc i < length xs")
    case True
    then show ?thesis using r t by simp
  next
    case False
    with assms have e: "length xs = Suc i" by simp
    have "xs[i := y] = take i xs @ [y]"
      using assms e by (simp add: upd_conv_take_nth_drop)
    with t e show ?thesis by simp
  qed
qed

lemma mod_wrap: "a < n \<Longrightarrow> b < n \<Longrightarrow> (a + b) mod n = (if a + b < n then a + b else a + b - (n :: nat))"
  by (simp add: mod_if)

lemma mod_same: "i < n \<Longrightarrow> j < n \<Longrightarrow> m < n \<Longrightarrow> (i + j) mod n = (i + m) mod n \<longleftrightarrow> j = (m :: nat)"
  by (simp only: mod_wrap) (simp split: if_splits, linarith)

lemma rotate_update:
  assumes "i < length xs" "m < length xs"
  shows "rotate i (xs[(i + m) mod length xs := y]) = (rotate i xs)[m := y]"
proof (rule nth_equalityI)
  fix j
  assume "j < length (rotate i (xs[(i + m) mod length xs := y]))"
  then have j: "j < length xs" by simp
  have lt: "(i + k) mod length xs < length xs" for k using assms by (auto intro: mod_less_divisor)
  have "(i + j) mod length xs = (i + m) mod length xs \<longleftrightarrow> j = m"
    using assms j by (intro mod_same)
  then show "rotate i (xs[(i + m) mod length xs := y]) ! j = (rotate i xs)[m := y] ! j"
    using j assms lt by (auto simp: nth_rotate nth_list_update)
qed simp

lemma takeWhile_run:
  "list_all P us \<Longrightarrow> list_all (\<lambda>b. \<not> P b) ks \<Longrightarrow> takeWhile P (us @ ks) = us"
  by (induction us) (auto simp: takeWhile_eq_Nil_iff, cases ks, auto)

lemma ready_run:
  "list_all is_user us \<Longrightarrow> list_all (\<lambda>b. \<not> is_user b) ks \<Longrightarrow>
     ready_packets ifindex (us @ ks) = concat (map (block_packets ifindex) us)"
  by (simp add: ready_packets_def takeWhile_run)

section \<open>The steps of the loop keep the invariant\<close>

lemma deliver_step:
  assumes inv: "ring_inv kpos s ring" and c: "has_frame s = Some c"
  shows "\<exists>p c'. take_frame oc (sock_ifindex s) (ring ! cur_base c) c = Inr (p, c') \<and>
    pending_packets s ring = p # pending_packets (s\<lparr>cursor := Some c'\<rparr>) ring \<and>
    ring_inv kpos (s\<lparr>cursor := Some c'\<rparr>) ring"
proof -
  let ?b = "ring ! current_block s"
  have cur: "cursor s = Some c" and lt: "seen c < cur_num_pkts c"
    using c by (auto simp: has_frame_def split: option.splits if_splits)
  have base: "cur_base c = current_block s" "current_block s < length ring"
    and frames: "frames_ok ?b (unat (cur_num_pkts c) - unat (seen c)) (unat (next_offset c))"
    using inv cur by (auto simp: ring_inv_def cursor_ok_def)
  define n where "n = unat (cur_num_pkts c) - Suc (unat (seen c))"
  have lt': "unat (seen c) < unat (cur_num_pkts c)" using lt by (simp add: word_less_nat_alt)
  then have n: "unat (cur_num_pkts c) - unat (seen c) = Suc n" by (simp add: n_def)
  have "unat (seen c) + Suc n < 2 ^ 32"
    using lt' unat_below [of "cur_num_pkts c"] by (simp add: n_def)
  then obtain c' where c': "take_frame oc (sock_ifindex s) ?b c =
      Inr (frame_packet (sock_ifindex s) ?b (unat (next_offset c)), c')"
    "cur_base c' = cur_base c" "cur_num_pkts c' = cur_num_pkts c" "unat (seen c') = Suc (unat (seen c))"
    "unat (next_offset c') = unat (next_offset c) + unat (tp_next_offset (frame_at ?b (unat (next_offset c))))"
    using take_frame_ok [of ?b n c oc "sock_ifindex s"] frames n by auto
  have n': "unat (cur_num_pkts c') - unat (seen c') = n" using c' by (simp add: n_def)
  have hd: "hd (seen_from s ring) = ?b" using base(2) by (rule seen_from_hd)
  have same: "seen_from (s\<lparr>cursor := Some c'\<rparr>) ring = seen_from s ring" by (simp add: seen_from_def)
  have "cursor_ok (s\<lparr>cursor := Some c'\<rparr>) ring"
    using frames c' base lt' n n' by (simp add: cursor_ok_def word_le_nat_alt)
  moreover obtain us ks where "seen_from s ring = us @ ks" "list_all is_user us"
    "list_all (\<lambda>b. \<not> is_user b) ks" "list_all block_ok us"
    "kpos = (current_block s + length us) mod length ring" "us \<noteq> []"
    using inv cur unfolding ring_inv_def run_ok_def by blast
  then have "run_ok kpos (s\<lparr>cursor := Some c'\<rparr>) ring"
    unfolding run_ok_def same by (intro exI [of _ us] exI [of _ ks]) simp
  ultimately have "ring_inv kpos (s\<lparr>cursor := Some c'\<rparr>) ring" using inv by (simp add: ring_inv_def)
  moreover have "pending_packets s ring =
      frame_packet (sock_ifindex s) ?b (unat (next_offset c)) # pending_packets (s\<lparr>cursor := Some c'\<rparr>) ring"
    using cur hd same n n' c'(5) by (simp add: pending_packets_def cursor_packets_def)
  ultimately show ?thesis using c'(1) base(1) by auto
qed

lemma release_step:
  assumes inv: "ring_inv kpos s ring" and c: "has_frame s = None"
  shows "ring_inv kpos (fst (release_block s ring)) (snd (release_block s ring)) \<and>
    cursor (fst (release_block s ring)) = None \<and>
    pending_packets (fst (release_block s ring)) (snd (release_block s ring)) = pending_packets s ring"
proof (cases "cursor s")
  case None
  then show ?thesis using inv by (simp add: release_block_def)
next
  case (Some c)
  let ?b' = "(ring ! current_block s)\<lparr>block_status := TP_STATUS_KERNEL\<rparr>"
  let ?s' = "s\<lparr>cursor := None, current_block := (current_block s + 1) mod sock_block_nr s\<rparr>"
  let ?ring' = "ring[current_block s := ?b']"
  have base: "cur_base c = current_block s" and lt: "current_block s < length ring"
    and nr: "sock_block_nr s = length ring" using inv Some by (auto simp: ring_inv_def cursor_ok_def)
  have r: "release_block s ring = (?s', ?ring')" using Some base by (simp add: release_block_def)
  obtain us ks where run: "seen_from s ring = us @ ks" "list_all is_user us" "list_all (\<lambda>b. \<not> is_user b) ks"
    "list_all block_ok us" "kpos = (current_block s + length us) mod length ring" "us \<noteq> []"
    using inv Some by (auto simp: ring_inv_def run_ok_def)
  then obtain b us' where us: "us = b # us'" by (cases us) auto
  have "seen_from ?s' ?ring' = tl (seen_from s ring) @ [?b']"
    using rotate_next [OF lt, of ?b'] by (simp add: seen_from_def nr)
  then have from': "seen_from ?s' ?ring' = us' @ (ks @ [?b'])" using run(1) us by simp
  have ks': "list_all (\<lambda>b. \<not> is_user b) (ks @ [?b'])" using run(3) by simp
  have "kpos = (current_block ?s' + length us') mod length ?ring'"
    using run(5) us by (simp add: nr mod_add_left_eq)
  then have "run_ok kpos ?s' ?ring'"
    unfolding run_ok_def using from' run(2,4) us ks' by (intro exI [of _ us'] exI [of _ "ks @ [?b']"]) simp
  moreover have "current_block ?s' < length ?ring'" using lt by (simp add: nr) (metis mod_less_divisor gr_zeroI not_less0)
  ultimately have "ring_inv kpos ?s' ?ring'" by (simp add: ring_inv_def cursor_ok_def nr)
  moreover have "\<not> seen c < cur_num_pkts c" using c Some by (simp add: has_frame_def split: if_splits)
  then have "unat (cur_num_pkts c) - unat (seen c) = 0" by (simp add: word_less_nat_alt)
  then have "pending_packets ?s' ?ring' = pending_packets s ring"
    using Some from' run us ks' by (simp add: pending_packets_def cursor_packets_def ready_run)
  ultimately show ?thesis by (simp add: r)
qed

lemma open_step:
  assumes inv: "ring_inv kpos s ring" and c: "cursor s = None" and user: "user_at ring (current_block s)"
  shows "ring_inv kpos (open_block s ring) ring \<and> pending_packets (open_block s ring) ring = pending_packets s ring"
proof -
  let ?b = "ring ! current_block s" and ?s' = "open_block s ring"
  have lt: "current_block s < length ring" using inv by (simp add: ring_inv_def)
  obtain us ks where run: "seen_from s ring = us @ ks" "list_all is_user us" "list_all (\<lambda>b. \<not> is_user b) ks"
    "list_all block_ok us" "kpos = (current_block s + length us) mod length ring"
    using inv by (auto simp: ring_inv_def run_ok_def)
  have hd: "hd (us @ ks) = ?b" using seen_from_hd [OF lt] run(1) by simp
  have "us @ ks \<noteq> []" using lt run(1) length_seen_from [of s ring] by auto
  moreover have "is_user ?b" using user by (simp add: user_at_def)
  ultimately have "us \<noteq> []" using hd run(3) by (cases us; cases ks) auto
  then obtain us' where us: "us = ?b # us'" using hd by (cases us) auto
  have same: "seen_from ?s' ring = us @ ks" "sock_ifindex ?s' = sock_ifindex s"
    using run(1) by (simp_all add: seen_from_def open_block_def Let_def)
  have "run_ok kpos ?s' ring"
    unfolding run_ok_def using same run us
    by (intro exI [of _ us] exI [of _ ks]) (simp add: open_block_def Let_def)
  moreover have "cursor_ok ?s' ring"
    using run(4) us by (simp add: cursor_ok_def open_block_def Let_def block_ok_def)
  ultimately have "ring_inv kpos ?s' ring" using inv by (simp add: ring_inv_def open_block_def Let_def)
  moreover have "pending_packets s ring = concat (map (block_packets (sock_ifindex s)) us)"
    using c run by (simp add: pending_packets_def ready_run)
  moreover have "pending_packets ?s' ring =
      block_packets (sock_ifindex s) ?b @ ready_packets (sock_ifindex s) (us' @ ks)"
    using same us by (simp add: pending_packets_def open_block_def Let_def cursor_packets_def block_packets_def)
  ultimately show ?thesis using us run by (simp add: ready_run)
qed

lemma idle_step:
  assumes "ring_inv kpos s ring" "cursor s = None" "\<not> user_at ring (current_block s)"
  shows "pending_packets s ring = []"
proof -
  have lt: "current_block s < length ring" using assms(1) by (simp add: ring_inv_def)
  then have "\<not> is_user (hd (seen_from s ring))"
    using assms(3) by (simp add: seen_from_hd user_at_def)
  then have "takeWhile is_user (seen_from s ring) = []" by (cases "seen_from s ring") auto
  then show ?thesis using assms(2) by (simp add: pending_packets_def ready_packets_def)
qed

section \<open>A call of next_packet\<close>

lemma wait_user: "user_at ring i \<Longrightarrow> wait_for_block ring i polls = Ready ring polls"
  by (cases polls) auto

lemma next_packet_delivers:
  assumes "ring_inv kpos s ring" "pending_packets s ring = p # ps"
  shows "\<exists>s' ring'. next_packet oc s ring polls = (Delivered p, s', ring', polls) \<and>
    ring_inv kpos s' ring' \<and> pending_packets s' ring' = ps"
  using assms
proof (induction oc s ring polls rule: next_packet.induct)
  case (1 oc s ring polls)
  show ?case
  proof (cases "has_frame s")
    case None
    let ?s' = "fst (release_block s ring)" and ?ring' = "snd (release_block s ring)"
    note rel = release_step [OF "1.prems"(1) None]
    then have user: "user_at ?ring' (current_block ?s')"
      using idle_step [of kpos ?s' ?ring'] "1.prems"(2) by auto
    note wait = wait_user [OF user, of polls]
    have "ring_inv kpos (open_block ?s' ?ring') ?ring'" "pending_packets (open_block ?s' ?ring') ?ring' = p # ps"
      using open_step [of kpos ?s' ?ring'] rel user "1.prems"(2) by simp_all
    with "1.IH" [OF None wait] show ?thesis by (subst next_packet.simps) (simp add: None wait)
  next
    case (Some c)
    then obtain q c' where "take_frame oc (sock_ifindex s) (ring ! cur_base c) c = Inr (q, c')"
      "pending_packets s ring = q # pending_packets (s\<lparr>cursor := Some c'\<rparr>) ring"
      "ring_inv kpos (s\<lparr>cursor := Some c'\<rparr>) ring" using deliver_step [OF "1.prems"(1)] by blast
    with Some "1.prems"(2) show ?thesis by (subst next_packet.simps) auto
  qed
qed

lemma next_packet_blocks:
  assumes "ring_inv kpos s ring" "pending_packets s ring = []"
  shows "\<exists>s' ring'. next_packet oc s ring [] = (Blocked, s', ring', []) \<and>
    ring_inv kpos s' ring' \<and> pending_packets s' ring' = [] \<and> cursor s' = None"
  using assms
proof (induction oc s ring "[] :: poll_event list" rule: next_packet.induct)
  case (1 oc s ring)
  have none: "has_frame s = None"
    using deliver_step [OF "1.prems"(1), of _ oc] "1.prems"(2) by (cases "has_frame s") auto
  let ?s' = "fst (release_block s ring)" and ?ring' = "snd (release_block s ring)"
  note rel = release_step [OF "1.prems"(1) none]
  show ?case
  proof (cases "user_at ?ring' (current_block ?s')")
    case True
    note wait = wait_user [OF True, of "[]"]
    have "ring_inv kpos (open_block ?s' ?ring') ?ring'" "pending_packets (open_block ?s' ?ring') ?ring' = []"
      using open_step [of kpos ?s' ?ring'] rel True "1.prems"(2) by simp_all
    with "1.hyps" [OF none wait] show ?thesis by (subst next_packet.simps) (simp add: none True)
  next
    case False
    then show ?thesis using rel "1.prems"(2) by (subst next_packet.simps) (simp add: none)
  qed
qed

lemma wait_Waiting: "wait_for_block ring i [] = Waiting ring' \<Longrightarrow> ring' = ring \<and> \<not> user_at ring i"
  by (auto split: if_splits)

lemma wait_extend:
  "wait_for_block ring i [] = Waiting ring' \<Longrightarrow>
     wait_for_block ring i (PollReturned r # es) = wait_for_block r i es \<and>
     wait_for_block ring i (PollFailed m # es) = WaitError (Io (''poll: '' @ m)) ring es"
  by (auto split: if_splits)

lemma blocked_resumes:
  assumes "next_packet oc s ring [] = (Blocked, s', ring', [])"
  shows "next_packet oc s ring (PollReturned r # es) = next_packet oc s' r es \<and>
    next_packet oc s ring (PollFailed m # es) = (Failed (Io (''poll: '' @ m)), s', ring', es)"
  using assms
proof (induction oc s ring "[] :: poll_event list" rule: next_packet.induct)
  case (1 oc s ring)
  let ?t = "fst (release_block s ring)" and ?r = "snd (release_block s ring)"
  have none: "has_frame s = None"
    using "1.prems" by (subst (asm) next_packet.simps) (auto split: option.splits sum.splits)
  show ?case
  proof (cases "user_at ?r (current_block ?t)")
    case True
    note wait = wait_user [OF True]
    have "next_packet oc (open_block ?t ?r) ?r [] = (Blocked, s', ring', [])"
      using "1.prems" by (subst (asm) next_packet.simps) (simp add: none True)
    with "1.hyps" [OF none wait] show ?thesis
      by (subst next_packet.simps, subst (2) next_packet.simps) (simp add: none True)
  next
    case False
    then have s': "s' = ?t" "ring' = ?r"
      using "1.prems" by (subst (asm) next_packet.simps; simp add: none)+
    have "cursor ?t = None" using none by (simp add: release_block_def split: option.split)
    then have t: "has_frame ?t = None" "release_block ?t r = (?t, r)"
      by (simp_all add: has_frame_def release_block_def)
    show ?thesis unfolding s'
      by (subst (1 2 3) next_packet.simps, unfold none t fst_conv snd_conv option.case)
        (simp add: False \<open>ring' = ?r\<close>)
  qed
qed

section \<open>The reader and the kernel\<close>

text \<open>
  The whole system. The kernel fills the block at its position when that block is its own, with
  frames laid out as it promises, hands it over and moves on; the reader calls \<open>next_packet\<close>, which
  delivers a packet or runs until it has to poll. \<open>produced\<close> and \<open>delivered\<close> are the histories of the two
  sides. \<open>fault\<close> records a fault of the reader.
\<close>

record capture =
  sock :: AfPacketSocket
  shared :: ring
  kernel_pos :: nat
  produced :: "Packet list"
  delivered :: "Packet list"
  fault :: bool

inductive capture_step :: "bool \<Rightarrow> capture \<Rightarrow> capture \<Rightarrow> bool" for oc where
  kernel_fills:
    "\<not> is_user (shared c ! kernel_pos c) \<Longrightarrow> is_user b \<Longrightarrow> block_ok b \<Longrightarrow>
     capture_step oc c (c\<lparr>shared := (shared c)[kernel_pos c := b],
       kernel_pos := (kernel_pos c + 1) mod length (shared c),
       produced := produced c @ block_packets (sock_ifindex (sock c)) b\<rparr>)"
| reader_delivers:
    "next_packet oc (sock c) (shared c) [] = (Delivered p, s', ring', []) \<Longrightarrow>
     capture_step oc c (c\<lparr>sock := s', shared := ring', delivered := delivered c @ [p]\<rparr>)"
| reader_waits:
    "next_packet oc (sock c) (shared c) [] = (Blocked, s', ring', []) \<Longrightarrow>
     capture_step oc c (c\<lparr>sock := s', shared := ring'\<rparr>)"
| reader_faults:
    "next_packet oc (sock c) (shared c) [] = (Faulted f, s', ring', []) \<Longrightarrow>
     capture_step oc c (c\<lparr>sock := s', shared := ring', fault := True\<rparr>)"

inductive_cases capture_stepE: "capture_step oc c c'"

definition capture_init :: "AfPacketSocket \<Rightarrow> ring \<Rightarrow> capture" where
  "capture_init s ring = \<lparr>sock = s, shared = ring, kernel_pos = 0, produced = [], delivered = [], fault = False\<rparr>"

text \<open>The socket as \<open>open_with_options\<close> returns it, with a ring of which the kernel owns every block.\<close>

definition fresh_socket :: "AfPacketSocket \<Rightarrow> ring \<Rightarrow> bool" where
  "fresh_socket s ring \<longleftrightarrow>
     ring \<noteq> [] \<and> length ring = sock_block_nr s \<and> current_block s = 0 \<and> cursor s = None \<and>
     list_all (\<lambda>b. \<not> is_user b) ring"

inductive reachable :: "bool \<Rightarrow> capture \<Rightarrow> capture \<Rightarrow> bool" for oc c0 where
  reachable_init: "reachable oc c0 c0"
| reachable_step: "reachable oc c0 c \<Longrightarrow> capture_step oc c c' \<Longrightarrow> reachable oc c0 c'"

definition capture_inv :: "capture \<Rightarrow> bool" where
  "capture_inv c \<longleftrightarrow>
     ring_inv (kernel_pos c) (sock c) (shared c) \<and> kernel_pos c < length (shared c) \<and>
     produced c = delivered c @ pending_packets (sock c) (shared c) \<and> \<not> fault c"

lemma fill_step:
  assumes inv: "ring_inv kpos s ring" and lt: "kpos < length ring" and own: "\<not> is_user (ring ! kpos)"
    and b: "is_user b" "block_ok b"
  shows "ring_inv ((kpos + 1) mod length ring) s (ring[kpos := b]) \<and>
    pending_packets s (ring[kpos := b]) = pending_packets s ring @ block_packets (sock_ifindex s) b"
proof -
  obtain us ks where run: "seen_from s ring = us @ ks" "list_all is_user us" "list_all (\<lambda>b. \<not> is_user b) ks"
    "list_all block_ok us" "kpos = (current_block s + length us) mod length ring" "cursor s \<noteq> None \<longrightarrow> us \<noteq> []"
    using inv by (auto simp: ring_inv_def run_ok_def)
  have cur: "current_block s < length ring" using inv by (simp add: ring_inv_def)
  have len: "length us + length ks = length ring" using run(1) length_seen_from [of s ring] by (simp flip: length_append)
  have "ks \<noteq> []"
  proof
    assume "ks = []"
    then have "kpos = current_block s" using run(5) len cur by simp
    moreover have "us \<noteq> []" using \<open>ks = []\<close> len cur by auto
    then have "is_user (hd (seen_from s ring))" using run(1,2) by (cases us) auto
    ultimately show False using own seen_from_hd [OF cur] by simp
  qed
  then obtain k ks' where ks: "ks = k # ks'" by (cases ks) auto
  then have m: "length us < length ring" using len by simp
  have from': "seen_from s (ring[kpos := b]) = (us @ [b]) @ ks'"
    using rotate_update [OF cur m, of b] run(1,5) ks by (simp add: seen_from_def)
  have ks': "list_all (\<lambda>b. \<not> is_user b) ks'" using run(3) ks by simp
  have "(kpos + 1) mod length ring = (current_block s + length (us @ [b])) mod length ring"
    using run(5) by (simp add: mod_Suc_eq)
  then have "run_ok ((kpos + 1) mod length ring) s (ring[kpos := b])"
    unfolding run_ok_def using from' run(2,4) b ks'
    by (intro exI [of _ "us @ [b]"] exI [of _ ks']) simp
  moreover have "cursor_ok s (ring[kpos := b])"
  proof (cases "cursor s")
    case (Some c)
    then have "hd (seen_from s ring) = hd us" "us \<noteq> []" using run(1,6) by auto
    then have "is_user (ring ! current_block s)" using run(2) seen_from_hd [OF cur] by (cases us) auto
    then have "kpos \<noteq> current_block s" using own by auto
    then show ?thesis using inv Some by (simp add: ring_inv_def cursor_ok_def)
  qed (simp add: cursor_ok_def)
  ultimately have "ring_inv ((kpos + 1) mod length ring) s (ring[kpos := b])"
    using inv by (simp add: ring_inv_def)
  moreover have "pending_packets s (ring[kpos := b]) = pending_packets s ring @ block_packets (sock_ifindex s) b"
  proof (cases "cursor s")
    case None
    then show ?thesis
      using from' run ks' b ready_run [of "us @ [b]" ks'] ready_run [of us ks] by (simp add: pending_packets_def)
  next
    case (Some c)
    then obtain u us' where us: "us = u # us'" using run(6) by (cases us) auto
    then show ?thesis
      using Some from' run ks' b ready_run [of "us' @ [b]" ks'] ready_run [of us' ks]
      by (simp add: pending_packets_def)
  qed
  ultimately show ?thesis ..
qed

lemma next_packet_ifindex:
  "next_packet oc s ring polls = (r, s', ring', polls') \<Longrightarrow>
     sock_ifindex s' = sock_ifindex s \<and> sock_block_nr s' = sock_block_nr s"
proof (induction oc s ring polls rule: next_packet.induct)
  case (1 oc s ring polls)
  have same: "sock_ifindex (fst (release_block s ring)) = sock_ifindex s"
    "sock_block_nr (fst (release_block s ring)) = sock_block_nr s"
    by (simp_all add: release_block_def split: option.split)
  show ?case
  proof (cases "has_frame s")
    case None
    then show ?thesis
      using "1.prems" "1.IH" [OF None] same
      by (subst (asm) (1) next_packet.simps)
        (auto simp: open_block_def Let_def split: wait_result.splits)
  next
    case (Some c)
    then show ?thesis
      using "1.prems" by (subst (asm) (1) next_packet.simps) (auto split: sum.splits)
  qed
qed

lemma capture_step_inv:
  assumes "capture_step oc c c'" "capture_inv c"
  shows "capture_inv c'"
  using assms
proof (induction rule: capture_step.induct)
  case (kernel_fills c b)
  then show ?case
    using fill_step [of "kernel_pos c" "sock c" "shared c" b]
    by (auto simp: capture_inv_def intro: mod_less_divisor)
next
  case (reader_delivers c p s' ring')
  then have inv: "ring_inv (kernel_pos c) (sock c) (shared c)" by (simp add: capture_inv_def)
  show ?case
  proof (cases "pending_packets (sock c) (shared c)")
    case Nil
    then show ?thesis using next_packet_blocks [OF inv, of oc] reader_delivers.hyps by auto
  next
    case (Cons q ps)
    then have "q = p" "ring_inv (kernel_pos c) s' ring'" "pending_packets s' ring' = ps"
      using next_packet_delivers [OF inv Cons, of oc "[]"] reader_delivers.hyps by auto
    moreover have "length ring' = length (shared c)"
      using inv calculation(2) next_packet_ifindex [OF reader_delivers.hyps] by (simp add: ring_inv_def)
    ultimately show ?thesis using reader_delivers.prems Cons by (simp add: capture_inv_def)
  qed
next
  case (reader_waits c s' ring')
  then have inv: "ring_inv (kernel_pos c) (sock c) (shared c)" by (simp add: capture_inv_def)
  have none: "pending_packets (sock c) (shared c) = []"
    using next_packet_delivers [OF inv, of _ _ oc "[]"] reader_waits.hyps
    by (cases "pending_packets (sock c) (shared c)") auto
  then have "ring_inv (kernel_pos c) s' ring'" "pending_packets s' ring' = []"
    using next_packet_blocks [OF inv none, of oc] reader_waits.hyps by auto
  moreover have "length ring' = length (shared c)"
    using inv calculation(1) next_packet_ifindex [OF reader_waits.hyps] by (simp add: ring_inv_def)
  ultimately show ?case using reader_waits.prems none by (simp add: capture_inv_def)
next
  case (reader_faults c f s' ring')
  then have inv: "ring_inv (kernel_pos c) (sock c) (shared c)" by (simp add: capture_inv_def)
  show ?case
    using next_packet_delivers [OF inv, of _ _ oc "[]"] next_packet_blocks [OF inv, of oc] reader_faults.hyps
    by (cases "pending_packets (sock c) (shared c)") auto
qed

lemma capture_init_inv:
  assumes "fresh_socket s ring"
  shows "capture_inv (capture_init s ring)"
proof -
  have pos: "0 < sock_block_nr s" using assms unfolding fresh_socket_def by (metis length_greater_0_conv)
  have "ring_inv 0 s ring"
    using assms pos unfolding ring_inv_def run_ok_def fresh_socket_def cursor_ok_def seen_from_def
    by (intro conjI exI [of _ "[] :: ring"] exI [of _ ring]) auto
  moreover have "\<not> user_at ring (current_block s)"
    using assms by (auto simp: fresh_socket_def user_at_def list_all_length)
  then have "pending_packets s ring = []"
    using idle_step [OF \<open>ring_inv 0 s ring\<close>] assms by (simp add: fresh_socket_def)
  ultimately show ?thesis using assms pos by (simp add: capture_inv_def capture_init_def fresh_socket_def)
qed

lemma reachable_inv:
  assumes "reachable oc (capture_init s ring) c" "fresh_socket s ring"
  shows "capture_inv c"
  using assms(1) by induction (use capture_init_inv [OF assms(2)] capture_step_inv in blast)+

section \<open>Properties\<close>

text \<open>
  C8. The ring delivers every packet the kernel put into it exactly once and in order, whatever the
  interleaving of the two sides: in every reachable state the packets delivered so far followed by
  those still in the ring are the packets produced, and no call has read outside a block or
  overflowed an offset.
\<close>

theorem ring_is_fifo:
  assumes "fresh_socket s ring" "reachable oc (capture_init s ring) c"
  shows "produced c = delivered c @ pending_packets (sock c) (shared c) \<and> \<not> fault c"
  using reachable_inv [OF assms(2,1)] by (simp add: capture_inv_def)

text \<open>A ring of two blocks, and a block with one packet of three bytes, for the witnesses.\<close>

definition demo_block :: "u32 \<Rightarrow> block_desc" where
  "demo_block status = \<lparr>block_status = status, num_pkts = 1, offset_to_first_pkt = 0,
     frame_at = (\<lambda>_. \<lparr>tp_next_offset = 0, tp_sec = 7, tp_nsec = 5000, tp_snaplen = 3, tp_mac = 48\<rparr>),
     block_bytes = replicate 48 0 @ [1, 2, 3]\<rparr>"

definition demo_socket :: AfPacketSocket where
  "demo_socket = \<lparr>sock_ifindex = 2, sock_ring_size = 8192, sock_block_size = 4096, sock_block_nr = 2,
     current_block = 0, cursor = None, kernel_filter_attached = False\<rparr>"

definition demo_ring :: ring where
  "demo_ring = [demo_block TP_STATUS_KERNEL, demo_block TP_STATUS_KERNEL]"

lemma demo_facts:
  "\<not> is_user (demo_block TP_STATUS_KERNEL)" "is_user (demo_block TP_STATUS_USER)" "block_ok (demo_block st)"
  "fresh_socket demo_socket demo_ring"
  by (simp_all add: is_user_def demo_block_def demo_ring_def TP_STATUS_KERNEL_def TP_STATUS_USER_def
      block_ok_def TPACKET3_HDR_LEN_def fresh_socket_def demo_socket_def)

lemma demo_fill:
  "reachable oc (capture_init demo_socket demo_ring) (capture_init demo_socket demo_ring
     \<lparr>shared := demo_ring[0 := demo_block TP_STATUS_USER], kernel_pos := 1,
      produced := block_packets 2 (demo_block TP_STATUS_USER)\<rparr>)"
  using reachable_step [OF reachable_init, of oc "capture_init demo_socket demo_ring",
      OF kernel_fills [of "capture_init demo_socket demo_ring" "demo_block TP_STATUS_USER" oc]] demo_facts
  by (simp add: capture_init_def demo_ring_def demo_socket_def)

theorem ring_is_fifo_witness:
  "\<exists>c. reachable True (capture_init demo_socket demo_ring) c \<and> produced c \<noteq> [] \<and>
     produced c = delivered c @ pending_packets (sock c) (shared c)"
proof -
  let ?c = "capture_init demo_socket demo_ring\<lparr>shared := demo_ring[0 := demo_block TP_STATUS_USER],
    kernel_pos := 1, produced := block_packets 2 (demo_block TP_STATUS_USER)\<rparr>"
  have "produced ?c \<noteq> []" by (simp add: block_packets_def demo_block_def)
  moreover have "produced ?c = delivered ?c @ pending_packets (sock ?c) (shared ?c)"
    using ring_is_fifo [OF demo_facts(4) demo_fill] by blast
  ultimately show ?thesis using demo_fill [of True] by blast
qed

text \<open>
  C9. A call of \<open>next_packet\<close> when a packet is in the ring returns it at once: the first one pending,
  without polling, across any number of empty blocks, and leaving the rest pending.
\<close>

theorem next_packet_prompt:
  assumes "fresh_socket s ring" "reachable oc (capture_init s ring) c"
    "pending_packets (sock c) (shared c) = p # ps"
  shows "\<exists>s' ring'. next_packet oc (sock c) (shared c) polls = (Delivered p, s', ring', polls) \<and>
    pending_packets s' ring' = ps"
proof -
  have "ring_inv (kernel_pos c) (sock c) (shared c)"
    using reachable_inv [OF assms(2,1)] by (simp add: capture_inv_def)
  from next_packet_delivers [OF this assms(3)] show ?thesis by blast
qed

theorem next_packet_prompt_witness:
  "\<exists>(c :: capture) p s' ring'. next_packet True (sock c) (shared c) [PollFailed ''EINTR''] =
     (Delivered p, s', ring', [PollFailed ''EINTR'']) \<and> pkt_data p = [1, 2, 3]"
proof -
  let ?c = "capture_init demo_socket demo_ring\<lparr>shared := demo_ring[0 := demo_block TP_STATUS_USER],
    kernel_pos := 1, produced := block_packets 2 (demo_block TP_STATUS_USER)\<rparr>"
  have eq: "produced ?c = delivered ?c @ pending_packets (sock ?c) (shared ?c)"
    using reachable_inv [OF demo_fill demo_facts(4)] by (simp add: capture_inv_def)
  have "block_packets 2 (demo_block TP_STATUS_USER) = [frame_packet 2 (demo_block TP_STATUS_USER) 0]"
    by (simp add: block_packets_def demo_block_def)
  with eq have "pending_packets (sock ?c) (shared ?c) = frame_packet 2 (demo_block TP_STATUS_USER) 0 # []"
    by (simp add: capture_init_def)
  from next_packet_prompt [OF demo_facts(4) demo_fill this, of True "[PollFailed ''EINTR'']"]
  obtain s' ring' where "next_packet True (sock ?c) (shared ?c) [PollFailed ''EINTR''] =
    (Delivered (frame_packet 2 (demo_block TP_STATUS_USER) 0), s', ring', [PollFailed ''EINTR''])" by blast
  moreover have "pkt_data (frame_packet 2 (demo_block TP_STATUS_USER) 0) = [1, 2, 3]"
    by (simp add: frame_packet_def demo_block_def build_packet_def Packet_new_def)
  ultimately show ?thesis by blast
qed

text \<open>
  C16. Waiting is not lossy: a call that reaches a poll goes on, when the poll returns, exactly like a
  new call on the ring as it is then; and when the poll fails the call returns that error and leaves
  the socket ready for the next one.
\<close>

theorem next_packet_resumes:
  assumes "next_packet oc s ring [] = (Blocked, s', ring', [])"
  shows "next_packet oc s ring (PollReturned r # es) = next_packet oc s' r es \<and>
    next_packet oc s ring (PollFailed m # es) = (Failed (Io (''poll: '' @ m)), s', ring', es)"
  using assms by (rule blocked_resumes)

theorem next_packet_resumes_witness:
  "\<exists>s' ring'. next_packet True demo_socket demo_ring [PollFailed ''EINTR''] =
     (Failed (Io ''poll: EINTR''), s', ring', [])"
proof -
  have "ring_inv 0 demo_socket demo_ring \<and> pending_packets demo_socket demo_ring = []"
    using capture_init_inv [OF demo_facts(4)] by (simp add: capture_inv_def capture_init_def)
  then obtain s' ring' where "next_packet True demo_socket demo_ring [] = (Blocked, s', ring', [])"
    using next_packet_blocks by blast
  from next_packet_resumes [OF this, of _ "[]" "''EINTR''"] show ?thesis by auto
qed

section \<open>The ring as a packet source\<close>

text \<open>A call that does not get past a poll hands out nothing.\<close>

definition ring_next :: "bool \<Rightarrow> nat \<times> AfPacketSocket \<times> ring \<Rightarrow> (Packet \<times> nat \<times> AfPacketSocket \<times> ring) option" where
  "ring_next oc = (\<lambda>(kpos, s, ring).
     (case next_packet oc s ring [] of
        (Delivered p, s', ring', _) \<Rightarrow> Some (p, kpos, s', ring')
      | _ \<Rightarrow> None))"

interpretation ring_source: packet_source
  "\<lambda>(kpos, s, ring). ring_inv kpos s ring" "\<lambda>(kpos, s, ring). pending_packets s ring" "ring_next oc" for oc
proof (unfold_locales, goal_cases)
  case (1 s p ps)
  then show ?case
    using next_packet_delivers [of "fst s" "fst (snd s)" "snd (snd s)" p ps oc "[]"]
    by (auto simp: ring_next_def split_beta)
next
  case (2 s)
  then show ?case
    using next_packet_blocks [of "fst s" "fst (snd s)" "snd (snd s)" oc]
    by (auto simp: ring_next_def split_beta)
qed



section \<open>All the calls of a capture\<close>

text \<open>
  The results of calling \<open>next_packet\<close> again and again, as the capture loop does: it stops at the first
  error, and where a call is still waiting when the events ahead are used up. It ends because every
  packet delivered shrinks what is left.
\<close>

lemma less_2p: "unat (w :: u32) < 2 ^ 32"
  by (rule order.strict_trans2 [OF unsigned_less]) simp

lemma take_frame_shrinks:
  assumes "has_frame s = Some c" "take_frame oc (sock_ifindex s) b c = Inr (p, c')"
  shows "((oc, s\<lparr>cursor := Some c'\<rparr>, ring, polls), (oc, s, ring, polls)) \<in> ring_order"
proof -
  have c: "cursor s = Some c" "seen c < cur_num_pkts c"
    using assms(1) by (auto simp: has_frame_def split: option.splits if_splits)
  have c': "cur_base c' = cur_base c" "cur_num_pkts c' = cur_num_pkts c" "seen c' = seen c + 1"
    using assms(2)
    by (cases "read_frame (sock_ifindex s) b (unat (next_offset c))";
        auto simp: take_frame_def Let_def split: if_splits)+
  have "unat (seen c) + 1 < 2 ^ 32"
    using c(2) less_2p [of "cur_num_pkts c"] unfolding word_less_nat_alt by linarith
  then have "unat (seen c + 1) = Suc (unat (seen c))" using unat_add_small [of "seen c" 1] by simp
  then show ?thesis using c c' by (simp add: ring_order_def fresh_cursor_def frames_left_def word_less_nat_alt)
qed

lemma next_packet_shrinks:
  "next_packet oc s ring polls = (Delivered p, s', ring', polls') \<Longrightarrow>
     ((oc, s', ring', polls'), (oc, s, ring, polls)) \<in> ring_order"
proof (induction oc s ring polls rule: next_packet.induct)
  case (1 oc s ring polls)
  show ?case
  proof (cases "has_frame s")
    case None
    then obtain ring1 polls1 where
      wait: "wait_for_block (snd (release_block s ring)) (current_block (fst (release_block s ring))) polls = Ready ring1 polls1"
      and rest: "next_packet oc (open_block (fst (release_block s ring)) ring1) ring1 polls1 = (Delivered p, s', ring', polls')"
      using "1.prems" by (subst (asm) next_packet.simps) (auto split: wait_result.splits)
    from "1.IH" [OF None wait rest] reopen_shrinks [OF wait, of oc] show ?thesis
      by (rule transD [OF trans_ring_order])
  next
    case (Some c)
    then show ?thesis
      using "1.prems" take_frame_shrinks by (subst (asm) next_packet.simps) (fastforce split: sum.splits)
  qed
qed

function capture_results :: "bool \<Rightarrow> AfPacketSocket \<Rightarrow> ring \<Rightarrow> poll_event list \<Rightarrow> next_result list" where
  "capture_results oc s ring polls =
     (case next_packet oc s ring polls of
        (Delivered p, s', ring', polls') \<Rightarrow> Delivered p # capture_results oc s' ring' polls'
      | (Failed e, _) \<Rightarrow> [Failed e]
      | (Blocked, _) \<Rightarrow> []
      | (Faulted f, _) \<Rightarrow> [Faulted f])"
  by pat_completeness auto

termination
  by (relation ring_order) (auto intro: next_packet_shrinks [OF sym])

declare capture_results.simps [simp del]

text \<open>
  What the kernel does while the reader polls: it fills a run of blocks from its position on and leaves
  the others its own. \<open>arrivals\<close> are the packets it brings in this way.
\<close>

definition batch_size :: "nat \<Rightarrow> ring \<Rightarrow> nat" where
  "batch_size kpos ring = length (takeWhile is_user (rotate kpos ring))"

definition batch_ok :: "nat \<Rightarrow> ring \<Rightarrow> bool" where
  "batch_ok kpos ring \<longleftrightarrow>
     list_all block_ok (takeWhile is_user (rotate kpos ring)) \<and>
     list_all (\<lambda>b. \<not> is_user b) (dropWhile is_user (rotate kpos ring))"

fun polls_ok :: "nat \<Rightarrow> nat \<Rightarrow> poll_event list \<Rightarrow> bool" where
  "polls_ok nr kpos (PollReturned r # es) \<longleftrightarrow>
     length r = nr \<and> batch_ok kpos r \<and> polls_ok nr ((kpos + batch_size kpos r) mod nr) es"
| "polls_ok nr kpos _ \<longleftrightarrow> True"

fun arrivals :: "u32 \<Rightarrow> nat \<Rightarrow> poll_event list \<Rightarrow> Packet list" where
  "arrivals ifindex kpos (PollReturned r # es) =
     ready_packets ifindex (rotate kpos r) @ arrivals ifindex ((kpos + batch_size kpos r) mod length r) es"
| "arrivals ifindex kpos _ = []"

fun poll_outcome :: "poll_event list \<Rightarrow> next_result list" where
  "poll_outcome [] = []"
| "poll_outcome (PollReturned r # es) = poll_outcome es"
| "poll_outcome (PollFailed m # es) = [Failed (Io (''poll: '' @ m))]"

lemma blocked_waits:
  "next_packet oc s ring [] = (Blocked, s', ring', []) \<Longrightarrow> \<not> user_at ring' (current_block s')"
proof (induction oc s ring "[] :: poll_event list" rule: next_packet.induct)
  case (1 oc s ring)
  have none: "has_frame s = None"
    using "1.prems" by (subst (asm) next_packet.simps) (auto split: option.splits sum.splits)
  show ?case
  proof (cases "user_at (snd (release_block s ring)) (current_block (fst (release_block s ring)))")
    case True
    then show ?thesis
      using "1.prems" "1.hyps" [OF none wait_user [OF True]] by (subst (asm) next_packet.simps) (simp add: none)
  next
    case False
    then show ?thesis using "1.prems" by (subst (asm) next_packet.simps) (auto simp: none)
  qed
qed

lemma batch_arrives:
  assumes "ring_inv kpos s ring" "cursor s = None" "\<not> user_at ring (current_block s)"
    and "length r = length ring" "batch_ok kpos r"
  shows "ring_inv ((kpos + batch_size kpos r) mod length r) s r \<and>
    pending_packets s r = ready_packets (sock_ifindex s) (rotate kpos r)"
proof -
  have lt: "current_block s < length ring" and run: "run_ok kpos s ring" using assms(1) by (auto simp: ring_inv_def)
  from run obtain us ks where us: "seen_from s ring = us @ ks" "list_all is_user us"
    "kpos = (current_block s + length us) mod length ring"
    unfolding run_ok_def by blast
  have "\<not> is_user (hd (seen_from s ring))" using lt assms(3) by (simp add: seen_from_hd user_at_def)
  then have "us = []" using us by (cases us) auto
  then have k: "kpos = current_block s" using us(3) lt by simp
  have "run_ok ((kpos + batch_size kpos r) mod length r) s r"
    unfolding run_ok_def using assms(2,5) k
    by (intro exI [of _ "takeWhile is_user (rotate kpos r)"] exI [of _ "dropWhile is_user (rotate kpos r)"])
      (auto simp: seen_from_def batch_ok_def batch_size_def list_all_iff dest: set_takeWhileD)
  then show ?thesis
    using assms(1,2,4) k by (simp add: ring_inv_def cursor_ok_def pending_packets_def seen_from_def)
qed

lemma results_deliver:
  "ring_inv kpos s ring \<Longrightarrow> \<exists>s' ring'. ring_inv kpos s' ring' \<and> pending_packets s' ring' = [] \<and>
     sock_ifindex s' = sock_ifindex s \<and> sock_block_nr s' = sock_block_nr s \<and>
     capture_results oc s ring polls =
       map Delivered (pending_packets s ring) @ capture_results oc s' ring' polls"
proof (induction "pending_packets s ring" arbitrary: s ring)
  case Nil
  then show ?case by (intro exI [of _ s] exI [of _ ring]) simp
next
  case (Cons p ps)
  then obtain s1 ring1 where n: "next_packet oc s ring polls = (Delivered p, s1, ring1, polls)"
    "ring_inv kpos s1 ring1" "pending_packets s1 ring1 = ps"
    using next_packet_delivers [OF Cons.prems Cons.hyps(2) [symmetric], of oc polls] by blast
  from Cons.hyps(1) [OF n(3) [symmetric] n(2)] next_packet_ifindex [OF n(1)] n Cons.hyps(2) [symmetric]
  show ?case by (subst capture_results.simps [of oc s ring]) auto
qed

lemma capture_results_arrivals:
  "ring_inv kpos s ring \<Longrightarrow> polls_ok (sock_block_nr s) kpos polls \<Longrightarrow>
     capture_results oc s ring polls =
       map Delivered (pending_packets s ring @ arrivals (sock_ifindex s) kpos polls) @ poll_outcome polls"
proof (induction polls arbitrary: kpos s ring)
  case Nil
  obtain s' ring' where d: "ring_inv kpos s' ring'" "pending_packets s' ring' = []"
    "capture_results oc s ring [] = map Delivered (pending_packets s ring) @ capture_results oc s' ring' []"
    using results_deliver [OF Nil.prems(1), of oc "[]"] by blast
  from next_packet_blocks [OF d(1,2), of oc] have "capture_results oc s' ring' [] = []"
    by (subst capture_results.simps) auto
  with d(3) show ?case by simp
next
  case (Cons e es)
  obtain s' ring' where d: "ring_inv kpos s' ring'" "pending_packets s' ring' = []"
    "sock_ifindex s' = sock_ifindex s" "sock_block_nr s' = sock_block_nr s"
    "capture_results oc s ring (e # es) = map Delivered (pending_packets s ring) @ capture_results oc s' ring' (e # es)"
    using results_deliver [OF Cons.prems(1), of oc "e # es"] by blast
  obtain t u where b: "next_packet oc s' ring' [] = (Blocked, t, u, [])" "ring_inv kpos t u" "cursor t = None"
    using next_packet_blocks [OF d(1,2), of oc] by blast
  have same: "sock_ifindex t = sock_ifindex s" "sock_block_nr t = sock_block_nr s"
    using next_packet_ifindex [OF b(1)] d(3,4) by simp_all
  show ?case
  proof (cases e)
    case (PollFailed m)
    have "capture_results oc s' ring' (e # es) = [Failed (Io (''poll: '' @ m))]"
      using blocked_resumes [OF b(1)] PollFailed by (subst capture_results.simps) simp
    with d(5) PollFailed show ?thesis by simp
  next
    case (PollReturned r)
    have len: "length r = length u" "length r = sock_block_nr s"
      using Cons.prems(2) PollReturned b(2) same(2) by (simp_all add: ring_inv_def)
    have batch: "batch_ok kpos r" "polls_ok (sock_block_nr t) ((kpos + batch_size kpos r) mod length r) es"
      using Cons.prems(2) PollReturned len(2) same(2) by simp_all
    have "capture_results oc s' ring' (e # es) = capture_results oc t r es"
      using blocked_resumes [OF b(1)] PollReturned
      by (simp add: capture_results.simps [of oc s' ring'] capture_results.simps [of oc t r])
    moreover note arr = batch_arrives [OF b(2,3) blocked_waits [OF b(1)] len(1) batch(1)]
    ultimately show ?thesis
      using Cons.IH [OF conjunct1 [OF arr] batch(2)] d(5) PollReturned same(1) by simp
  qed
qed

text \<open>
  C19. Nothing that arrives is lost while the program waits: from any state the two sides can reach,
  the calls of \<open>next_packet\<close> yield the packets in the ring and then all that the kernel puts into it
  during the polls, batch after batch, in order, up to the first poll that fails, whose error comes
  last.
\<close>

theorem capture_is_complete:
  assumes "fresh_socket s ring" "reachable oc (capture_init s ring) c"
    and "polls_ok (length (shared c)) (kernel_pos c) polls"
  shows "capture_results oc' (sock c) (shared c) polls =
    map Delivered (pending_packets (sock c) (shared c) @ arrivals (sock_ifindex (sock c)) (kernel_pos c) polls) @
    poll_outcome polls"
proof -
  have inv: "ring_inv (kernel_pos c) (sock c) (shared c)"
    using reachable_inv [OF assms(2,1)] by (simp add: capture_inv_def)
  then have "length (shared c) = sock_block_nr (sock c)" by (simp add: ring_inv_def)
  with capture_results_arrivals [OF inv] assms(3) show ?thesis by simp
qed

theorem capture_is_complete_witness:
  "\<exists>p. capture_results True demo_socket demo_ring
     [PollReturned demo_ring, PollReturned (demo_ring[0 := demo_block TP_STATUS_USER]), PollFailed ''EINTR''] =
     [Delivered p, Failed (Io ''poll: EINTR'')] \<and> pkt_data p = [1, 2, 3]"
proof -
  let ?polls = "[PollReturned demo_ring, PollReturned (demo_ring[0 := demo_block TP_STATUS_USER]), PollFailed ''EINTR'']"
  have ok: "polls_ok (length (shared (capture_init demo_socket demo_ring))) 0 ?polls"
    using demo_facts by (simp add: capture_init_def demo_ring_def batch_ok_def batch_size_def)
  have none: "pending_packets demo_socket demo_ring = []"
    using capture_init_inv [OF demo_facts(4)] by (simp add: capture_inv_def capture_init_def)
  have arr: "arrivals 2 0 ?polls = [frame_packet 2 (demo_block TP_STATUS_USER) 0]"
    using demo_facts by (simp add: demo_ring_def batch_size_def ready_packets_def block_packets_def)
      (simp add: demo_block_def)
  let ?c = "capture_init demo_socket demo_ring"
  have sel: "sock ?c = demo_socket" "shared ?c = demo_ring" "kernel_pos ?c = 0" "sock_ifindex demo_socket = 2"
    by (simp_all add: capture_init_def demo_socket_def)
  have "capture_results True (sock ?c) (shared ?c) ?polls =
      map Delivered (pending_packets (sock ?c) (shared ?c) @ arrivals (sock_ifindex (sock ?c)) (kernel_pos ?c) ?polls) @
      poll_outcome ?polls"
    by (rule capture_is_complete [OF demo_facts(4) reachable_init]) (use ok sel in simp)
  then have "capture_results True demo_socket demo_ring ?polls =
      [Delivered (frame_packet 2 (demo_block TP_STATUS_USER) 0), Failed (Io ''poll: EINTR'')]"
    unfolding sel none arr by simp
  moreover have "pkt_data (frame_packet 2 (demo_block TP_STATUS_USER) 0) = [1, 2, 3]"
    by (simp add: frame_packet_def demo_block_def build_packet_def Packet_new_def)
  ultimately show ?thesis by blast
qed

end
