(* ===== verification/Cli_Run.thy ===== *)
theory Cli_Run
  imports Cli_Print Filter_Parser Compiler Vm Af_Interfaces Rx_Ring
begin

text \<open>
  \<open>run\<close> of \<^verbatim>\<open>crates/netdump-cli/src/main.rs\<close>: from the parsed arguments to the exit. Everything outside
  the sources is a field of the record \<open>World\<close>: the parser pest generates, the file system, the
  \<open>pcap_file\<close> reader and writer, the operating system, the terminal, and the memory of the ring: what the
  kernel has mapped, and what each poll will find in it. A run yields how it ended, the state of the
  capture, and what it wrote to standard error.
\<close>

section \<open>The world and the state of a run\<close>

record PcapPacket =
  pcap_secs :: u64
  pcap_nanos :: u32
  pcap_orig_len :: u32
  pcap_data :: packet_bytes

record World =
  w_overflow_checks :: bool
  w_pest_parse :: "string \<Rightarrow> string + pair list"
  w_slicer :: "packet_bytes \<Rightarrow> SlicedPacket option"
  w_winsize :: "u16 option"
  w_read_text :: "string \<Rightarrow> string + string"
  w_create_pcap :: "string \<Rightarrow> string option"
  w_write_packet :: "PcapPacket \<Rightarrow> string option"
  w_open_pcap :: "string \<Rightarrow> string + (string + PcapPacket) list"
  w_getifaddrs :: "string + ifaddrs list"
  w_nametoindex :: "string \<Rightarrow> u32"
  w_os :: OS
  w_page :: nat
  w_mac_socket :: "string option"
  w_hwaddr :: "string \<Rightarrow> string + u8 list"
  w_ring :: "AfPacketSocket \<Rightarrow> ring"
  w_polls :: "AfPacketSocket \<Rightarrow> poll_event list"

text \<open>
  How a run ends. \<open>Unfinished\<close>: it is still waiting, in the live loop when the polls listed in the
  world are used up. \<open>UndefinedEnd\<close>: it has read outside the ring's block.
\<close>

datatype run_end = Ended | EndedErr NetdumpError | PanicEnd | Unfinished | UndefinedEnd

definition fault_end :: "ring_fault \<Rightarrow> run_end" where
  "fault_end f = (case f of OutOfBlock \<Rightarrow> UndefinedEnd | OffsetOverflow \<Rightarrow> PanicEnd)"

record RunState =
  captured :: nat
  pkt_ctx :: PktCtx
  written :: "PcapPacket list option"
  stdout :: string

datatype step = Next RunState | Stop run_end RunState

definition PktCtx_new :: PktCtx where
  "PktCtx_new = \<lparr>num = 0, prev_ts = (0, 0), first_ts = (0, 0)\<rparr>"

definition count_reached :: "Args \<Rightarrow> RunState \<Rightarrow> bool" where
  "count_reached args st = (case count_arg args of Some m \<Rightarrow> captured st \<ge> m | None \<Rightarrow> False)"

definition program_matches :: "Instruction list option \<Rightarrow> packet_bytes \<Rightarrow> bool option" where
  "program_matches prog data = (case prog of None \<Rightarrow> Some True | Some p \<Rightarrow> Vm_exec p data)"

definition count_packet :: "RunState \<Rightarrow> RunState" where
  "count_packet st = st\<lparr>captured := captured st + 1, pkt_ctx := (pkt_ctx st)\<lparr>num := num (pkt_ctx st) + 1\<rparr>\<rparr>"

definition print_step :: "World \<Rightarrow> Args \<Rightarrow> Packet \<Rightarrow> RunState \<Rightarrow> step" where
  "print_step W args p st =
     (case print_packet (w_slicer W) (terminal_width (w_winsize W)) (w_overflow_checks W) args p (pkt_ctx st) of
        Inl _ \<Rightarrow> Stop PanicEnd st
      | Inr (text, ctx) \<Rightarrow> Next (st\<lparr>pkt_ctx := ctx, stdout := stdout st @ text\<rparr>))"

definition set_first_ts :: "Packet \<Rightarrow> RunState \<Rightarrow> RunState" where
  "set_first_ts p st =
     st\<lparr>pkt_ctx := (pkt_ctx st)\<lparr>first_ts := (ts_sec (pkt_meta p), ts_usec (pkt_meta p))\<rparr>\<rparr>"

definition write_step :: "World \<Rightarrow> PcapPacket \<Rightarrow> PcapPacket list \<Rightarrow> RunState \<Rightarrow> step" where
  "write_step W pkt ps st =
     (case w_write_packet W pkt of
        Some e \<Rightarrow> Stop (EndedErr (Io e)) st
      | None \<Rightarrow> Next (st\<lparr>written := Some (ps @ [pkt])\<rparr>))"

fun and_next :: "step \<Rightarrow> (RunState \<Rightarrow> step) \<Rightarrow> step" where
  "and_next (Stop e st) f = Stop e st"
| "and_next (Next st) f = f st"

section \<open>Reading a file\<close>

definition pcap_packet_to_packet :: "PcapPacket \<Rightarrow> u32 \<Rightarrow> Packet" where
  "pcap_packet_to_packet pkt ifindex =
     Packet_new
       (PacketMeta_new (pcap_secs pkt) (ucast (pcap_nanos pkt div 1000)) ifindex
          (length (pcap_data pkt)) (unat (pcap_orig_len pkt)))
       (pcap_data pkt)"

definition show_read :: "World \<Rightarrow> Args \<Rightarrow> PcapPacket \<Rightarrow> RunState \<Rightarrow> step" where
  "show_read W args pkt st =
     (let p = pcap_packet_to_packet pkt 0 in print_step W args p (set_first_ts p st))"

definition emit_read :: "World \<Rightarrow> Args \<Rightarrow> PcapPacket \<Rightarrow> RunState \<Rightarrow> step" where
  "emit_read W args pkt st =
     (case written st of
        Some ps \<Rightarrow>
          and_next (write_step W pkt ps st) (\<lambda>st.
            if print_packets args then show_read W args pkt st else Next st)
      | None \<Rightarrow> show_read W args pkt st)"

fun read_loop ::
  "World \<Rightarrow> Args \<Rightarrow> Instruction list option \<Rightarrow> (string + PcapPacket) list \<Rightarrow> RunState
     \<Rightarrow> run_end \<times> RunState" where
  "read_loop W args prog [] st = (Ended, st)"
| "read_loop W args prog (r # rs) st =
     (if count_reached args st then (Ended, st)
      else case r of
        Inl e \<Rightarrow> (EndedErr (Io e), st)
      | Inr pkt \<Rightarrow>
          (case program_matches prog (pcap_data pkt) of
             None \<Rightarrow> (Unfinished, st)
           | Some False \<Rightarrow> read_loop W args prog rs st
           | Some True \<Rightarrow>
               (case emit_read W args pkt (count_packet st) of
                  Stop e st' \<Rightarrow> (e, st')
                | Next st' \<Rightarrow> read_loop W args prog rs st')))"

section \<open>Capturing live\<close>

text \<open>\<open>Duration::new\<close>: whole seconds in the nanoseconds are carried, and the carry must not overflow.\<close>

definition duration_new :: "u64 \<Rightarrow> u32 \<Rightarrow> (u64 \<times> u32) option" where
  "duration_new secs nanos =
     (if unat secs + unat nanos div 1000000000 \<ge> 2 ^ 64 then None
      else Some (secs + ucast (nanos div 1000000000), nanos mod 1000000000))"

definition packet_to_pcap :: "bool \<Rightarrow> Packet \<Rightarrow> PcapPacket option" where
  "packet_to_pcap oc p =
     (if oc \<and> unat (ts_usec (pkt_meta p)) * 1000 \<ge> 2 ^ 64 then None
      else map_option (\<lambda>(secs, nanos).
        \<lparr>pcap_secs = secs, pcap_nanos = nanos, pcap_orig_len = of_nat (orig_len (pkt_meta p)),
         pcap_data = pkt_data p\<rparr>)
        (duration_new (ts_sec (pkt_meta p)) (ucast (ts_usec (pkt_meta p) * 1000))))"

definition show_live :: "World \<Rightarrow> Args \<Rightarrow> Packet \<Rightarrow> RunState \<Rightarrow> step" where
  "show_live W args p st =
     print_step W args p (if num (pkt_ctx st) = 1 then set_first_ts p st else st)"

definition emit_live :: "World \<Rightarrow> Args \<Rightarrow> Packet \<Rightarrow> RunState \<Rightarrow> step" where
  "emit_live W args p st =
     (case written st of
        Some ps \<Rightarrow>
          (case packet_to_pcap (w_overflow_checks W) p of
             None \<Rightarrow> Stop PanicEnd st
           | Some pkt \<Rightarrow>
               and_next (write_step W pkt ps st) (\<lambda>st.
                 if print_packets args then show_live W args p st else Next st))
      | None \<Rightarrow> show_live W args p st)"

text \<open>The option \<open>-Q\<close>: with the direction and the address of the interface, whether a packet is skipped.\<close>

definition direction_skips :: "string option \<Rightarrow> u8 list option \<Rightarrow> packet_bytes \<Rightarrow> bool" where
  "direction_skips dir mac data =
     (case (dir, mac) of
        (Some d, Some m) \<Rightarrow>
          length data \<ge> 14 \<and>
          (let outgoing = (take 6 (drop 6 data) = m) in
           d = ''in'' \<and> outgoing \<or> d = ''out'' \<and> \<not> outgoing)
      | _ \<Rightarrow> False)"

text \<open>The body of the loop, once \<open>next_packet\<close> has returned a packet; then the loop.\<close>

definition live_packet ::
  "World \<Rightarrow> Args \<Rightarrow> Instruction list option \<Rightarrow> bool \<Rightarrow> u8 list option \<Rightarrow> Packet \<Rightarrow> RunState \<Rightarrow> step" where
  "live_packet W args prog attached mac packet st =
     (case if attached then Some True else program_matches prog (pkt_data packet) of
        None \<Rightarrow> Stop Unfinished st
      | Some False \<Rightarrow> Next st
      | Some True \<Rightarrow>
          if direction_skips (direction args) mac (pkt_data packet) then Next st
          else emit_live W args packet (count_packet st))"

function live_loop ::
  "World \<Rightarrow> Args \<Rightarrow> Instruction list option \<Rightarrow> u8 list option \<Rightarrow> AfPacketSocket \<Rightarrow> ring
     \<Rightarrow> poll_event list \<Rightarrow> RunState \<Rightarrow> run_end \<times> RunState" where
  "live_loop W args prog mac s ring polls st =
     (if count_reached args st then (Ended, st)
      else case next_packet (w_overflow_checks W) s ring polls of
        (Failed e, _) \<Rightarrow> (EndedErr e, st)
      | (Blocked, _) \<Rightarrow> (Unfinished, st)
      | (Faulted f, _) \<Rightarrow> (fault_end f, st)
      | (Delivered packet, s', ring', polls') \<Rightarrow>
          (case live_packet W args prog (kernel_filter_attached s) mac packet st of
             Stop e st' \<Rightarrow> (e, st')
           | Next st' \<Rightarrow> live_loop W args prog mac s' ring' polls' st'))"
  by pat_completeness auto

termination
  by (relation "inv_image ring_order (\<lambda>(W, args, prog, mac, s, ring, polls, st). (w_overflow_checks W, s, ring, polls))")
    (auto intro: next_packet_shrinks [OF sym])

declare live_loop.simps [simp del]

text \<open>\<open>get_iface_mac\<close>: the name is cut to what fits in the request.\<close>

definition get_iface_mac :: "string option \<Rightarrow> (string \<Rightarrow> string + u8 list) \<Rightarrow> string \<Rightarrow> NetdumpError + u8 list" where
  "get_iface_mac socket_error hwaddr ifname =
     (case socket_error of
        Some e \<Rightarrow> Inl (Io (''socket: '' @ e))
      | None \<Rightarrow>
          and_then (map_err (\<lambda>e. Io (''ioctl SIOCGIFHWADDR: '' @ e)) (hwaddr (take (IFNAMSIZ - 1) ifname)))
            (\<lambda>sa_data. Inr (take 6 sa_data)))"

definition live_options :: "Args \<Rightarrow> Instruction list option \<Rightarrow> OpenOptions" where
  "live_options args prog =
     (let kernel_filter =
            (case prog of Some p \<Rightarrow> if userspace_filter args then None else Some (map RawBpfInsn_from p)
                        | None \<Rightarrow> None) in
      \<lparr>snaplen = (if arg_snaplen args = 0 then 65535 else unat (arg_snaplen args)),
       promiscuous = (\<not> no_promiscuous args),
       block_size = (let b = unat (block_size_kib args) * 1024 in if b \<ge> 2 ^ 64 then 2 ^ 20 else b),
       block_nr = unat (arg_block_nr args),
       buffer_size = arg_buffer_size args,
       frame_size = Some (unat (arg_frame_size args)),
       retire_tov_ms = Some (arg_retire_tov_ms args),
       opt_filter = kernel_filter\<rparr>)"

section \<open>The filter program\<close>

text \<open>\<open>str::trim\<close> on ASCII text.\<close>

definition is_space :: "char \<Rightarrow> bool" where
  "is_space c \<longleftrightarrow> c \<in> {CHR '' '', CHR 0x09, CHR 0x0A, CHR 0x0B, CHR 0x0C, CHR 0x0D}"

definition trim :: "string \<Rightarrow> string" where
  "trim s = rev (dropWhile is_space (rev (dropWhile is_space s)))"

definition filter_expr :: "World \<Rightarrow> Args \<Rightarrow> NetdumpError + string option" where
  "filter_expr W args =
     (case filter_file args of
        Some path \<Rightarrow>
          and_then (map_err Io (w_read_text W path)) (\<lambda>s.
            if trim s = [] then Inl (Parse ''empty filter file'') else Inr (Some (trim s)))
      | None \<Rightarrow>
          let expr = trim (join_char (CHR '' '') (filter_words args)) in
          Inr (if expr = [] then None else Some expr))"

definition Instruction_debug :: "Instruction \<Rightarrow> string" where
  "Instruction_debug i =
     ''Instruction { code: '' @ show_dec (unat (i_code i)) @ '', jt: '' @ show_dec (unat (i_jt i)) @
     '', jf: '' @ show_dec (unat (i_jf i)) @ '', k: '' @ show_dec (unat (i_k i)) @ '' }''"

definition dump_text :: "Instruction list \<Rightarrow> string" where
  "dump_text prog =
     ''CBPF program ('' @ show_dec (length prog) @ '' instructions):'' @ [newline] @
     concat (map (\<lambda>(i, inst). ''  '' @ show_dec i @ '': '' @ Instruction_debug inst @ [newline])
       (enumerate 0 prog))"

text \<open>The end of the run, with what it wrote to standard error, or the program to filter with.\<close>

definition load_program :: "World \<Rightarrow> Args \<Rightarrow> string option \<Rightarrow> run_end \<times> string + Instruction list option" where
  "load_program W args expr =
     (case expr of
        Some e \<Rightarrow>
          (case parse (w_pest_parse W) (w_overflow_checks W) e of
             Inl (ParseError msg) \<Rightarrow> Inl (EndedErr (Parse msg), [])
           | Inl OverflowPanic \<Rightarrow> Inl (PanicEnd, [])
           | Inr ast \<Rightarrow>
               (case compile ast of
                  Inl _ \<Rightarrow> Inl (PanicEnd, [])
                | Inr prog \<Rightarrow> if dump_bpf args then Inl (Ended, dump_text prog) else Inr (Some prog)))
      | None \<Rightarrow>
          if dump_bpf args then Inl (EndedErr (Parse ''no filter expression to dump''), [])
          else Inr None)"

section \<open>The whole run\<close>

definition show_interface :: "InterfaceInfo \<Rightarrow> string" where
  "show_interface info =
     show_int_pad 0 (sint (if_ifindex info)) @ ''. '' @ if_name info @ (if is_up info then ''*'' else []) @ [newline]"

definition start_state :: "PcapPacket list option \<Rightarrow> RunState" where
  "start_state file = \<lparr>captured = 0, pkt_ctx = PktCtx_new, written = file, stdout = []\<rparr>"

definition capture_interface :: "World \<Rightarrow> Args \<Rightarrow> NetdumpError + string" where
  "capture_interface W args =
     (case interface args of
        Some name \<Rightarrow> Inr name
      | None \<Rightarrow> default_interface (w_getifaddrs W) (w_nametoindex W))"

definition iface_mac :: "World \<Rightarrow> Args \<Rightarrow> string \<Rightarrow> NetdumpError + u8 list option" where
  "iface_mac W args ifname =
     (case direction args of
        None \<Rightarrow> Inr None
      | Some _ \<Rightarrow> and_then (get_iface_mac (w_mac_socket W) (w_hwaddr W) ifname) (\<lambda>m. Inr (Some m)))"

text \<open>The live branch up to its loop.\<close>

definition run_live :: "World \<Rightarrow> Args \<Rightarrow> Instruction list option \<Rightarrow> RunState \<Rightarrow> run_end \<times> RunState" where
  "run_live W args prog st =
     (case capture_interface W args of
        Inl e \<Rightarrow> (EndedErr e, st)
      | Inr ifname \<Rightarrow>
          (case snd (open_with_options (w_os W) (w_page W) ifname (live_options args prog)) of
             Inl e \<Rightarrow> (EndedErr e, st)
           | Inr None \<Rightarrow> (PanicEnd, st)
           | Inr (Some socket) \<Rightarrow>
               (case iface_mac W args ifname of
                  Inl e \<Rightarrow> (EndedErr e, st)
                | Inr mac \<Rightarrow>
                    live_loop W args prog mac socket (w_ring W socket) (w_polls W socket) st)))"

definition run_capture :: "World \<Rightarrow> Args \<Rightarrow> Instruction list option \<Rightarrow> RunState \<Rightarrow> run_end \<times> RunState" where
  "run_capture W args prog st =
     (case read_file args of
        Some path \<Rightarrow>
          (case w_open_pcap W path of
             Inl e \<Rightarrow> (EndedErr (Io e), st)
           | Inr results \<Rightarrow> read_loop W args prog results st)
      | None \<Rightarrow> run_live W args prog st)"

definition run :: "World \<Rightarrow> Args \<Rightarrow> run_end \<times> RunState \<times> string" where
  "run W args =
     (let nothing = start_state None in
      if list_interfaces_arg args then
        (case list_interfaces (w_getifaddrs W) (w_nametoindex W) of
           Inl e \<Rightarrow> (EndedErr e, nothing, [])
         | Inr infos \<Rightarrow> (Ended, nothing\<lparr>stdout := concat (map show_interface infos)\<rparr>, []))
      else
        (case filter_expr W args of
           Inl e \<Rightarrow> (EndedErr e, nothing, [])
         | Inr expr \<Rightarrow>
             (case load_program W args expr of
                Inl (e, stderr) \<Rightarrow> (e, nothing, stderr)
              | Inr prog \<Rightarrow>
                  (case (case write_file args of
                           None \<Rightarrow> Inr None
                         | Some path \<Rightarrow>
                             (case w_create_pcap W path of Some e \<Rightarrow> Inl (Io e) | None \<Rightarrow> Inr (Some []))) of
                     Inl e \<Rightarrow> (EndedErr e, nothing, [])
                   | Inr file \<Rightarrow>
                       (case run_capture W args prog (start_state file) of (e, st) \<Rightarrow>
                          (e, st, if e = Ended
                                  then ''captured '' @ show_dec (captured st) @ '' packets'' @ [newline]
                                  else []))))))"

text \<open>\<open>main\<close>: the exit code and the message of an error.\<close>

definition main_exit :: "World \<Rightarrow> Args \<Rightarrow> (nat \<times> string) option" where
  "main_exit W args =
     (case run W args of
        (Ended, st, err) \<Rightarrow> Some (0, err)
      | (EndedErr e, st, err) \<Rightarrow> Some (1, err @ ''error: '' @ NetdumpError_fmt e @ [newline])
      | (PanicEnd, st, err) \<Rightarrow> Some (101, err)
      | (Unfinished, st, err) \<Rightarrow> None
      | (UndefinedEnd, st, err) \<Rightarrow> None)"

end
