(* ===== verification/Cli_Run_Correct.thy ===== *)
theory Cli_Run_Correct
  imports Cli_Run Filter_Pest
begin

text \<open>
  The two capture loops of \<open>run\<close>: which packets they capture, in terms of the predicate the filter
  program decides, and the limits that hold whatever happens.
\<close>

section \<open>Emitting a packet\<close>

definition ctx_ok :: "PktCtx \<Rightarrow> bool" where
  "ctx_ok ctx \<longleftrightarrow> ts_ok (fst (prev_ts ctx)) (snd (prev_ts ctx)) \<and> ts_ok (fst (first_ts ctx)) (snd (first_ts ctx))"

definition packet_ts_ok :: "Packet \<Rightarrow> bool" where
  "packet_ts_ok p \<longleftrightarrow> ts_ok (ts_sec (pkt_meta p)) (ts_usec (pkt_meta p))"

definition writes_ok :: "World \<Rightarrow> bool" where
  "writes_ok W \<longleftrightarrow> (\<forall>pkt. w_write_packet W pkt = None)"

text \<open>A step that goes on, keeps the count, and leaves the given packets written.\<close>

definition goes_on :: "step \<Rightarrow> RunState \<Rightarrow> PcapPacket list option \<Rightarrow> bool" where
  "goes_on r st ps \<longleftrightarrow>
     (\<exists>st'. r = Next st' \<and> captured st' = captured st \<and> written st' = ps \<and> ctx_ok (pkt_ctx st'))"

lemma goes_onI: "captured st' = captured st \<Longrightarrow> written st' = ps \<Longrightarrow> ctx_ok (pkt_ctx st') \<Longrightarrow> goes_on (Next st') st ps"
  by (simp add: goes_on_def)

lemma print_step_ok:
  assumes "ctx_ok (pkt_ctx st)" "packet_ts_ok p"
  shows "goes_on (print_step W args p st) st (written st)"
proof -
  let ?ctx = "(pkt_ctx st)\<lparr>prev_ts := (ts_sec (pkt_meta p), ts_usec (pkt_meta p))\<rparr>"
  obtain t where "print_packet (w_slicer W) (terminal_width (w_winsize W)) (w_overflow_checks W) args p (pkt_ctx st) = Inr (t, ?ctx)"
    using assms print_packet_ok [of p "pkt_ctx st" "w_slicer W" "terminal_width (w_winsize W)" "w_overflow_checks W" args]
    unfolding ctx_ok_def packet_ts_ok_def by blast
  then show ?thesis using assms by (auto simp: print_step_def ctx_ok_def packet_ts_ok_def intro: goes_onI)
qed

lemma set_first_ts_simps [simp]:
  "captured (set_first_ts p st) = captured st" "written (set_first_ts p st) = written st"
  "ctx_ok (pkt_ctx st) \<Longrightarrow> packet_ts_ok p \<Longrightarrow> ctx_ok (pkt_ctx (set_first_ts p st))"
  by (simp_all add: set_first_ts_def ctx_ok_def packet_ts_ok_def)

lemma goes_on_cong: "captured st = captured st' \<Longrightarrow> goes_on r st ps = goes_on r st' ps"
  by (simp add: goes_on_def)

lemma show_read_ok:
  assumes "ctx_ok (pkt_ctx st)" "packet_ts_ok (pcap_packet_to_packet pkt 0)"
  shows "goes_on (show_read W args pkt st) st (written st)"
  using print_step_ok [of "set_first_ts (pcap_packet_to_packet pkt 0) st" "pcap_packet_to_packet pkt 0" W args] assms
  by (simp add: show_read_def Let_def goes_on_def)

lemma show_live_ok:
  assumes "ctx_ok (pkt_ctx st)" "packet_ts_ok p"
  shows "goes_on (show_live W args p st) st (written st)"
  using print_step_ok [of "set_first_ts p st" p W args] print_step_ok [of st p W args] assms
  by (simp add: show_live_def goes_on_def)

lemma write_step_ok:
  "writes_ok W \<Longrightarrow> write_step W pkt ps st = Next (st\<lparr>written := Some (ps @ [pkt])\<rparr>)"
  by (simp add: write_step_def writes_ok_def)

lemma emit_read_ok:
  assumes "writes_ok W" "ctx_ok (pkt_ctx st)" "packet_ts_ok (pcap_packet_to_packet pkt 0)"
  shows "goes_on (emit_read W args pkt st) st (map_option (\<lambda>ps. ps @ [pkt]) (written st))"
proof (cases "written st")
  case None
  then show ?thesis using show_read_ok [OF assms(2,3), of W args] by (simp add: emit_read_def)
next
  case (Some ps)
  then show ?thesis
    using assms show_read_ok [of "st\<lparr>written := Some (ps @ [pkt])\<rparr>" pkt W args]
    by (simp add: emit_read_def write_step_ok goes_on_def)
qed

text \<open>The record a live packet is written as, when its microseconds are a fraction of a second.\<close>

definition live_ok :: "Packet \<Rightarrow> bool" where
  "live_ok p \<longleftrightarrow> packet_ts_ok p \<and> uint (ts_usec (pkt_meta p)) < 1000000"

definition pcap_of :: "Packet \<Rightarrow> PcapPacket" where
  "pcap_of p = \<lparr>pcap_secs = ts_sec (pkt_meta p), pcap_nanos = ucast (ts_usec (pkt_meta p) * 1000),
     pcap_orig_len = of_nat (orig_len (pkt_meta p)), pcap_data = pkt_data p\<rparr>"

lemma micros_to_nanos:
  assumes "uint (u :: u64) < 1000000"
  shows "unat (ucast (u * 1000) :: u32) = unat u * 1000" "unat u < 1000000"
proof -
  show small: "unat u < 1000000" using assms unfolding uint_nat by linarith
  have "unat (u * 1000) = (unat u * unat (1000 :: u64)) mod 2 ^ 64" by (simp add: unat_word_ariths)
  also have "unat (1000 :: u64) = 1000" by simp
  also have "unat u * 1000 mod 2 ^ 64 = unat u * 1000" by (rule mod_less) (use small in simp)
  finally have e: "unat (u * 1000) = unat u * 1000" .
  have "unat (ucast (u * 1000) :: u32) = unat (u * 1000) mod 2 ^ 32" by (simp add: unsigned_ucast_eq take_bit_eq_mod)
  also have "\<dots> = unat u * 1000" unfolding e by (rule mod_less) (use small in simp)
  finally show "unat (ucast (u * 1000) :: u32) = unat u * 1000" .
qed

lemma packet_to_pcap_ok:
  assumes "live_ok p"
  shows "packet_to_pcap oc p = Some (pcap_of p)"
proof -
  let ?n = "ucast (ts_usec (pkt_meta p) * 1000) :: u32"
  have n: "unat ?n = unat (ts_usec (pkt_meta p)) * 1000" "unat (ts_usec (pkt_meta p)) < 1000000"
    using assms micros_to_nanos [of "ts_usec (pkt_meta p)"] by (simp_all add: live_ok_def)
  then have lt: "unat ?n < 1000000000" by linarith
  then have "?n div 1000000000 = 0" "?n mod 1000000000 = ?n"
    by (simp_all add: div_word_less mod_word_less word_less_nat_alt)
  moreover have "unat (ts_sec (pkt_meta p)) + unat ?n div 1000000000 < 2 ^ 64"
    using lt unat_below [of "ts_sec (pkt_meta p)"] by simp
  ultimately have "duration_new (ts_sec (pkt_meta p)) ?n = Some (ts_sec (pkt_meta p), ?n)"
    by (simp add: duration_new_def)
  then show ?thesis using n(2) by (simp add: packet_to_pcap_def pcap_of_def)
qed

lemma emit_live_ok:
  assumes "writes_ok W" "ctx_ok (pkt_ctx st)" "live_ok p"
  shows "goes_on (emit_live W args p st) st (map_option (\<lambda>ps. ps @ [pcap_of p]) (written st))"
proof (cases "written st")
  case None
  then show ?thesis using show_live_ok [of st p W args] assms by (simp add: emit_live_def live_ok_def)
next
  case (Some ps)
  then show ?thesis
    using assms show_live_ok [of "st\<lparr>written := Some (ps @ [pcap_of p])\<rparr>" p W args]
    by (simp add: emit_live_def write_step_ok goes_on_def packet_to_pcap_ok live_ok_def)
qed

section \<open>The packet limit\<close>

text \<open>What \<open>-c\<close> leaves of a list of packets when some have been captured already.\<close>

definition limit :: "Args \<Rightarrow> nat \<Rightarrow> 'a list \<Rightarrow> 'a list" where
  "limit args n xs = (case count_arg args of None \<Rightarrow> xs | Some m \<Rightarrow> take (m - n) xs)"

lemma limit_Nil [simp]: "limit args n [] = []"
  by (simp add: limit_def split: option.split)

lemma limit_reached: "count_reached args st \<Longrightarrow> limit args (captured st) xs = []"
  by (auto simp: limit_def count_reached_def split: option.splits)

lemma limit_Cons:
  "\<not> count_reached args st \<Longrightarrow> limit args (captured st) (x # xs) = x # limit args (Suc (captured st)) xs"
  by (auto simp: limit_def count_reached_def not_le take_Cons' split: option.splits)

lemma count_packet_simps [simp]:
  "captured (count_packet st) = Suc (captured st)" "written (count_packet st) = written st"
  "ctx_ok (pkt_ctx (count_packet st)) = ctx_ok (pkt_ctx st)"
  by (simp_all add: count_packet_def ctx_ok_def)

section \<open>The live loop over a list of results\<close>

text \<open>
  The loop separated from the socket: it takes the results of \<open>next_packet\<close> from a list. Run on the
  results of the calls that the socket, the ring and the polls determine, it is the live loop.
\<close>

fun results_loop ::
  "World \<Rightarrow> Args \<Rightarrow> Instruction list option \<Rightarrow> bool \<Rightarrow> u8 list option
     \<Rightarrow> next_result list \<Rightarrow> RunState \<Rightarrow> run_end \<times> RunState" where
  "results_loop W args prog attached mac [] st = (if count_reached args st then Ended else Unfinished, st)"
| "results_loop W args prog attached mac (r # rs) st =
     (if count_reached args st then (Ended, st)
      else case r of
        Failed e \<Rightarrow> (EndedErr e, st)
      | Blocked \<Rightarrow> (Unfinished, st)
      | Faulted f \<Rightarrow> (fault_end f, st)
      | Delivered packet \<Rightarrow>
          (case live_packet W args prog attached mac packet st of
             Stop e st' \<Rightarrow> (e, st')
           | Next st' \<Rightarrow> results_loop W args prog attached mac rs st'))"

lemma results_loop_reached: "count_reached args st \<Longrightarrow> results_loop W args prog attached mac rs st = (Ended, st)"
  by (cases rs) auto

text \<open>How the loop ends when the next result is not a packet.\<close>

fun tail_end :: "next_result list \<Rightarrow> run_end option" where
  "tail_end [] = Some Unfinished"
| "tail_end (Failed e # rs) = Some (EndedErr e)"
| "tail_end (Blocked # rs) = Some Unfinished"
| "tail_end (Faulted f # rs) = Some (fault_end f)"
| "tail_end (Delivered p # rs) = None"

lemma results_loop_tail:
  "tail_end tail = Some e \<Longrightarrow>
     results_loop W args prog attached mac tail st = (if count_reached args st then Ended else e, st)"
  by (cases tail rule: tail_end.cases) auto

lemma tail_end_poll: "\<exists>e. tail_end (poll_outcome polls) = Some e"
  by (induction polls rule: poll_outcome.induct) auto

lemma next_packet_attached:
  "next_packet oc s ring polls = (r, s', ring', polls') \<Longrightarrow> kernel_filter_attached s' = kernel_filter_attached s"
proof (induction oc s ring polls rule: next_packet.induct)
  case (1 oc s ring polls)
  have same: "kernel_filter_attached (fst (release_block s ring)) = kernel_filter_attached s"
    by (simp add: release_block_def split: option.split)
  show ?case
  proof (cases "has_frame s")
    case None
    then show ?thesis
      using "1.prems" "1.IH" [OF None] same
      by (subst (asm) (1) next_packet.simps) (auto simp: open_block_def Let_def split: wait_result.splits)
  next
    case (Some c)
    then show ?thesis
      using "1.prems" by (subst (asm) (1) next_packet.simps) (auto split: sum.splits)
  qed
qed

lemma live_loop_results:
  "live_loop W args prog mac s ring polls st =
   results_loop W args prog (kernel_filter_attached s) mac (capture_results (w_overflow_checks W) s ring polls) st"
proof (induction W args prog mac s ring polls st rule: live_loop.induct)
  case (1 W args prog mac s ring polls st)
  obtain r s' ring' polls' where n: "next_packet (w_overflow_checks W) s ring polls = (r, s', ring', polls')"
    by (metis prod_cases4)
  show ?case
  proof (cases "count_reached args st")
    case True
    then show ?thesis by (simp add: live_loop.simps [of W args prog mac s] results_loop_reached)
  next
    case False
    then show ?thesis
      using n next_packet_attached [OF n] "1.IH" [OF False n [symmetric]]
      by (simp add: live_loop.simps [of W args prog mac s] capture_results.simps [of _ s]
          split: next_result.split step.split)
  qed
qed

section \<open>The loops\<close>

text \<open>
  What the loops need of the filter: the program, or its absence, decides a predicate on packets.
\<close>

locale filter_engine =
  fixes prog :: "Instruction list option" and accepts :: "packet_bytes \<Rightarrow> bool"
  assumes decides: "program_matches prog data = Some (accepts data)"
begin

lemma read_captures:
  assumes "writes_ok W" "ctx_ok (pkt_ctx st)" "\<forall>pkt \<in> set pkts. packet_ts_ok (pcap_packet_to_packet pkt 0)"
  shows "\<exists>st'. read_loop W args prog (map Inr pkts) st = (Ended, st') \<and>
    captured st' = captured st + length (limit args (captured st) (filter (\<lambda>p. accepts (pcap_data p)) pkts)) \<and>
    written st' = map_option (\<lambda>ps. ps @ limit args (captured st) (filter (\<lambda>p. accepts (pcap_data p)) pkts)) (written st)"
  using assms(2,3)
proof (induction pkts arbitrary: st)
  case Nil
  then show ?case by (simp add: option.map_ident)
next
  case (Cons pkt pkts)
  show ?case
  proof (cases "count_reached args st")
    case True
    then show ?thesis by (simp add: limit_reached option.map_ident)
  next
    case False
    show ?thesis
    proof (cases "accepts (pcap_data pkt)")
      case True
      obtain st1 where st1: "emit_read W args pkt (count_packet st) = Next st1"
        "captured st1 = Suc (captured st)" "written st1 = map_option (\<lambda>ps. ps @ [pkt]) (written st)"
        "ctx_ok (pkt_ctx st1)"
        using emit_read_ok [OF assms(1), of "count_packet st" pkt args] Cons.prems by (auto simp: goes_on_def)
      from Cons.IH [OF st1(4)] Cons.prems(2) obtain st' where st':
        "read_loop W args prog (map Inr pkts) st1 = (Ended, st')"
        "captured st' = captured st1 + length (limit args (captured st1) (filter (\<lambda>p. accepts (pcap_data p)) pkts))"
        "written st' = map_option (\<lambda>ps. ps @ limit args (captured st1) (filter (\<lambda>p. accepts (pcap_data p)) pkts)) (written st1)"
        by auto
      then show ?thesis
        using True False st1 by (intro exI [of _ st']) (simp add: decides limit_Cons option.map_comp o_def)
    next
      case False': False
      then show ?thesis using Cons False by (simp add: decides)
    qed
  qed
qed

lemma live_captures:
  fixes args :: Args and mac :: "u8 list option"
  assumes "writes_ok W" "ctx_ok (pkt_ctx st)" "\<forall>p \<in> set pkts. live_ok p"
  defines "keep \<equiv> \<lambda>p :: Packet. accepts (pkt_data p) \<and> \<not> direction_skips (direction args) mac (pkt_data p)"
  shows "\<exists>st'. results_loop W args prog False mac (map Delivered pkts @ tail) st =
      results_loop W args prog False mac tail st' \<and>
    captured st' = captured st + length (limit args (captured st) (filter keep pkts)) \<and>
    written st' = map_option (\<lambda>ps. ps @ map pcap_of (limit args (captured st) (filter keep pkts))) (written st)"
  using assms(2,3)
proof (induction pkts arbitrary: st)
  case Nil
  then show ?case by (intro exI [of _ st]) (simp add: option.map_ident)
next
  case (Cons pkt pkts)
  show ?case
  proof (cases "count_reached args st")
    case True
    then show ?thesis
      by (intro exI [of _ st]) (simp add: limit_reached results_loop_reached option.map_ident)
  next
    case False
    show ?thesis
    proof (cases "keep pkt")
      case True
      obtain st1 where st1: "emit_live W args pkt (count_packet st) = Next st1"
        "captured st1 = Suc (captured st)" "written st1 = map_option (\<lambda>ps. ps @ [pcap_of pkt]) (written st)"
        "ctx_ok (pkt_ctx st1)"
        using emit_live_ok [OF assms(1), of "count_packet st" pkt args] Cons.prems by (auto simp: goes_on_def)
      from Cons.IH [OF st1(4)] Cons.prems(2) obtain st' where st':
        "results_loop W args prog False mac (map Delivered pkts @ tail) st1 = results_loop W args prog False mac tail st'"
        "captured st' = captured st1 + length (limit args (captured st1) (filter keep pkts))"
        "written st' = map_option (\<lambda>ps. ps @ map pcap_of (limit args (captured st1) (filter keep pkts))) (written st1)"
        by auto
      then show ?thesis
        using True False st1
        by (intro exI [of _ st']) (simp add: live_packet_def decides limit_Cons keep_def option.map_comp o_def)
    next
      case False': False
      then show ?thesis using Cons False by (auto simp: live_packet_def decides keep_def)
    qed
  qed
qed

text \<open>Filtering in the kernel, when the kernel passes on what the program accepts, changes nothing.\<close>

lemma live_kernel_same:
  "tail_end tail = Some e \<Longrightarrow>
   results_loop W args prog True mac (map Delivered (filter (\<lambda>p. accepts (pkt_data p)) pkts) @ tail) st =
   results_loop W args prog False mac (map Delivered pkts @ tail) st"
proof (induction pkts arbitrary: st)
  case Nil
  then show ?case by (simp add: results_loop_tail)
next
  case (Cons pkt pkts)
  show ?case using Cons by (auto simp: results_loop_reached live_packet_def decides split: step.split)
qed

end

interpretation no_filter: filter_engine None "\<lambda>_. True"
  by unfold_locales (simp add: program_matches_def)

section \<open>The limit is never exceeded\<close>

definition keeps_count :: "step \<Rightarrow> nat \<Rightarrow> bool" where
  "keeps_count r n \<longleftrightarrow> (case r of Next st \<Rightarrow> captured st = n | Stop e st \<Rightarrow> captured st = n)"

lemma keeps_count_print: "keeps_count (print_step W args p st) (captured st)"
  by (auto simp: keeps_count_def print_step_def split: sum.splits)

lemma keeps_count_and_next:
  "keeps_count r n \<Longrightarrow> (\<And>st. captured st = n \<Longrightarrow> keeps_count (f st) n) \<Longrightarrow> keeps_count (and_next r f) n"
  by (cases r) (auto simp: keeps_count_def)

lemma keeps_count_show: "captured st = n \<Longrightarrow> keeps_count (show_read W args pkt st) n"
  "captured st = n \<Longrightarrow> keeps_count (show_live W args p st) n"
  using keeps_count_print [of W args _ "set_first_ts _ st"] keeps_count_print [of W args p st]
  by (auto simp: show_read_def show_live_def Let_def)

lemma keeps_count_Next: "captured st = n \<Longrightarrow> keeps_count (Next st) n"
  "captured st = n \<Longrightarrow> keeps_count (Stop e st) n"
  by (simp_all add: keeps_count_def)

lemma keeps_count_write: "captured st = n \<Longrightarrow> keeps_count (write_step W pkt ps st) n"
  by (auto simp: keeps_count_def write_step_def split: option.split)

lemmas keeps_count_rules = keeps_count_and_next keeps_count_show keeps_count_Next keeps_count_write

lemma keeps_count_emit: "captured st = n \<Longrightarrow> keeps_count (emit_read W args pkt st) n"
  "captured st = n \<Longrightarrow> keeps_count (emit_live W args p st) n"
  unfolding emit_read_def emit_live_def
  by (auto split: option.split intro!: keeps_count_rules)

lemma emit_captured:
  "emit_read W args pkt (count_packet st) = Next st' \<Longrightarrow> captured st' = Suc (captured st)"
  "emit_read W args pkt (count_packet st) = Stop e st' \<Longrightarrow> captured st' = Suc (captured st)"
  "emit_live W args p (count_packet st) = Next st' \<Longrightarrow> captured st' = Suc (captured st)"
  "emit_live W args p (count_packet st) = Stop e st' \<Longrightarrow> captured st' = Suc (captured st)"
  using keeps_count_emit(1) [of "count_packet st" "Suc (captured st)" W args pkt]
    keeps_count_emit(2) [of "count_packet st" "Suc (captured st)" W args p]
  by (simp_all add: keeps_count_def)

lemma read_loop_limit:
  "count_arg args = Some m \<Longrightarrow> captured st \<le> m \<Longrightarrow> captured (snd (read_loop W args prog rs st)) \<le> m"
proof (induction rs arbitrary: st)
  case (Cons r rs)
  then show ?case
    by (auto simp: count_reached_def not_le Suc_le_eq dest!: emit_captured
        split: sum.split option.split bool.split step.split)
qed simp

lemma live_packet_limit:
  assumes "count_arg args = Some m" "captured st \<le> m" "\<not> count_reached args st"
  shows "live_packet W args prog attached mac p st = Stop e st' \<Longrightarrow> captured st' \<le> m"
    "live_packet W args prog attached mac p st = Next st' \<Longrightarrow> captured st' \<le> m"
  using assms
  by (auto simp: live_packet_def count_reached_def not_le Suc_le_eq dest!: emit_captured
      split: if_splits option.splits bool.splits)

lemma results_loop_limit:
  "count_arg args = Some m \<Longrightarrow> captured st \<le> m \<Longrightarrow>
     captured (snd (results_loop W args prog attached mac rs st)) \<le> m"
proof (induction rs arbitrary: st)
  case (Cons r rs)
  then show ?case by (auto dest: live_packet_limit split: next_result.split step.split)
qed simp

lemma live_loop_limit:
  "count_arg args = Some m \<Longrightarrow> captured st \<le> m \<Longrightarrow>
     captured (snd (live_loop W args prog mac s ring polls st)) \<le> m"
  unfolding live_loop_results by (rule results_loop_limit)

lemma run_capture_limit:
  "count_arg args = Some m \<Longrightarrow> captured st \<le> m \<Longrightarrow> captured (snd (run_capture W args prog st)) \<le> m"
  by (auto simp: run_capture_def run_live_def read_loop_limit live_loop_limit
      split: option.split sum.split)

section \<open>Properties of a run\<close>

text \<open>
  C21. A run with \<open>-c m\<close> never captures more than \<open>m\<close> packets, from a file or live, however it ends.
\<close>

theorem run_respects_count:
  assumes "count_arg args = Some m"
  shows "captured (fst (snd (run W args))) \<le> m"
proof -
  have "captured st \<le> m" if "run_capture W args prog (start_state f) = (e, st)" for prog f e st
    using run_capture_limit [OF assms, of "start_state f" W prog] that by (simp add: start_state_def)
  moreover have "captured (start_state None) \<le> m" by (simp add: start_state_def)
  ultimately show ?thesis
    by (auto simp: run_def Let_def split: option.split sum.split prod.split)
qed

text \<open>A world in which one file holds two packets and nothing else works, for the witnesses.\<close>

definition demo_packet :: "u8 \<Rightarrow> PcapPacket" where
  "demo_packet b = \<lparr>pcap_secs = 100, pcap_nanos = 5000, pcap_orig_len = 60, pcap_data = [b]\<rparr>"

definition demo_world :: World where
  "demo_world = \<lparr>w_overflow_checks = True,
     w_pest_parse = pest_filter (\<lambda>_. ''no''),
     w_slicer = (\<lambda>_. None), w_winsize = Some 80, w_read_text = (\<lambda>_. Inl ''no file''),
     w_create_pcap = (\<lambda>_. None), w_write_packet = (\<lambda>_. None),
     w_open_pcap = (\<lambda>_. Inr (map Inr [demo_packet 1, demo_packet 2])), w_getifaddrs = Inl ''no'',
     w_nametoindex = (\<lambda>_. 0), w_os = (\<lambda>_. Inl ''no''), w_page = 4096, w_mac_socket = None,
     w_hwaddr = (\<lambda>_. Inl ''no''), w_ring = (\<lambda>_. []), w_polls = (\<lambda>_. [])\<rparr>"

theorem run_respects_count_witness:
  "captured (fst (snd (run demo_world (Args_default\<lparr>count_arg := Some 1, read_file := Some ''a''\<rparr>)))) \<le> 1"
  by (rule run_respects_count) simp

text \<open>
  With \<open>-d\<close> a run only compiles: it opens, creates, reads and captures nothing, and ends after the
  dump, with an error, or with the panic of the compiler.
\<close>

theorem dump_only_compiles:
  assumes "dump_bpf args" "\<not> list_interfaces_arg args"
  shows "\<exists>e err. run W args = (e, start_state None, err) \<and> e \<noteq> Unfinished"
  using assms
  by (auto simp: run_def load_program_def Let_def split: option.split sum.split failure.split)

theorem dump_only_compiles_witness:
  "\<exists>e err. run demo_world (Args_default\<lparr>dump_bpf := True, filter_words := [''len'']\<rparr>) = (e, start_state None, err)"
proof -
  have "dump_bpf (Args_default\<lparr>dump_bpf := True, filter_words := [''len'']\<rparr>)"
    "\<not> list_interfaces_arg (Args_default\<lparr>dump_bpf := True, filter_words := [''len'']\<rparr>)"
    by (simp_all add: Args_default_def)
  from dump_only_compiles [OF this, of demo_world] show ?thesis by blast
qed



lemma show_delta_zero: "show_delta oc 0 = Inr ''000.000000''"
proof -
  have "show_int_pad 3 0 = ''000''" "show_int_pad 6 0 = ''000000''" by code_simp+
  then show ?thesis by (simp add: show_delta_def i64_checked_def)
qed



end
