(* ===== verification/Af_Lifetime.thy ===== *)
theory Af_Lifetime
  imports AfPacket
begin

text \<open>
  The resources of a capture socket, from \<^verbatim>\<open>crates/netdump-afpacket/src/lib.rs\<close>: the file descriptor,
  owned by an \<open>OwnedFd\<close> from the moment \<open>socket\<close> returns it and closed wherever that is dropped, and the
  mapping of the ring, which \<open>Drop for AfPacketSocket\<close> unmaps.
\<close>

section \<open>The life of a socket\<close>

datatype life_call = Call Syscall | Munmap nat | CloseFd

text \<open>
  Dropping the socket: the body of \<open>drop\<close> first, then the fields. A mapping that \<open>mmap\<close> has returned is
  not null.
\<close>

definition drop_socket :: "AfPacketSocket \<Rightarrow> life_call list" where
  "drop_socket s = [Munmap (sock_ring_size s), CloseFd]"

text \<open>Leaving \<open>open_with_options\<close> early, by an error or a panic, drops the descriptor if there is one.\<close>

definition fd_owned :: "OS \<Rightarrow> Syscall list \<Rightarrow> bool" where
  "fd_owned os calls \<longleftrightarrow> SocketCall \<in> set calls \<and> (case os SocketCall of Inl _ \<Rightarrow> False | Inr _ \<Rightarrow> True)"

definition socket_life :: "OS \<Rightarrow> nat \<Rightarrow> string \<Rightarrow> OpenOptions \<Rightarrow> life_call list" where
  "socket_life os page ifname opts =
     (case open_with_options os page ifname opts of
        (calls, Inr (Some s)) \<Rightarrow> map Call calls @ drop_socket s
      | (calls, _) \<Rightarrow> map Call calls @ (if fd_owned os calls then [CloseFd] else []))"

section \<open>What is held\<close>

text \<open>
  The descriptors open and the mappings in place, as the kernel keeps them. Unmapping what is not
  mapped, closing what is not open, and closing a descriptor whose mapping is still there are
  mistakes: \<open>None\<close>.
\<close>

type_synonym held = "nat \<times> nat list"

definition acquire :: "OS \<Rightarrow> Syscall \<Rightarrow> held \<Rightarrow> held" where
  "acquire os c h =
     (case (os c, c) of
        (Inr _, SocketCall) \<Rightarrow> (Suc (fst h), snd h)
      | (Inr _, Mmap n) \<Rightarrow> (fst h, n # snd h)
      | _ \<Rightarrow> h)"

fun run_life :: "OS \<Rightarrow> life_call list \<Rightarrow> held \<Rightarrow> held option" where
  "run_life os [] h = Some h"
| "run_life os (Call c # cs) h = run_life os cs (acquire os c h)"
| "run_life os (Munmap n # cs) h =
     (if n \<in> set (snd h) then run_life os cs (fst h, remove1 n (snd h)) else None)"
| "run_life os (CloseFd # cs) h =
     (if 0 < fst h \<and> snd h = [] then run_life os cs (fst h - 1, snd h) else None)"

lemma run_life_calls: "run_life os (map Call calls @ cs) h = run_life os cs (fold (acquire os) calls h)"
  by (induction calls arbitrary: h) auto

lemma run_life_only_calls: "run_life os (map Call calls) h = Some (fold (acquire os) calls h)"
  using run_life_calls [of os calls "[]" h] by simp

section \<open>What opening acquires\<close>

text \<open>
  From a state with \<open>n\<close> descriptors and no mapping, a computation that yields a socket holds its
  descriptor and its mapping, and one that fails holds at most the descriptor.
\<close>

definition acquires :: "OS \<Rightarrow> nat \<Rightarrow> AfPacketSocket option sys \<Rightarrow> bool" where
  "acquires os n m \<longleftrightarrow>
     fold (acquire os) (fst m) (n, []) =
       (case snd m of
          Inr (Some s) \<Rightarrow> (1, [sock_ring_size s])
        | _ \<Rightarrow> (if n = 1 \<or> fd_owned os (fst m) then 1 else 0, []))"

definition neutral :: "Syscall \<Rightarrow> bool" where
  "neutral c \<longleftrightarrow> c \<noteq> SocketCall \<and> (\<forall>n. c \<noteq> Mmap n)"

lemma neutral_simps [simp]:
  "neutral (IfNameToIndex s)" "neutral SetNonBlocking" "neutral (SetRcvBuf i)" "neutral (GetFlags s)"
  "neutral (SetPromisc s)" "neutral SetPacketVersion" "neutral (Bind ix)" "neutral (AttachFilter l p)"
  "neutral (SetRxRing req)"
  by (simp_all add: neutral_def)

lemma acquire_neutral: "neutral c \<Longrightarrow> acquire os c h = h"
  by (auto simp: neutral_def acquire_def split: sum.split Syscall.split)

lemma fd_owned_neutral: "neutral c \<Longrightarrow> fd_owned os (c # cs) = fd_owned os cs"
  by (auto simp: neutral_def fd_owned_def)

lemma sys_bind_call: "os c = Inr v \<Longrightarrow> sys_bind (syscall os msg c) f = (c # fst (f v), snd (f v))"
  and sys_bind_call_fails: "os c = Inl e \<Longrightarrow> sys_bind (syscall os msg c) f = ([c], Inl (Io (msg @ e)))"
  and sys_bind_hint: "os c = Inr v \<Longrightarrow> sys_bind (syscall_hint os msg hint c) f = (c # fst (f v), snd (f v))"
  and sys_bind_hint_fails:
    "os c = Inl e \<Longrightarrow> sys_bind (syscall_hint os msg hint c) f = ([c], Inl (Io (msg @ e @ hint)))"
  by (simp_all add: sys_bind_def syscall_def syscall_hint_def split: prod.split)

lemmas sys_bind_results = sys_bind_call sys_bind_call_fails sys_bind_hint sys_bind_hint_fails

lemma acquires_fail: "n \<le> 1 \<Longrightarrow> acquires os n (sys_fail e)" "n \<le> 1 \<Longrightarrow> acquires os n (sys_return None)"
  by (auto simp: acquires_def sys_fail_def sys_return_def fd_owned_def)

lemma acquires_call:
  assumes "neutral c" "n \<le> 1" "\<And>v. acquires os n (f v)"
  shows "acquires os n (sys_bind (syscall os msg c) f)" "acquires os n (sys_bind (syscall_hint os msg hint c) f)"
  using assms(1,2) assms(3) [unfolded acquires_def]
  by (cases "os c"; simp add: acquires_def sys_bind_results acquire_neutral fd_owned_neutral;
      auto simp: fd_owned_def)+

lemma acquires_socket:
  assumes "\<And>v. acquires os 1 (f v)"
  shows "acquires os 0 (sys_bind (syscall os msg SocketCall) f)"
proof (cases "os SocketCall")
  case (Inl e)
  then show ?thesis by (simp add: acquires_def sys_bind_results acquire_def fd_owned_def)
next
  case (Inr v)
  then show ?thesis
    using assms [of v, unfolded acquires_def]
    by (simp add: acquires_def sys_bind_results acquire_def fd_owned_def split: sum.splits option.splits)
qed

lemma acquires_mmap:
  "acquires os 1 (sys_bind (syscall os msg (Mmap (sock_ring_size s))) (\<lambda>_. sys_return (Some s)))"
  by (cases "os (Mmap (sock_ring_size s))")
    (simp_all add: acquires_def sys_bind_results acquire_def sys_return_def)

lemma sys_bind_fail [simp]: "sys_bind (sys_fail e) f = sys_fail e"
  by (simp add: sys_bind_def sys_fail_def)

lemma open_acquires: "acquires os 0 (open_with_options os page ifname opts)"
proof -
  have mmap: "acquires os 1 (sys_bind (syscall os msg (Mmap n)) (\<lambda>_. sys_return (Some s)))"
    if "sock_ring_size s = n" for msg n s
    using acquires_mmap that by blast
  show ?thesis
    unfolding open_with_options_def ifname_to_index_def set_promiscuous_def set_non_blocking_def bind_to_interface_def
    by (auto intro!: acquires_call acquires_socket acquires_fail mmap split: option.split)
qed

section \<open>The property\<close>

text \<open>
  C20. A capture socket leaks nothing and releases nothing twice: from the first system call of opening
  to the drop, whichever call fails, each descriptor opened is closed and each mapping unmapped, in an
  order in which the mapping goes first.
\<close>

theorem socket_life_balanced: "run_life os (socket_life os page ifname opts) (0, []) = Some (0, [])"
proof -
  obtain calls r where o: "open_with_options os page ifname opts = (calls, r)" by fastforce
  have "acquires os 0 (calls, r)" using open_acquires [of os page ifname opts] o by simp
  then have held: "fold (acquire os) calls (0, []) =
      (case r of Inr (Some s) \<Rightarrow> (1, [sock_ring_size s]) | _ \<Rightarrow> (if fd_owned os calls then 1 else 0, []))"
    by (simp add: acquires_def)
  show ?thesis
    by (cases r rule: sum.exhaust; auto simp: socket_life_def o run_life_calls run_life_only_calls held drop_socket_def split: option.split)
qed

end
