(* ===== verification/Spec2Isabelle.thy ===== *)
theory Spec2Isabelle
  imports Filter_Errors Parser_Tests Vm_Tests Core_Tests Cli_Tests Cli_Run_Correct Rx_Ring Af_Lifetime
begin

text \<open>
  A model of netdump, a packet analyzer for Linux written in Rust, and the proofs that its parts do
  what they should. Paths are relative to the root of the repository.

  \<^bold>\<open>The program and its model.\<close> A filter expression is parsed, compiled to classic BPF and run, in the
  kernel or by a virtual machine, on the packets of a capture file or of a live ring buffer; packets
  that pass are printed or written.

  \<^item> \<^verbatim>\<open>crates/netdump-filter/src/types.rs\<close>, instructions and opcodes: \<open>Bpf_Types\<close>. Machine integers are
    words, \<open>usize\<close> is \<open>nat\<close>.
  \<^item> \<^verbatim>\<open>crates/netdump-cbpf/src/vm.rs\<close>, the virtual machine: \<open>Vm\<close>. The loop of \<open>exec\<close> is the partial
    function \<open>exec_loop\<close>, its body \<open>vm_step\<close>.
  \<^item> \<^verbatim>\<open>crates/netdump-filter/src/lib.rs\<close>, expressions and their construction from the pairs of the pest
    parser: \<open>Filter_Ast\<close>, \<open>Filter_Parser\<close>. The number, address and string functions of the Rust library
    that it uses are in \<open>Std_Text\<close> and \<open>Std_Net\<close>.
  \<^item> \<^verbatim>\<open>crates/netdump-filter/src/filter.pest\<close>, the grammar: \<open>filter_rule\<close> in \<open>Filter_Pest\<close>, rule by rule, over
    the parsing expressions of \<open>Pest\<close>. The parser that pest generates is the parameter \<open>pest_parse\<close>;
    properties of texts assume that it follows the grammar (\<open>follows_grammar\<close>), which \<open>pest_filter\<close> does.
    \<open>Filter_Grammar\<close> says which trees the tree builder relies on (\<open>conforms\<close>).
  \<^item> \<^verbatim>\<open>crates/netdump-filter/src/assembler.rs\<close> and \<^verbatim>\<open>compiler.rs\<close>: \<open>Assembler\<close>, \<open>Compiler\<close>, in the state
    monad over the assembler. A panic is a value of \<open>Panic\<close>.
  \<^item> \<^verbatim>\<open>crates/netdump-core/src/lib.rs\<close>: \<open>Core_Types\<close>, and \<open>Packet_Info\<close> for \<open>parse_packet\<close>, whose slicer
    (the etherparse crate) is a parameter; \<open>slices_ethernet\<close> in \<open>Packet_Slices\<close> is what the crate
    documents of it.
  \<^item> \<^verbatim>\<open>crates/netdump-afpacket/src/lib.rs\<close>: \<open>AfPacket\<close> for opening the socket (a computation that makes
    system calls, with the operating system \<open>os\<close> a parameter that answers each call), \<open>Af_Lifetime\<close> for
    its descriptor and mapping up to the drop, \<open>Rx_Ring\<close> for reading the ring shared with the kernel,
    \<open>Af_Interfaces\<close> for the interface queries.
  \<^item> \<^verbatim>\<open>crates/netdump-cli/src/main.rs\<close>: \<open>Cli_Format\<close> and \<open>Cli_Print\<close> for the text of a packet, \<open>Cli_Run\<close> for
    \<open>run\<close> and \<open>main\<close>, with files, the pcap crate, the operating system and the memory of the ring in the
    record \<open>World\<close>. The live loop calls \<open>next_packet\<close> on the socket that was opened.

  \<^bold>\<open>What is proved.\<close>

  \<^item> \<open>Code_Blocks\<close>, \<open>Reference_Codegen\<close>: a label-free code generator over blocks with symbolic targets, and
    that the assembler's labels and resolution implement it (\<open>compile_refines_reference\<close>).
    \<open>Block_Semantics\<close>, \<open>Filter_Semantics\<close>: running a block on the machine, and which packets an
    expression should match (\<open>matches\<close>). \<open>Block_Generators\<close>, \<open>Compiler_Correct\<close>: the locale of code generators
    that decide a predicate, closed under the connectives and interpreted for every predicate, which
    gives the correctness of the compiler (\<open>compile_correct\<close>). \<open>Compiler_Limits\<close>: which
    expressions compile, as jumps reach 255 instructions: nine predicates always do, a disjunction of
    44 hosts never does.
  \<^item> \<open>Vm\<close>: termination of the loop for every program, and its invariants; no fuel is used.
  \<^item> \<open>Pest\<close>: a match of a parsing expression is a derivation (\<open>derives\<close>), and a grammar without left recursion
    ends within as many nested rules for each character as the locale \<open>finite_grammar\<close> numbers, which is
    nine here, and has equations without fuel. \<open>Filter_Pest\<close>: this grammar is one, and its trees conform.
    \<open>Filter_Parser_Correct\<close>: on conforming trees the builder returns a valid expression, an error about
    the input, or the overflow of a zero prefix length. \<open>Predicate_Text\<close>, \<open>Filter_Text\<close>: what the grammar
    reads from the text of an expression, with operands in chains (locale \<open>repeated\<close>), so that every
    expression is read back from every way to write it (\<open>writes\<close>), and the parser's result on every text
    at all. \<open>Filter_Errors\<close>: the errors about numbers, from the text.
  \<^item> \<open>Rx_Ring\<close>: the ring is a queue for any interleaving of kernel and reader, by an invariant of the step
    relation \<open>capture_step\<close>; the loop of \<open>next_packet\<close> terminates up to its next poll. \<open>Packet_Source\<close> is the
    interface through which the ring is read. \<open>capture_results\<close> are the results of all calls, which
    terminate because \<open>ring_order\<close> decreases; they are the packets in the ring and then the \<open>arrivals\<close>, those
    the kernel puts in during the polls (\<open>capture_is_complete\<close>).
  \<^item> \<open>AfPacket\<close>: order of the system calls, geometry of the ring. \<open>Af_Lifetime\<close>: nothing opened is leaked or
    released twice, whichever call fails. \<open>Cli_Format\<close>, \<open>Cli_Dates\<close>, \<open>Cli_Print\<close>: round
    trip of the hex dump, the calendar, and that printing does not panic. \<open>Cli_Run_Correct\<close>: which
    packets the capture loops keep, for any filter that decides a predicate (locale
    \<open>filter_engine\<close>); the live loop is the loop over a list of results, \<open>results_loop\<close>, run on
    \<open>capture_results\<close>.
  \<^item> \<open>Packet_Slices\<close>: the compiled filter and the summary that is printed of a packet agree, except on
    fragments.
  \<^item> \<open>Parser_Tests\<close>, \<open>Vm_Tests\<close>, \<open>Core_Tests\<close>, \<open>Cli_Tests\<close>: the unit tests of the repository, which hold of the model.
  \<^item> This theory: the compiler and the machine together, networks from prefix to packet, and whole
    runs, from the command line to the file written.

  \<^bold>\<open>Conventions.\<close> A Rust \<open>Result\<close> is a sum with the error on the left, \<open>and_then\<close> is the question mark
  operator. Arithmetic that panics with overflow checks and wraps without takes the flag \<open>oc\<close>. A
  call that may wait takes the list of what will happen, the events of \<open>poll\<close>, each with the ring
  as it is then, and says so when the list ends. The kernel writes to the ring only while the program
  polls there; any other interleaving is the business of \<open>capture_step\<close>. Programs are assumed shorter
  than \<open>2 ^ 60\<close> instructions, which is below the limit Rust puts on the size of a vector, and the
  timestamps printed below \<open>2 ^ 43\<close> seconds.

  \<^bold>\<open>Not modelled.\<close> The argument parser (the clap crate), whose result is the record \<open>Args\<close>; the text of
  pest's error messages; the pcap and etherparse crates; the C layout of the ring's headers; flushing of
  files, the messages of panics; terminals whose text is not ASCII (\<open>trim\<close> knows the ASCII spaces); the
  tests of the socket, which test the machine they run on.
\<close>

section \<open>The filter compiler and the virtual machine\<close>

text \<open>
  C1. Compiling a filter expression is correct: whenever \<open>compile\<close> returns a program, the virtual
  machine on that program returns, on every packet whatever its length, and accepts exactly the
  packets that match the expression.
\<close>

theorem compile_correct:
  assumes "compile ast = Inr prog" "vec_len_ok prog"
  shows "Vm_exec prog pkt = Some (matches ast pkt)"
  using assms by (rule compile_vm)

theorem compile_correct_witness:
  "\<exists>prog. compile (And (Proto Tcp) (Port 80 Dst)) = Inr prog \<and>
     (\<forall>pkt. Vm_exec prog pkt = Some (matches (And (Proto Tcp) (Port 80 Dst)) pkt))"
proof -
  have few: "predicates (And (Proto Tcp) (Port 80 Dst)) \<le> 9" by simp
  show ?thesis using compile_few [OF few] compile_correct by blast
qed

text \<open>
  C2. The label-based code generator and assembler implement the label-free reference generator:
  the result of \<open>compile\<close> is the flattened reference block followed by the two returns, or, when
  some jump of that block does not fit in a byte, the panic that reports the first such offset.
\<close>

theorem compile_refines_reference:
  "compile ast = (case first_far (node_block ast) of
     None \<Rightarrow> Inr (flatten (node_block ast) @ [ret_k CBPF_ACCEPT, ret_k CBPF_REJECT])
   | Some d \<Rightarrow> Inl (OffsetTooLarge d))"
  by (simp add: compile_is_link link_def)

text \<open>
  C10. The only panic of \<open>compile\<close> is the offset assertion: no label is left unresolved, no jump goes
  backward and no index leaves the instruction vector.
\<close>

theorem compile_panics_only_on_far_jumps:
  "case compile ast of Inr prog \<Rightarrow> True | Inl p \<Rightarrow> \<exists>d > 255. p = OffsetTooLarge d"
  using first_far_large by (auto simp: compile_is_link link_def split: option.split)

text \<open>
  C11. Every expression of at most nine predicates, combined in any way, compiles, to at most
  \<open>26\<close> instructions per predicate and the two returns.
\<close>

theorem compile_total_on_small:
  assumes "predicates ast \<le> 9"
  shows "\<exists>prog. compile ast = Inr prog \<and> length prog \<le> 26 * predicates ast + 2"
proof -
  have "length (node_block ast) \<le> 255" using length_node_block [of ast] assms by linarith
  then show ?thesis using length_node_block [of ast] by (simp add: compile_small)
qed

theorem compile_total_on_small_witness:
  "\<exists>prog. compile (Or (Net (NetV6 (Ipv6Addr 1) (Ipv6Addr 3)) Any) (Not' (PortRange 1 2 Any))) = Inr prog \<and> length prog \<le> 54"
  using compile_total_on_small [of "Or (Net (NetV6 (Ipv6Addr 1) (Ipv6Addr 3)) Any) (Not' (PortRange 1 2 Any))"] by simp

text \<open>
  C12. A disjunction of 44 or more \<open>host\<close> predicates makes \<open>compile\<close> panic: the accepting jump of the
  first host would be longer than 255 instructions.
\<close>

theorem compile_panics_on_long_or:
  assumes "length as \<ge> 43"
  shows "\<exists>d. compile (or_hosts a as) = Inl (OffsetTooLarge d)"
proof -
  obtain x g where len: "length (node_block (or_hosts a as)) = 6 + 6 * length as"
    and nth: "node_block (or_hosts a as) ! 3 = Jmp x Acc g"
    using node_block_or_hosts by blast
  have "first_far (node_block (or_hosts a as)) \<noteq> None"
    by (rule first_far_Acc [OF _ nth]) (use len assms in auto)
  then show ?thesis by (auto simp: compile_is_link link_def)
qed

theorem compile_panics_on_long_or_witness:
  "\<exists>d. compile (or_hosts (Ipv4Addr 1) (map Ipv4Addr (replicate 43 2))) = Inl (OffsetTooLarge d)"
  by (rule compile_panics_on_long_or) simp

text \<open>
  C15. Compiled programs obey the jump discipline of classic BPF (not empty, ends in a return, every
  jump lands on an instruction), so the machine is at an instruction of the program whenever the
  loop goes round: it never leaves through the end of the program.
\<close>

theorem compiled_run_stays_inside:
  assumes "compile ast = Inr prog" "vec_len_ok prog" "vm_iterate prog pkt n vm_init s"
  shows "jump_safe prog \<and> pc s < length prog"
  using assms compile_jump_safe [OF assms(1)] compile_length [OF assms(1)]
    jump_safe_iterate [OF assms(3)]
  by (simp add: vm_init_def)

theorem compiled_run_stays_inside_witness:
  "\<exists>prog s. compile (Proto Arp) = Inr prog \<and> vm_iterate prog [] 1 vm_init s \<and> pc s < length prog"
proof -
  let ?prog = "flatten (node_block (Proto Arp)) @ [ret_k CBPF_ACCEPT, ret_k CBPF_REJECT]"
  have few: "predicates (Proto Arp) \<le> 9" by simp
  note c = compile_few(1) [OF few] and v = compile_few(2) [OF few]
  have "?prog ! 0 = ld_abs_h 12" by (simp add: block_simps)
  then have "vm_step [] (?prog ! pc vm_init) (vm_init\<lparr>pc := pc vm_init + 1\<rparr>) = Continue (vm_init\<lparr>pc := 1\<rparr>)"
    by (simp add: vm_init_def vm_step_def step_ld_def load_sized_def bpf_defs read_u16_def)
  then have it: "vm_iterate ?prog [] 1 vm_init (vm_init\<lparr>pc := 1\<rparr>)"
    using iterate_Suc [OF iterate_0, of vm_init ?prog "[]" "vm_init\<lparr>pc := 1\<rparr>"]
    by (simp add: vm_init_def)
  show ?thesis using c it compiled_run_stays_inside [OF c v it] by blast
qed

text \<open>
  Negation costs nothing and De Morgan's laws hold for the generated code itself: the compiler
  emits the same program for both sides.
\<close>

lemma compile_de_morgan:
  "compile (Not' (And l r)) = compile (Or (Not' l) (Not' r)) \<and>
   compile (Not' (Or l r)) = compile (And (Not' l) (Not' r)) \<and>
   compile (Not' (Not' l)) = compile l"
  by (simp add: compile_is_link not_and_block not_or_block not_not_block)

text \<open>
  C32. The port range test in direction \<open>Any\<close> is not the disjunction of the tests for \<open>Src\<close> and \<open>Dst\<close>:
  it is that disjunction except for packets whose source port lies below the range and whose
  destination port lies in it, which it rejects.
\<close>

theorem port_range_any:
  "run_filter (PortRange lo hi Any) pkt = Some True \<longleftrightarrow>
     (run_filter (PortRange lo hi Src) pkt = Some True \<or>
      run_filter (PortRange lo hi Dst) pkt = Some True) \<and>
     \<not> (src_port_of pkt < lo \<and> in_range lo hi (dst_port_of pkt))"
  by (auto simp: run_filter_few range_matches_def in_range_def not_less)

text \<open>
  An IPv6 network whose address has a bit set outside its mask matches no packet at all, in
  any direction.
\<close>

theorem ipv6_net_with_host_bits_never_matches:
  assumes "u128_from_ipv6 a AND u128_from_ipv6 m \<noteq> u128_from_ipv6 a"
  shows "run_filter (Net (NetV6 a m) dir) pkt = Some False"
proof -
  have "w AND u128_from_ipv6 m \<noteq> u128_from_ipv6 a" for w
    using assms by (metis and.assoc and.idem)
  then show ?thesis by (cases dir) (simp_all add: run_filter_few on_dir_def)
qed

theorem ipv6_net_with_host_bits_never_matches_witness:
  "\<forall>pkt. run_filter (Net (NetV6 (Ipv6Addr 1) (Ipv6Addr (- 2))) Any) pkt = Some False"
  using ipv6_net_with_host_bits_never_matches [of "Ipv6Addr 1" "Ipv6Addr (- 2)"] by simp

text \<open>
  An IPv4 network, in contrast, is compared by its masked address: the host bits of the address
  the user wrote do not matter, down to the generated program.
\<close>

theorem ipv4_net_ignores_host_bits:
  "compile (Net (NetV4 a m) dir) =
   compile (Net (NetV4 (Ipv4Addr (u32_from_ipv4 a AND u32_from_ipv4 m)) m) dir)"
  by (simp add: compile_is_link and.assoc)

text \<open>The first and the last address of a network.\<close>

definition first_ipv4 :: "Ipv4Addr \<Rightarrow> u8 \<Rightarrow> Ipv4Addr" where
  "first_ipv4 a p = Ipv4Addr (u32_from_ipv4 a AND NOT (mask (32 - unat p)))"

definition last_ipv4 :: "Ipv4Addr \<Rightarrow> u8 \<Rightarrow> Ipv4Addr" where
  "last_ipv4 a p = Ipv4Addr (u32_from_ipv4 a OR mask (32 - unat p))"

lemma parse_prefix:
  "follows_grammar pest_parse \<Longrightarrow> prefix_fits h p \<Longrightarrow> combine_net oc h (Prefix p) = Inr net \<Longrightarrow>
     parse pest_parse oc (prefix_text dir h p) = Inr (Net net dir)"
  "follows_grammar pest_parse \<Longrightarrow> prefix_fits h p \<Longrightarrow> combine_net oc h (Prefix p) = Inl e \<Longrightarrow>
     parse pest_parse oc (prefix_text dir h p) = Inl e"
  by (metis follows_grammar_filter parse_prefix_text and_then.simps)+

text \<open>
  C29. A network written as \<open>net\<close>, an address, a slash and a length from 1 to 32 is a filter that matches
  exactly the IPv4 packets whose address lies between the first and the last address of the network,
  in every build.
\<close>

theorem ipv4_prefix_filter:
  assumes "follows_grammar pest_parse" "0 < p" "p \<le> 32"
  shows "\<exists>ast. parse pest_parse oc (prefix_text dir (HostV4 a) p) = Inr ast \<and>
    run_filter ast pkt = Some (is_ipv4 pkt \<and>
      on_dir dir (read_ipv4 pkt 26 \<in> {first_ipv4 a p .. last_ipv4 a p})
                 (read_ipv4 pkt 30 \<in> {first_ipv4 a p .. last_ipv4 a p}))"
proof -
  have "unat p \<noteq> 0" using assms(2) by (simp add: unat_eq_zero word_gt_0)
  then have "(32 - unat p) mod 32 = 32 - unat p" by simp
  moreover have "p \<noteq> 0" using assms(2) by auto
  moreover have "read_ipv4 pkt off \<in> {first_ipv4 a p .. last_ipv4 a p} \<longleftrightarrow>
      drop_bit (32 - unat p) (read_u32 pkt off) = drop_bit (32 - unat p) (u32_from_ipv4 a)" for off
    unfolding leading_bits_interval by (simp add: first_ipv4_def last_ipv4_def less_eq_Ipv4Addr_def read_ipv4_def)
  moreover have "prefix_fits (HostV4 a) p" using assms(3) by simp
  ultimately show ?thesis
    using assms(3) parse_prefix(1) [OF assms(1), of "HostV4 a" p oc _ dir]
    by (simp add: combine_net_prefix4 run_filter_few and_high_mask_eq_iff read_ipv4_def)
qed

theorem ipv4_prefix_filter_witness:
  "\<forall>pkt. \<exists>ast. parse (pest_filter (\<lambda>_. ''no'')) True ''src net 192.168.1.2/16'' = Inr ast \<and>
    run_filter ast pkt = Some (is_ipv4 pkt \<and>
      read_ipv4 pkt 26 \<in> {first_ipv4 (Ipv4Addr 0xC0A80102) 16 .. last_ipv4 (Ipv4Addr 0xC0A80102) 16})"
proof -
  have "prefix_text Src (HostV4 (Ipv4Addr 0xC0A80102)) 16 = ''src net 192.168.1.2/16''" by code_simp
  then show ?thesis
    using ipv4_prefix_filter [OF pest_filter_follows, of 16 _ True Src "Ipv4Addr 0xC0A80102"] by (simp add: on_dir_def)
qed

text \<open>
  C30. For IPv6 the network matches the packets whose address agrees with the given one in the leading
  bits only when that address has no bit beyond the prefix; otherwise it matches nothing.
\<close>

theorem ipv6_prefix_filter:
  assumes "follows_grammar pest_parse" "0 < p" "p \<le> 128"
  shows "\<exists>ast. parse pest_parse oc (prefix_text dir (HostV6 a) p) = Inr ast \<and>
    run_filter ast pkt = Some (is_ipv6 pkt \<and>
      take_bit (128 - unat p) (u128_from_ipv6 a) = 0 \<and>
      on_dir dir
        (drop_bit (128 - unat p) (u128_from_ipv6 (read_ipv6 pkt 22)) = drop_bit (128 - unat p) (u128_from_ipv6 a))
        (drop_bit (128 - unat p) (u128_from_ipv6 (read_ipv6 pkt 38)) = drop_bit (128 - unat p) (u128_from_ipv6 a)))"
proof -
  let ?n = "128 - unat p" and ?a = "u128_from_ipv6 a"
  have "unat p \<noteq> 0" using assms(2) by (simp add: unat_eq_zero word_gt_0)
  then have n: "?n mod 128 = ?n" "p \<noteq> 0" using assms(2) by auto
  have "w AND NOT (mask ?n) = ?a \<longleftrightarrow> take_bit ?n ?a = 0 \<and> drop_bit ?n w = drop_bit ?n ?a" for w :: u128
    by (rule high_mask_eq_iff)
  moreover have "prefix_fits (HostV6 a) p" using assms(3) by simp
  ultimately show ?thesis
    using assms(2,3) n parse_prefix(1) [OF assms(1), of "HostV6 a" p oc _ dir]
    by (cases dir) (auto simp: combine_net_prefix6 run_filter_few on_dir_def)
qed

theorem ipv6_prefix_filter_witness:
  "\<forall>pkt. \<exists>ast. parse (pest_filter (\<lambda>_. ''no'')) False ''net 0:0:0:0:0:0:0:1/64'' = Inr ast \<and>
    run_filter ast pkt = Some False"
proof -
  have "prefix_text Any (HostV6 (Ipv6Addr 1)) 64 = ''net 0:0:0:0:0:0:0:1/64''" by code_simp
  then show ?thesis using ipv6_prefix_filter [OF pest_filter_follows, of 64 _ False Any "Ipv6Addr 1"] by simp
qed

text \<open>
  C31. A prefix of length 0, which the parser admits, is not the network that contains every address:
  with overflow checks building it panics, and without them it is the single address.
\<close>

lemma combine_zero_prefix:
  "combine_net True h (Prefix 0) = Inl OverflowPanic"
  "\<exists>net. combine_net False h (Prefix 0) = Inr net \<and> run_filter (Net net dir) pkt = run_filter (Host h dir) pkt"
proof -
  show "combine_net True h (Prefix 0) = Inl OverflowPanic"
    by (cases h) (simp_all add: combine_net_prefix4 combine_net_prefix6)
  show "\<exists>net. combine_net False h (Prefix 0) = Inr net \<and> run_filter (Net net dir) pkt = run_filter (Host h dir) pkt"
  proof (cases h)
    case (HostV4 a)
    then show ?thesis
      by (cases a; cases dir) (auto simp: combine_net_prefix4 run_filter_few on_dir_def read_ipv4_def)
  next
    case (HostV6 a)
    then show ?thesis
      by (cases a; cases dir) (auto simp: combine_net_prefix6 run_filter_few on_dir_def read_ipv6_def)
  qed
qed

theorem zero_prefix_filter:
  assumes "follows_grammar pest_parse"
  shows "parse pest_parse True (prefix_text dir h 0) = Inl OverflowPanic \<and>
    (\<exists>ast. parse pest_parse False (prefix_text dir h 0) = Inr ast \<and> run_filter ast pkt = run_filter (Host h dir) pkt)"
proof -
  have h: "prefix_fits h 0" by (cases h) simp_all
  from parse_prefix [OF assms h] combine_zero_prefix [of h] show ?thesis by metis
qed

theorem zero_prefix_filter_witness:
  "parse (pest_filter (\<lambda>_. ''no'')) True ''dst net 10.0.0.0/0'' = Inl OverflowPanic"
proof -
  have "prefix_text Dst (HostV4 (Ipv4Addr 0x0A000000)) 0 = ''dst net 10.0.0.0/0''" by code_simp
  with zero_prefix_filter [OF pest_filter_follows, of _ Dst "HostV4 (Ipv4Addr 0x0A000000)"] show ?thesis by simp
qed

section \<open>The program as a whole\<close>

lemma compiled_engine:
  "compile ast = Inr prog \<Longrightarrow> vec_len_ok prog \<Longrightarrow> filter_engine (Some prog) (matches ast)"
  by unfold_locales (simp add: program_matches_def compile_vm)

text \<open>The engine of every expression small enough to compile for certain.\<close>

definition small_program :: "FilterAst \<Rightarrow> Instruction list option" where
  "small_program ast =
     (if predicates ast \<le> 9 then (case compile ast of Inr prog \<Rightarrow> Some prog | Inl _ \<Rightarrow> None) else None)"

interpretation small: filter_engine "small_program ast" "\<lambda>pkt. predicates ast \<le> 9 \<longrightarrow> matches ast pkt" for ast
proof
  fix data
  show "program_matches (small_program ast) data = Some (predicates ast \<le> 9 \<longrightarrow> matches ast data)"
  proof (cases "predicates ast \<le> 9")
    case True
    then obtain prog where "compile ast = Inr prog" "vec_len_ok prog" using compile_few by blast
    with True show ?thesis by (simp add: small_program_def program_matches_def compile_vm)
  qed (simp add: small_program_def program_matches_def)
qed


definition demo_args :: Args where
  "demo_args = Args_default\<lparr>filter_words := [''len'', ''>'', ''0''], read_file := Some ''a'', write_file := Some ''b''\<rparr>"


text \<open>
  C18. A live capture with the filter in user space keeps exactly the packets that match the expression
  and that \<open>-Q\<close> does not exclude, in order and up to the limit. From any state the kernel and the
  reader have reached, these are kept from the packets in the ring and from all that the kernel puts
  into it while the program polls; the loop ends with the limit, or with the first poll that fails,
  and goes on otherwise.
\<close>

theorem live_loop_filters:
  assumes "compile ast = Inr prog" "vec_len_ok prog" "writes_ok W" "ctx_ok (pkt_ctx st)"
    and "fresh_socket s ring" "reachable oc (capture_init s ring) c" "\<not> kernel_filter_attached (sock c)"
    and "polls_ok (length (shared c)) (kernel_pos c) polls"
    and "\<forall>p \<in> set (pending_packets (sock c) (shared c) @ arrivals (sock_ifindex (sock c)) (kernel_pos c) polls). live_ok p"
  shows "\<exists>st' kept e. live_loop W args (Some prog) mac (sock c) (shared c) polls st =
      (if count_reached args st' then Ended else e, st') \<and> tail_end (poll_outcome polls) = Some e \<and>
    kept = limit args (captured st) (filter (\<lambda>p. matches ast (pkt_data p) \<and>
      \<not> direction_skips (direction args) mac (pkt_data p))
      (pending_packets (sock c) (shared c) @ arrivals (sock_ifindex (sock c)) (kernel_pos c) polls)) \<and>
    captured st' = captured st + length kept \<and>
    written st' = map_option (\<lambda>ps. ps @ map pcap_of kept) (written st)"
proof -
  obtain e where e: "tail_end (poll_outcome polls) = Some e" using tail_end_poll by blast
  have "ring_inv (kernel_pos c) (sock c) (shared c)"
    using reachable_inv [OF assms(6,5)] by (simp add: capture_inv_def)
  moreover from this have "length (shared c) = sock_block_nr (sock c)" by (simp add: ring_inv_def)
  ultimately have all: "capture_results (w_overflow_checks W) (sock c) (shared c) polls =
      map Delivered (pending_packets (sock c) (shared c) @ arrivals (sock_ifindex (sock c)) (kernel_pos c) polls) @
      poll_outcome polls"
    using capture_results_arrivals assms(8) by simp
  have "kernel_filter_attached (sock c) = False" using assms(7) by simp
  note loop = live_loop_results [of W args "Some prog" mac "sock c" "shared c" polls st, unfolded this all]
  from filter_engine.live_captures [OF compiled_engine [OF assms(1,2)] assms(3,4,9),
      where args = args and mac = mac and tail = "poll_outcome polls"]
  show ?thesis unfolding loop results_loop_tail [OF e] using e by blast
qed

theorem live_loop_filters_witness:
  "\<exists>prog st'. compile (Len Lt 100) = Inr prog \<and> captured st' = 1 \<and>
     live_loop demo_world Args_default (Some prog) None demo_socket demo_ring
       [PollReturned (demo_ring[0 := demo_block TP_STATUS_USER]), PollFailed ''EINTR''] (start_state (Some [])) =
     (EndedErr (Io ''poll: EINTR''), st')"
proof -
  let ?polls = "[PollReturned (demo_ring[0 := demo_block TP_STATUS_USER]), PollFailed ''EINTR'']"
  let ?c = "capture_init demo_socket demo_ring"
  let ?p = "frame_packet 2 (demo_block TP_STATUS_USER) 0"
  have few: "predicates (Len Lt 100) \<le> 9" by simp
  obtain prog where c: "compile (Len Lt 100) = Inr prog" and v: "vec_len_ok prog" using compile_few [OF few] by blast
  have w: "writes_ok demo_world" by (simp add: writes_ok_def demo_world_def)
  have x: "ctx_ok (pkt_ctx (start_state (Some [])))" by (simp add: start_state_def PktCtx_new_def ctx_ok_def ts_ok_def)
  have sel: "sock ?c = demo_socket" "shared ?c = demo_ring" "kernel_pos ?c = 0" "sock_ifindex demo_socket = 2"
    by (simp_all add: capture_init_def demo_socket_def)
  have k: "\<not> kernel_filter_attached (sock ?c)" unfolding sel by (simp add: demo_socket_def)
  have pend: "pending_packets demo_socket demo_ring = []"
    using capture_init_inv [OF demo_facts(4)] by (simp add: capture_inv_def capture_init_def)
  have arr: "arrivals 2 0 ?polls = [?p]" and polls: "polls_ok (length demo_ring) 0 ?polls"
    using demo_facts by (simp add: demo_ring_def batch_size_def batch_ok_def ready_packets_def block_packets_def;
        simp add: demo_block_def)+
  have ok: "live_ok ?p" and data: "pkt_data ?p = [1, 2, 3]"
    by (simp_all add: frame_packet_def demo_block_def build_packet_def Packet_new_def PacketMeta_new_def
        live_ok_def packet_ts_ok_def ts_ok_def)
  have "\<not> count_reached Args_default st" for st by (simp add: count_reached_def Args_default_def)
  moreover have "limit Args_default 0 (filter (\<lambda>p. matches (Len Lt 100) (pkt_data p) \<and>
      \<not> direction_skips (direction Args_default) None (pkt_data p)) [?p]) = [?p]"
    by (simp add: limit_def Args_default_def direction_skips_def data)
  moreover have "captured (start_state (Some [])) = 0" by (simp add: start_state_def)
  ultimately show ?thesis
    using c live_loop_filters [where polls = ?polls and mac = None and args = Args_default,
        OF c v w x demo_facts(4) reachable_init k] polls ok
    unfolding sel pend arr by auto
qed

text \<open>
  C6. From the command line to the packets: a live run that filters in user space and writes a file,
  once its socket is open, writes exactly the packets that match the expression and that \<open>-Q\<close> does not
  exclude, of all that the kernel puts into the ring while the program polls, up to the limit of \<open>-c\<close>.
  It stops at the limit and reports the number, or with the error of a poll.
\<close>

theorem live_run_filters:
  assumes "read_file args = None" "\<not> list_interfaces_arg args" "\<not> dump_bpf args" "userspace_filter args"
    and "write_file args = Some dest" "w_create_pcap W dest = None" "writes_ok W"
    and "filter_expr W args = Inr (Some text)" "parse (w_pest_parse W) (w_overflow_checks W) text = Inr ast"
    and "compile ast = Inr prog" "vec_len_ok prog"
    and "capture_interface W args = Inr ifname" "iface_mac W args ifname = Inr mac"
    and "snd (open_with_options (w_os W) (w_page W) ifname (live_options args (Some prog))) = Inr (Some s)"
    and "w_ring W s \<noteq> []" "length (w_ring W s) = unat (arg_block_nr args)" "list_all (\<lambda>b. \<not> is_user b) (w_ring W s)"
    and "polls_ok (length (w_ring W s)) 0 (w_polls W s)"
    and "\<forall>p \<in> set (arrivals (sock_ifindex s) 0 (w_polls W s)). live_ok p"
  defines "kept \<equiv> limit args 0 (filter (\<lambda>p. matches ast (pkt_data p) \<and>
      \<not> direction_skips (direction args) mac (pkt_data p)) (arrivals (sock_ifindex s) 0 (w_polls W s)))"
  shows "\<exists>st e. run W args =
      (e, st, if e = Ended then ''captured '' @ show_dec (captured st) @ '' packets'' @ [newline] else []) \<and>
    written st = Some (map pcap_of kept) \<and> captured st = length kept \<and>
    (if count_reached args st then e = Ended else tail_end (poll_outcome (w_polls W s)) = Some e)"
proof -
  let ?st = "start_state (Some [])"
  have x: "ctx_ok (pkt_ctx ?st)" by (simp add: start_state_def PktCtx_new_def ctx_ok_def ts_ok_def)
  note socket = opened_socket [OF assms(14)]
  have fresh: "fresh_socket s (w_ring W s)"
    using assms(15-17) socket by (simp add: fresh_socket_def live_options_def Let_def)
  then have inv: "ring_inv 0 s (w_ring W s)" "pending_packets s (w_ring W s) = []"
    using capture_init_inv [OF fresh] by (simp_all add: capture_inv_def capture_init_def)
  have attached: "kernel_filter_attached s = False" using socket(4) assms(4) by (simp add: live_options_def Let_def)
  have "length (w_ring W s) = sock_block_nr s" using fresh by (simp add: fresh_socket_def)
  then have all: "capture_results (w_overflow_checks W) s (w_ring W s) (w_polls W s) =
      map Delivered (arrivals (sock_ifindex s) 0 (w_polls W s)) @ poll_outcome (w_polls W s)"
    using capture_results_arrivals [OF inv(1)] inv(2) assms(18) by simp
  obtain e where e: "tail_end (poll_outcome (w_polls W s)) = Some e" using tail_end_poll by blast
  from filter_engine.live_captures [OF compiled_engine [OF assms(10,11)] assms(7) x assms(19),
      where args = args and mac = mac and tail = "poll_outcome (w_polls W s)"]
  obtain st where st: "live_loop W args (Some prog) mac s (w_ring W s) (w_polls W s) ?st =
      (if count_reached args st then Ended else e, st)" "written st = Some (map pcap_of kept)" "captured st = length kept"
    unfolding live_loop_results all attached results_loop_tail [OF e] by (auto simp: start_state_def kept_def)
  have load: "load_program W args (Some text) = Inr (Some prog)" using assms(3,9,10) by (simp add: load_program_def)
  have "run_capture W args (Some prog) ?st = (if count_reached args st then Ended else e, st)"
    using assms(1,12-14) st(1) by (simp add: run_capture_def run_live_def)
  then show ?thesis
    using assms(2,5,6,8) load st(2,3) e unfolding run_def Let_def by (intro exI [of _ st]) auto
qed

definition live_args :: Args where
  "live_args = Args_default\<lparr>interface := Some ''any'', filter_words := [''len < 100''],
     userspace_filter := True, write_file := Some ''b'', arg_block_nr := 2\<rparr>"

definition live_world :: World where
  "live_world = demo_world\<lparr>w_os := (\<lambda>_. Inr 3), w_ring := (\<lambda>_. demo_ring),
     w_polls := (\<lambda>_. [PollReturned (demo_ring[0 := demo_block TP_STATUS_USER]), PollFailed ''EINTR''])\<rparr>"

lemma live_world_open:
  "\<exists>s. snd (open_with_options (w_os live_world) (w_page live_world) ''any'' (live_options live_args (Some prog))) =
     Inr (Some s) \<and> sock_ifindex s = 0"
proof -
  let ?o = "live_options live_args (Some prog)"
  have o: "block_size ?o = 2 ^ 20" "block_nr ?o = 2" "buffer_size ?o = None" "opt_filter ?o = None"
    "snaplen ?o = 65535" "frame_size ?o = Some 2048"
    by (simp_all add: live_options_def live_args_def Args_default_def Let_def)
  have "ring_frame_size ?o < 2 * 65791"
    using next_power_of_two_spec(3) [of 65791] by (simp add: ring_frame_size_def o)
  then obtain req bs where r: "ring_request (2 ^ 12) ?o = Some (req, bs, bs * 2)"
    using ring_request_powers [of ?o 20 "2 ^ 12" 12] o(1,2) by auto
  show ?thesis
    using r o by (simp add: live_world_def demo_world_def open_with_options_def set_non_blocking_def
        bind_to_interface_def sys_bind_def syscall_def syscall_hint_def sys_return_def)
qed

theorem live_run_filters_witness:
  "\<exists>st. run live_world live_args = (EndedErr (Io ''poll: EINTR''), st, []) \<and> captured st = 1"
proof -
  let ?polls = "[PollReturned (demo_ring[0 := demo_block TP_STATUS_USER]), PollFailed ''EINTR'']"
  let ?p = "frame_packet 0 (demo_block TP_STATUS_USER) 0"
  have few: "predicates (Len Lt 100) \<le> 9" by simp
  obtain prog where c: "compile (Len Lt 100) = Inr prog" and v: "vec_len_ok prog" using compile_few [OF few] by blast
  obtain s where s: "snd (open_with_options (w_os live_world) (w_page live_world) ''any''
      (live_options live_args (Some prog))) = Inr (Some s)" "sock_ifindex s = 0"
    using live_world_open by blast
  have "filter_text (Len Lt 100) = ''len < 100''" by code_simp
  then have parse: "parse (w_pest_parse live_world) (w_overflow_checks live_world) ''len < 100'' =
      Inr (Len Lt 100)"
    using parse_filter_text [of "Len Lt 100"] by (simp add: valid_ast_def live_world_def demo_world_def)
  have args: "read_file live_args = None" "\<not> list_interfaces_arg live_args" "\<not> dump_bpf live_args"
    "userspace_filter live_args" "write_file live_args = Some ''b''" "count_arg live_args = None" "direction live_args = None"
    "capture_interface live_world live_args = Inr ''any''" "iface_mac live_world live_args ''any'' = Inr None"
    "filter_expr live_world live_args = Inr (Some ''len < 100'')" "unat (arg_block_nr live_args) = 2"
    by (simp_all add: live_args_def Args_default_def capture_interface_def iface_mac_def filter_expr_def trim_def
        is_space_def)
  have world: "w_create_pcap live_world ''b'' = None" "writes_ok live_world" "w_ring live_world s = demo_ring"
    "w_polls live_world s = ?polls"
    by (simp_all add: live_world_def demo_world_def writes_ok_def)
  have ring: "w_ring live_world s \<noteq> []" "length (w_ring live_world s) = unat (arg_block_nr live_args)"
    "list_all (\<lambda>b. \<not> is_user b) (w_ring live_world s)"
    unfolding world args using demo_facts(1) by (simp_all add: demo_ring_def)
  have arr: "arrivals (sock_ifindex s) 0 (w_polls live_world s) = [?p]" and
    polls: "polls_ok (length (w_ring live_world s)) 0 (w_polls live_world s)"
    unfolding world s(2) using demo_facts
    by (simp add: demo_ring_def batch_size_def batch_ok_def ready_packets_def block_packets_def;
        simp add: demo_block_def)+
  have data: "pkt_data ?p = [1, 2, 3]" and "live_ok ?p"
    by (simp_all add: frame_packet_def demo_block_def build_packet_def Packet_new_def PacketMeta_new_def
        live_ok_def packet_ts_ok_def ts_ok_def)
  then have ok: "\<forall>p \<in> set (arrivals (sock_ifindex s) 0 (w_polls live_world s)). live_ok p" unfolding arr by simp
  have none: "\<not> count_reached live_args st" for st by (simp add: count_reached_def args)
  have kept: "length (limit live_args 0 (filter (\<lambda>p. matches (Len Lt 100) (pkt_data p) \<and>
      \<not> direction_skips (direction live_args) None (pkt_data p)) [?p])) = 1"
    by (simp add: limit_def direction_skips_def args data)
  from live_run_filters [OF args(1-5) world(1,2) args(10) parse c v args(8,9) s(1) ring polls ok]
  show ?thesis unfolding arr unfolding kept world by (auto simp: none)
qed



text \<open>
  C37. What the program prints can be typed back into a filter: after \<open>ether host\<close> and \<open>host\<close>, a MAC
  address and an IPv4 address as the packet line shows them parse to the predicates on these addresses.
\<close>

theorem printed_addresses_parse:
  assumes "follows_grammar pest_parse" "length mac = 6"
  shows "parse pest_parse oc (''ether host '' @ format_mac mac) = Inr (EtherHost mac Any) \<and>
    parse pest_parse oc (''host '' @ format_addr (Some (IpV4 a)) None numeric) = Inr (Host (HostV4 a) Any)"
proof -
  obtain b0 b1 b2 b3 b4 b5 where mac: "mac = [b0, b1, b2, b3, b4, b5]"
    using assms(2) by (auto simp: length_Suc_conv eval_nat_numeral)
  then have "format_mac mac = mac_str mac" by (simp add: format_mac_def mac_str_def)
  then have "filter_text (EtherHost mac Any) = ''ether host '' @ format_mac mac"
    "filter_text (Host (HostV4 a) Any) = ''host '' @ format_addr (Some (IpV4 a)) None numeric"
    by (simp_all add: filter_text_def predicate_text_def format_addr_def)
  moreover obtain message where "pest_parse = pest_filter message" using follows_grammar_filter [OF assms(1)] .
  ultimately show ?thesis
    using parse_filter_text [of "EtherHost mac Any" message oc] parse_filter_text [of "Host (HostV4 a) Any" message oc]
      assms(2) by (simp add: valid_ast_def)
qed

theorem printed_addresses_parse_witness:
  "parse (pest_filter (\<lambda>_. ''no'')) True (''ether host '' @ format_mac [0, 0x1b, 0x21, 0xff, 2, 3]) =
     Inr (EtherHost [0, 0x1b, 0x21, 0xff, 2, 3] Any)"
  using printed_addresses_parse [OF pest_filter_follows, of "[0, 0x1b, 0x21, 0xff, 2, 3]"] by simp

text \<open>
  C33. The unit tests of the repository hold of the model, all but those of the socket: of the parser in every
  build, of the virtual machine on hand-written and on compiled programs, of a filter from its text to
  the verdict, of the packet summary, and of the hex dump.
\<close>

theorem repository_tests_hold:
  assumes "follows_grammar pest_parse" "\<And>input e. pest_parse input = Inl e \<Longrightarrow> e \<noteq> []" "slices_ethernet from_ethernet"
  shows "parser_tests (parse pest_parse oc) \<and> vm_tests \<and> compile_parsed_and_or_filter (parse pest_parse oc) \<and>
    core_tests from_ethernet \<and> cli_tests"
proof -
  let ?ast = "Or (And (Proto Tcp) (Host (HostV4 (Ipv4Addr_new 192 168 1 1)) Any)) (Proto Udp)"
  have "filter_text ?ast = ''tcp and host 192.168.1.1 or udp''" unfolding addresses by code_simp
  moreover obtain message where "pest_parse = pest_filter message" using follows_grammar_filter [OF assms(1)] .
  ultimately have "parse pest_parse oc ''tcp and host 192.168.1.1 or udp'' = Inr ?ast"
    using parse_filter_text [of ?ast message oc] by (simp add: valid_ast_def)
  with parser_tests_hold [OF assms(1,2)] core_tests_hold [OF assms(3)] show ?thesis
    by (simp add: vm_tests_hold cli_tests_hold run_parsed)
qed

theorem repository_tests_hold_witness:
  "parser_tests (parse (pest_filter (\<lambda>_. ''no'')) True) \<and> vm_tests \<and> core_tests field_slicer \<and> cli_tests"
proof -
  have "e \<noteq> []" if "pest_filter (\<lambda>_. ''no'') input = Inl e" for input e
    using that by (auto simp: pest_filter_def split: peg_result.splits)
  with repository_tests_hold [OF pest_filter_follows [of "\<lambda>_. ''no''"] _ field_slicer_slices, of True]
  show ?thesis by blast
qed

end
